(* ===== verification/Prelude.thy ===== *)
theory Prelude
  imports Main "HOL-Library.Word"
begin

unbundle bit_operations_syntax

section \<open>Shared types, Go primitives and generic lemmas\<close>

text \<open>
  What every component of the development uses: the Go types that cross component borders
  (\<open>byte\<close>, \<open>[]byte\<close>, \<open>uint16\<close>, \<open>string\<close>), the calls of Go's standard library on byte
  streams (\<open>io.ReadFull\<close>, \<open>binary.BigEndian\<close>), results of fallible code as sums (\<open>Inl\<close> the
  error), the decoder interfaces shared by the wire formats, and reachability of step relations
  with its invariant rule.

  A Go \<open>string\<close> is an immutable sequence of bytes; a HOL \<^typ>\<open>char\<close> has 256 values, so
  \<^typ>\<open>string\<close> models it exactly, and the conversions \<open>string(b)\<close> and \<open>[]byte(s)\<close> are
  \<open>string_of_bytes\<close> and \<open>bytes_of_string\<close>. A nil slice and an empty slice are both \<open>[]\<close>:
  the code only ever takes their length, ranges over them or converts them.
\<close>

named_theorems codec_simps \<open>evaluation of readers on well-formed input\<close>
named_theorems codec_dests \<open>what a successful read says about the input\<close>
named_theorems inv_intros \<open>preservation of a component's invariant by its operations\<close>

subsection \<open>Bytes, strings and 16-bit integers\<close>

type_synonym byte = "8 word"
type_synonym bytes = "byte list"
type_synonym uint16 = "16 word"

definition string_of_bytes :: "bytes \<Rightarrow> string" where
  "string_of_bytes bs = map (\<lambda>b. char_of (unat b)) bs"

definition bytes_of_string :: "string \<Rightarrow> bytes" where
  "bytes_of_string s = map (\<lambda>c. word_of_nat (of_char c)) s"

lemma unat_byte_less [simp]: "unat (b :: byte) < 256"
  using unsigned_less [of b, where ?'a = nat] by simp

lemma unat_uint16_less [simp]: "unat (v :: uint16) < 65536"
  using unsigned_less [of v, where ?'a = nat] by simp

lemma char_of_word_of_char [simp]: "char_of (unat (word_of_nat (of_char c) :: byte)) = c"
proof -
  have "(of_char c :: nat) < 256" by simp
  then show ?thesis by (simp add: unat_of_nat)
qed

lemma string_of_bytes_of_string [simp]: "string_of_bytes (bytes_of_string s) = s"
  by (simp add: string_of_bytes_def bytes_of_string_def comp_def)

lemma bytes_of_string_of_bytes [simp]: "bytes_of_string (string_of_bytes bs) = bs"
  by (simp add: string_of_bytes_def bytes_of_string_def comp_def)

lemma length_string_of_bytes [simp]: "length (string_of_bytes bs) = length bs"
  by (simp add: string_of_bytes_def)

lemma length_bytes_of_string [simp]: "length (bytes_of_string s) = length s"
  by (simp add: bytes_of_string_def)

lemma string_of_bytes_Nil_iff [simp]: "string_of_bytes bs = [] \<longleftrightarrow> bs = []"
  by (simp add: string_of_bytes_def)

lemma bytes_of_string_Nil_iff [simp]: "bytes_of_string s = [] \<longleftrightarrow> s = []"
  by (simp add: bytes_of_string_def)

lemma string_of_bytes_Nil [simp]: "string_of_bytes [] = []"
  by simp

lemma take_bytes_of_string: "take n (bytes_of_string s) = bytes_of_string (take n s)"
  by (simp add: bytes_of_string_def take_map)

lemma drop_bytes_of_string: "drop n (bytes_of_string s) = bytes_of_string (drop n s)"
  by (simp add: bytes_of_string_def drop_map)

text \<open>\<open>binary.BigEndian.Uint16\<close> and \<open>PutUint16\<close>; the second is also what the code writes out
  as \<open>byte(v >> 8), byte(v & 0xFF)\<close>.\<close>

definition be_uint16 :: "byte \<Rightarrow> byte \<Rightarrow> uint16" where
  "be_uint16 hi lo = (ucast lo OR push_bit 8 (ucast hi))"

definition put_uint16 :: "uint16 \<Rightarrow> bytes" where
  "put_uint16 v = [ucast (drop_bit 8 v), ucast (v AND 0xFF)]"

lemma length_put_uint16 [simp]: "length (put_uint16 v) = 2"
  by (simp add: put_uint16_def)

lemma and_255_eq: "(v :: uint16) AND 255 = take_bit 8 v"
  by (simp add: take_bit_eq_mask mask_eq_exp_minus_1)

lemma byte_bit_beyond: "8 \<le> n \<Longrightarrow> \<not> bit (b :: byte) n"
  using bit_imp_le_length by fastforce

lemma be_put_uint16 [simp]: "be_uint16 (ucast (drop_bit 8 v)) (ucast (v AND 0xFF)) = v"
  by (rule bit_word_eqI) (auto simp: be_uint16_def bit_simps and_255_eq not_le)

lemma put_be_uint16 [simp]: "put_uint16 (be_uint16 hi lo) = [hi, lo]"
  unfolding put_uint16_def be_uint16_def
  by (auto intro!: bit_word_eqI simp: bit_simps and_255_eq byte_bit_beyond)

lemma unat_be_uint16: "unat (be_uint16 hi lo) = 256 * unat hi + unat lo"
proof -
  have "be_uint16 hi lo = ucast lo + push_bit 8 (ucast hi)"
    unfolding be_uint16_def
    by (rule disjunctive_add [symmetric]) (auto simp: bit_simps byte_bit_beyond)
  also have "\<dots> = word_of_nat (unat lo) + 256 * word_of_nat (unat hi)"
    by (simp add: push_bit_eq_mult mult.commute)
  also have "\<dots> = word_of_nat (256 * unat hi + unat lo)" by simp
  finally have "unat (be_uint16 hi lo) = (256 * unat hi + unat lo) mod 65536"
    by (simp only: unat_of_nat) simp
  moreover have "256 * unat hi + unat lo < 65536"
    using unat_byte_less [of hi] unat_byte_less [of lo] by linarith
  ultimately show ?thesis by simp
qed

subsection \<open>Reading from a byte stream\<close>

text \<open>
  An \<open>io.Reader\<close> over a finite stream is the list of bytes still to come. \<open>io.ReadFull\<close> fills a
  buffer of \<open>n\<close> bytes or fails: with \<open>io.EOF\<close> when nothing was left, with
  \<open>io.ErrUnexpectedEOF\<close> when some but not enough was.
\<close>

datatype io_error = EOF | ErrUnexpectedEOF

definition read_full :: "nat \<Rightarrow> bytes \<Rightarrow> io_error + (bytes \<times> bytes)" where
  "read_full n r =
     (if n \<le> length r then Inr (take n r, drop n r)
      else if r = [] then Inl EOF else Inl ErrUnexpectedEOF)"

lemma read_full_append [codec_simps]: "length xs = n \<Longrightarrow> read_full n (xs @ r) = Inr (xs, r)"
  by (simp add: read_full_def)

lemma read_full_Inr_iff: "read_full n r = Inr (xs, r') \<longleftrightarrow> length xs = n \<and> r = xs @ r'"
  by (auto simp: read_full_def)

lemma read_full_1_Cons [codec_simps, simp]: "read_full (Suc 0) (b # r) = Inr ([b], r)"
  by (simp add: read_full_def)

lemma read_full_2_Cons [codec_simps, simp]: "read_full 2 (a # b # r) = Inr ([a, b], r)"
  by (simp add: read_full_def)

lemma read_full_1D [codec_dests]: "read_full (Suc 0) r = Inr (xs, r') \<Longrightarrow> \<exists>b. xs = [b] \<and> r = b # r'"
  by (cases r) (auto simp: read_full_def)

lemma read_full_2D [codec_dests]:
  "read_full 2 r = Inr (xs, r') \<Longrightarrow> \<exists>a b. xs = [a, b] \<and> r = a # b # r'"
  by (auto simp: read_full_Inr_iff numeral_2_eq_2 length_Suc_conv)

lemma read_full_shorter: "read_full n r = Inr (xs, r') \<Longrightarrow> length r' + n = length r"
  by (auto simp: read_full_Inr_iff)

subsection \<open>Decoders and their laws\<close>

text \<open>
  A wire format is a reader \<open>dec\<close> that returns a value and the rest of the stream, and a writer
  \<open>enc\<close>. \<open>decoder\<close> is the contract a consumer of frames relies on: what was written is read
  back, whatever follows it. It makes the writer's output self-delimiting. \<open>exact_decoder\<close> adds
  that nothing else is accepted.
\<close>

locale decoder =
  fixes dec :: "bytes \<Rightarrow> 'e + ('a \<times> bytes)"
    and enc :: "'a \<Rightarrow> bytes"
    and ok :: "'a \<Rightarrow> bool"
  assumes dec_enc: "ok x \<Longrightarrow> dec (enc x @ r) = Inr (x, r)"
begin

lemma prefix_free:
  assumes "ok x" and "ok y" and eq: "enc x @ r = enc y @ s"
  shows "x = y \<and> r = s"
proof -
  from dec_enc [OF \<open>ok y\<close>, of s] have "dec (enc x @ r) = Inr (y, s)" by (simp add: eq)
  with dec_enc [OF \<open>ok x\<close>, of r] show ?thesis by simp
qed

lemma enc_inj: "ok x \<Longrightarrow> ok y \<Longrightarrow> enc x = enc y \<Longrightarrow> x = y"
  using prefix_free [of x y "[]" "[]"] by simp

end

locale exact_decoder = decoder +
  assumes enc_dec: "dec r = Inr (x, r') \<Longrightarrow> ok x \<and> r = enc x @ r'"
begin

lemma dec_iff: "dec r = Inr (x, r') \<longleftrightarrow> ok x \<and> r = enc x @ r'"
  using dec_enc enc_dec by blast

lemma dec_length: "dec r = Inr (x, r') \<Longrightarrow> length r = length (enc x) + length r'"
  by (drule enc_dec) simp

end

subsection \<open>Reachable states of a step relation\<close>

inductive reachable :: "('s \<Rightarrow> bool) \<Rightarrow> ('s \<Rightarrow> 's \<Rightarrow> bool) \<Rightarrow> 's \<Rightarrow> bool" for init step where
  reachable_init: "init s \<Longrightarrow> reachable init step s"
| reachable_step: "reachable init step s \<Longrightarrow> step s t \<Longrightarrow> reachable init step t"

text \<open>The contract of an inductive invariant, and what it gives.\<close>

locale invariant_system =
  fixes init :: "'s \<Rightarrow> bool" and step :: "'s \<Rightarrow> 's \<Rightarrow> bool" and inv :: "'s \<Rightarrow> bool"
  assumes inv_init: "init s \<Longrightarrow> inv s"
    and inv_step: "inv s \<Longrightarrow> step s t \<Longrightarrow> inv t"
begin

lemma reachable_inv: "reachable init step s \<Longrightarrow> inv s"
  by (induction rule: reachable.induct) (auto intro: inv_init inv_step)

lemma steps_inv: "step\<^sup>*\<^sup>* s t \<Longrightarrow> inv s \<Longrightarrow> inv t"
  by (induction rule: rtranclp_induct) (auto intro: inv_step)

end

lemma reachable_rtranclp: "reachable init step s \<Longrightarrow> step\<^sup>*\<^sup>* s t \<Longrightarrow> reachable init step t"
  by (rotate_tac, induction rule: rtranclp_induct) (auto intro: reachable_step)

end
