(* ===== verification/Go_Time.thy ===== *)
theory Go_Time
  imports Prelude
begin

section \<open>Go's time.Time and time.Duration\<close>

text \<open>
  A \<open>time.Time\<close> is an instant and the zone it is shown in. The instant is counted in nanoseconds
  from Go's zero time, January 1 of year 1, 00:00 UTC, so \<open>IsZero\<close> is instant 0; the zone is its
  offset east of UTC in seconds at that instant. Comparisons look at the instant only. A
  \<open>time.Duration\<close> is a 64-bit count of nanoseconds: an \<^typ>\<open>int\<close> whose sums and products wrap
  around (\<open>wrap64\<close>), while \<open>Time.Sub\<close> saturates (\<open>sat64\<close>).
\<close>

definition wrap64 :: "int \<Rightarrow> int" where
  "wrap64 x = (x + 2 ^ 63) mod 2 ^ 64 - 2 ^ 63"

definition sat64 :: "int \<Rightarrow> int" where
  "sat64 x = max (- (2 ^ 63)) (min (2 ^ 63 - 1) x)"

definition fits64 :: "int \<Rightarrow> bool" where
  "fits64 x \<longleftrightarrow> - (2 ^ 63) \<le> x \<and> x < 2 ^ 63"

lemma wrap64_id [simp]: "fits64 x \<Longrightarrow> wrap64 x = x"
  by (simp add: wrap64_def fits64_def)

lemma fits64_wrap64 [simp]: "fits64 (wrap64 x)"
  by (simp add: wrap64_def fits64_def)

lemma sat64_id [simp]: "fits64 x \<Longrightarrow> sat64 x = x"
  by (simp add: sat64_def fits64_def)

lemma fits64_sat64 [simp]: "fits64 (sat64 x)"
  by (auto simp: sat64_def fits64_def)

lemma fits64_between: "fits64 a \<Longrightarrow> fits64 b \<Longrightarrow> a \<le> x \<Longrightarrow> x \<le> b \<Longrightarrow> fits64 x"
  by (simp add: fits64_def)

lemma fits64_nonneg: "0 \<le> x \<Longrightarrow> x < 2 ^ 63 \<Longrightarrow> fits64 x"
  by (simp add: fits64_def)

record gotime =
  tm_ns :: int
  tm_off :: int

type_synonym duration = int

definition second :: duration where "second = 1000000000"
definition minute :: duration where "minute = 60 * second"

definition After :: "gotime \<Rightarrow> gotime \<Rightarrow> bool" where
  "After t u \<longleftrightarrow> tm_ns t > tm_ns u"

definition Before :: "gotime \<Rightarrow> gotime \<Rightarrow> bool" where
  "Before t u \<longleftrightarrow> tm_ns t < tm_ns u"

definition time_add :: "gotime \<Rightarrow> duration \<Rightarrow> gotime" where
  "time_add t d = t\<lparr>tm_ns := tm_ns t + d\<rparr>"

definition time_sub :: "gotime \<Rightarrow> gotime \<Rightarrow> duration" where
  "time_sub t u = sat64 (tm_ns t - tm_ns u)"

definition IsZero :: "gotime \<Rightarrow> bool" where
  "IsZero t \<longleftrightarrow> tm_ns t = 0"

definition to_utc :: "gotime \<Rightarrow> gotime" where
  "to_utc t = t\<lparr>tm_off := 0\<rparr>"

lemmas time_order = After_def Before_def

lemma tm_ns_time_add [simp]: "tm_ns (time_add t d) = tm_ns t + d"
  by (simp add: time_add_def)

lemma not_After_iff: "\<not> After t u \<longleftrightarrow> tm_ns t \<le> tm_ns u"
  by (auto simp: After_def)

lemma time_sub_nonneg: "tm_ns u \<le> tm_ns t \<Longrightarrow> 0 \<le> time_sub t u"
  by (simp add: time_sub_def sat64_def)

lemma tm_ns_to_utc [simp]: "tm_ns (to_utc t) = tm_ns t"
  by (simp add: to_utc_def)

end
