(* ===== verification/Go_Strings.thy ===== *)
theory Go_Strings
  imports Prelude "HOL-Library.Sublist"
begin

section \<open>Go's string functions\<close>

text \<open>
  The functions of the packages \<open>strings\<close> and \<open>strconv\<close> the program calls, on byte strings.
  \<open>strings.TrimSpace\<close> removes the runes with \<open>unicode.IsSpace\<close> from both ends; on UTF-8 text a
  rune is a fixed sequence of bytes, and bytes that are no valid encoding are never a space, so
  trimming is stripping these sequences.
\<close>

subsection \<open>strings.TrimSpace\<close>

definition go_spaces :: "string list" where
  "go_spaces =
     [[CHR 0x09], [CHR 0x0A], [CHR 0x0B], [CHR 0x0C], [CHR 0x0D], [CHR 0x20],
      [CHR 0xC2, CHR 0x85], [CHR 0xC2, CHR 0xA0],
      [CHR 0xE1, CHR 0x9A, CHR 0x80],
      [CHR 0xE2, CHR 0x80, CHR 0x80], [CHR 0xE2, CHR 0x80, CHR 0x81],
      [CHR 0xE2, CHR 0x80, CHR 0x82], [CHR 0xE2, CHR 0x80, CHR 0x83],
      [CHR 0xE2, CHR 0x80, CHR 0x84], [CHR 0xE2, CHR 0x80, CHR 0x85],
      [CHR 0xE2, CHR 0x80, CHR 0x86], [CHR 0xE2, CHR 0x80, CHR 0x87],
      [CHR 0xE2, CHR 0x80, CHR 0x88], [CHR 0xE2, CHR 0x80, CHR 0x89],
      [CHR 0xE2, CHR 0x80, CHR 0x8A], [CHR 0xE2, CHR 0x80, CHR 0xA8],
      [CHR 0xE2, CHR 0x80, CHR 0xA9], [CHR 0xE2, CHR 0x80, CHR 0xAF],
      [CHR 0xE2, CHR 0x81, CHR 0x9F], [CHR 0xE3, CHR 0x80, CHR 0x80]]"

definition leading :: "string list \<Rightarrow> string \<Rightarrow> string option" where
  "leading sps s = find (\<lambda>sp. sp \<noteq> [] \<and> take (length sp) s = sp) sps"

lemma leading_SomeD: "leading sps s = Some sp \<Longrightarrow> sp \<in> set sps \<and> sp \<noteq> [] \<and> prefix sp s"
  by (auto simp: leading_def find_Some_iff take_is_prefix) (metis take_is_prefix)

lemma leading_None_iff: "leading sps s = None \<longleftrightarrow> (\<forall>sp\<in>set sps. sp \<noteq> [] \<longrightarrow> \<not> prefix sp s)"
  by (auto simp: leading_def find_None_iff prefix_def take_all_iff) (metis append_eq_conv_conj append_take_drop_id)+

function strip :: "string list \<Rightarrow> string \<Rightarrow> string" where
  "strip sps s = (case leading sps s of None \<Rightarrow> s | Some sp \<Rightarrow> strip sps (drop (length sp) s))"
  by pat_completeness auto
termination
  by (relation "measure (length \<circ> snd)") (auto dest!: leading_SomeD simp: prefix_def)

declare strip.simps [simp del]

definition TrimSpace :: "string \<Rightarrow> string" where
  "TrimSpace s = rev (strip (map rev go_spaces) (rev (strip go_spaces s)))"

lemma leading_strip [simp]: "leading sps (strip sps s) = None"
  by (induction sps s rule: strip.induct) (subst strip.simps, simp split: option.split)

lemma strip_id: "leading sps s = None \<Longrightarrow> strip sps s = s"
  by (simp add: strip.simps)

lemma suffix_strip: "suffix (strip sps s) s"
proof (induction sps s rule: strip.induct)
  case (1 sps s)
  show ?case
    by (subst strip.simps)
      (auto split: option.split intro: suffix_order.trans [OF "1.IH"] suffix_drop)
qed

lemma leading_prefix: "leading sps s = None \<Longrightarrow> prefix s' s \<Longrightarrow> leading sps s' = None"
  by (auto simp: leading_None_iff)

definition trimmed :: "string \<Rightarrow> bool" where
  "trimmed s \<longleftrightarrow> leading go_spaces s = None \<and> leading (map rev go_spaces) (rev s) = None"

lemma trimmed_TrimSpace [simp]: "trimmed (TrimSpace s)"
proof -
  let ?l = "strip go_spaces s"
  have "suffix (strip (map rev go_spaces) (rev ?l)) (rev ?l)" by (rule suffix_strip)
  then have "prefix (TrimSpace s) ?l" by (simp add: TrimSpace_def suffix_to_prefix)
  then have "leading go_spaces (TrimSpace s) = None"
    by (rule leading_prefix [rotated]) simp
  then show ?thesis by (simp add: trimmed_def) (simp add: TrimSpace_def)
qed

lemma TrimSpace_id [simp]: "trimmed s \<Longrightarrow> TrimSpace s = s"
  by (simp add: trimmed_def TrimSpace_def strip_id)

subsection \<open>strings.Split and strings.Join on a one-byte separator\<close>

fun split_on :: "char \<Rightarrow> string \<Rightarrow> string list" where
  "split_on sep [] = [[]]"
| "split_on sep (c # cs) =
     (if c = sep then [] # split_on sep cs
      else (case split_on sep cs of [] \<Rightarrow> [[c]] | w # ws \<Rightarrow> (c # w) # ws))"

fun join_with :: "char \<Rightarrow> string list \<Rightarrow> string" where
  "join_with sep [] = []"
| "join_with sep [w] = w"
| "join_with sep (w # v # ws) = w @ sep # join_with sep (v # ws)"

lemma split_on_nonempty [simp]: "split_on sep s \<noteq> []"
  by (induction s) (auto split: list.split)

lemma join_split [simp]: "join_with sep (split_on sep s) = s"
proof (induction s)
  case (Cons c s)
  obtain w ws where ws: "split_on sep s = w # ws"
    using split_on_nonempty [of sep s] by (cases "split_on sep s") auto
  with Cons show ?case by (cases ws) auto
qed simp

lemma split_on_no_sep: "sep \<notin> set w \<Longrightarrow> split_on sep w = [w]"
  by (induction w) auto

lemma split_on_append: "sep \<notin> set w \<Longrightarrow> split_on sep (w @ sep # s) = w # split_on sep s"
  by (induction w) auto

lemma split_join: "ws \<noteq> [] \<Longrightarrow> (\<And>w. w \<in> set ws \<Longrightarrow> sep \<notin> set w) \<Longrightarrow> split_on sep (join_with sep ws) = ws"
  by (induction sep ws rule: join_with.induct) (simp_all add: split_on_no_sep split_on_append)

lemma split_on_parts: "w \<in> set (split_on sep s) \<Longrightarrow> sep \<notin> set w"
  by (induction s arbitrary: w) (auto split: list.splits if_splits)

end
