(* ===== verification/Go_Calendar.thy ===== *)
theory Go_Calendar
  imports Go_Time Go_Strings "HOL-Library.Monad_Syntax"
begin

section \<open>Calendar and RFC 3339 text (package time)\<close>

text \<open>
  The repositories store times as RFC 3339 text with nanoseconds. The calendar follows Go's:
  days are counted from January 1 of year 1, split into cycles of 400, 100, 4 and 1 years.
  \<open>FormatRFC3339Nano\<close> is \<open>Format(time.RFC3339Nano)\<close>, with trailing zeros of the fraction cut off,
  and \<open>ParseRFC3339\<close> is \<open>time.Parse(time.RFC3339, s)\<close>: besides the strict form it takes a one-digit
  hour, a comma before the fraction, and zone offsets of up to 24 hours and 60 minutes. An offset of
  24:60 is the one that is not read back: it is printed as 25:00.
\<close>

subsection \<open>Days and civil dates\<close>

definition is_leap :: "int \<Rightarrow> bool" where
  "is_leap y \<longleftrightarrow> y mod 4 = 0 \<and> (y mod 100 \<noteq> 0 \<or> y mod 400 = 0)"

definition leap_day :: "int \<Rightarrow> int" where
  "leap_day y = (if is_leap y then 1 else 0)"

definition days_before_year :: "int \<Rightarrow> int" where
  "days_before_year y = 365 * (y - 1) + (y - 1) div 4 - (y - 1) div 100 + (y - 1) div 400"

definition days_before_month :: "int \<Rightarrow> int \<Rightarrow> int" where
  "days_before_month l m =
     (if m = 1 then 0 else if m = 2 then 31 else l +
       (if m = 3 then 59 else if m = 4 then 90 else if m = 5 then 120 else if m = 6 then 151
        else if m = 7 then 181 else if m = 8 then 212 else if m = 9 then 243 else if m = 10 then 273
        else if m = 11 then 304 else 334))"

definition days_of_civil :: "int \<Rightarrow> int \<Rightarrow> int \<Rightarrow> int" where
  "days_of_civil y m d = days_before_year y + days_before_month (leap_day y) m + d - 1"

definition days_in :: "int \<Rightarrow> int \<Rightarrow> int" where
  "days_in y m = (if m = 2 then 28 + leap_day y else if m \<in> {4, 6, 9, 11} then 30 else 31)"

definition year_yday :: "int \<Rightarrow> int \<times> int" where
  "year_yday n =
     (let a = n div 146097; r = n mod 146097;
          b = min 3 (r div 36524); r = r - 36524 * b;
          c = r div 1461; r = r mod 1461;
          e = min 3 (r div 365); r = r - 365 * e
      in (400 * a + 100 * b + 4 * c + e + 1, r))"

definition month_of_yday :: "int \<Rightarrow> int \<Rightarrow> int" where
  "month_of_yday l yd =
     (if yd < 31 then 1 else if yd < l + 59 then 2 else if yd < l + 90 then 3 else if yd < l + 120 then 4
      else if yd < l + 151 then 5 else if yd < l + 181 then 6 else if yd < l + 212 then 7
      else if yd < l + 243 then 8 else if yd < l + 273 then 9 else if yd < l + 304 then 10
      else if yd < l + 334 then 11 else 12)"

definition civil_of_days :: "int \<Rightarrow> int \<times> int \<times> int" where
  "civil_of_days n =
     (case year_yday n of (y, yd) \<Rightarrow>
        let m = month_of_yday (leap_day y) yd in (y, m, yd - days_before_month (leap_day y) m + 1))"

text \<open>Sunday is 0; January 1 of year 1 was a Monday.\<close>

definition weekday_of_days :: "int \<Rightarrow> int" where
  "weekday_of_days n = (n + 1) mod 7"

lemma div_cycles:
  assumes "0 \<le> b" "b \<le> 3" "0 \<le> c" "c \<le> 24" "0 \<le> e" "e \<le> (3 :: int)"
  shows "(400 * a + 100 * b + 4 * c + e) div 4 = 100 * a + 25 * b + c"
    "(400 * a + 100 * b + 4 * c + e) div 100 = 4 * a + b"
    "(400 * a + 100 * b + 4 * c + e) div 400 = a"
proof -
  have eqs: "400 * a + 100 * b + 4 * c + e = e + (100 * a + 25 * b + c) * 4"
    "400 * a + 100 * b + 4 * c + e = (4 * c + e) + (4 * a + b) * 100"
    "400 * a + 100 * b + 4 * c + e = (100 * b + 4 * c + e) + a * 400" by simp_all
  show "(400 * a + 100 * b + 4 * c + e) div 4 = 100 * a + 25 * b + c"
    unfolding eqs(1) using assms by (subst div_mult_self1) simp_all
  show "(400 * a + 100 * b + 4 * c + e) div 100 = 4 * a + b"
    unfolding eqs(2) using assms by (subst div_mult_self1) simp_all
  show "(400 * a + 100 * b + 4 * c + e) div 400 = a"
    unfolding eqs(3) using assms by (subst div_mult_self1) simp_all
qed

lemma is_leap_cycles:
  assumes "0 \<le> b" "b \<le> 3" "0 \<le> c" "c \<le> 24" "\<not> (c = 24 \<and> b < (3 :: int))"
  shows "is_leap (400 * a + 100 * b + 4 * c + 4)"
proof (cases "c = 24")
  case True
  with assms have "b = 3" by simp
  with True have "400 * a + 100 * b + 4 * c + 4 = 400 * (a + 1)" by simp
  moreover have "400 * (a + 1) = 100 * (a + 1) * 4" by simp
  ultimately show ?thesis unfolding is_leap_def by (simp only: mod_mult_self1_is_0 mod_mult_self2_is_0) simp
next
  case False
  have "400 * a + 100 * b + 4 * c + 4 = (4 * c + 4) + (4 * a + b) * 100" by simp
  then have "(400 * a + 100 * b + 4 * c + 4) mod 100 = (4 * c + 4) mod 100" by (simp only: mod_mult_self1)
  also have "\<dots> = 4 * c + 4" by (rule mod_pos_pos_trivial) (use False assms in linarith)+
  finally have "(400 * a + 100 * b + 4 * c + 4) mod 100 \<noteq> 0" using assms by simp
  moreover have "400 * a + 100 * b + 4 * c + 4 = (100 * a + 25 * b + c + 1) * 4" by simp
  then have "(400 * a + 100 * b + 4 * c + 4) mod 4 = 0" by (simp only: mod_mult_self2_is_0)
  ultimately show ?thesis by (simp add: is_leap_def)
qed

lemma cycle_split:
  assumes "0 \<le> r" "0 < d" "0 \<le> k" and b: "b = min k (r div (d :: int))"
  shows "0 \<le> b" "b \<le> k" "0 \<le> r - d * b" "b < k \<Longrightarrow> r - d * b < d"
proof -
  have q: "0 \<le> r div d" using assms(1,2) by (simp add: pos_imp_zdiv_nonneg_iff)
  show "0 \<le> b" "b \<le> k" using q assms(3) by (simp_all add: b)
  have "d * b \<le> d * (r div d)" using assms(2) by (simp add: b)
  moreover have eq: "d * (r div d) + r mod d = r" by simp
  moreover have "0 \<le> r mod d" "r mod d < d" using assms(2) by simp_all
  ultimately show "0 \<le> r - d * b" by linarith
  assume "b < k"
  then have "b = r div d" by (simp add: b min_def split: if_splits)
  show "r - d * b < d" unfolding \<open>b = r div d\<close> using eq \<open>r mod d < d\<close> by linarith
qed

lemma year_yday_correct:
  assumes "year_yday n = (y, yd)"
  shows "days_before_year y + yd = n \<and> 0 \<le> yd \<and> yd < 365 + leap_day y"
proof -
  define a where "a = n div 146097"
  define r where "r = n mod 146097"
  define b where "b = min 3 (r div 36524)"
  define r1 where "r1 = r - 36524 * b"
  define c where "c = r1 div 1461"
  define r2 where "r2 = r1 mod 1461"
  define e where "e = min 3 (r2 div 365)"
  have r: "0 \<le> r" "r < 146097" and n: "n = 146097 * a + r" by (simp_all add: r_def a_def)
  have b: "0 \<le> b" "b \<le> 3" "0 \<le> r1" "b < 3 \<Longrightarrow> r1 < 36524"
    unfolding r1_def by (rule cycle_split [of r 36524 3 b]; simp add: r b_def)+
  have r1: "r1 < 36525" using b(2,4) r(2) by (cases "b < 3") (auto simp: r1_def)
  have c: "0 \<le> r2" "r2 < 1461" "r1 = 1461 * c + r2" by (simp_all add: c_def r2_def)
  then have c': "0 \<le> c" "c \<le> 24" using b(3) r1 by linarith+
  have e: "0 \<le> e" "e \<le> 3" "0 \<le> r2 - 365 * e" "e < 3 \<Longrightarrow> r2 - 365 * e < 365"
    by (rule cycle_split [of r2 365 3 e]; simp add: c e_def)+
  have e': "r2 - 365 * e < 366" using e(2,4) c(2) by (cases "e < 3") auto
  have "year_yday n = (400 * a + 100 * b + 4 * c + e + 1, r2 - 365 * e)"
    unfolding year_yday_def Let_def a_def r_def b_def r1_def c_def r2_def e_def by (rule refl)
  with assms have y: "y = 400 * a + 100 * b + 4 * c + e + 1" "yd = r2 - 365 * e" by simp_all
  have "days_before_year y + yd = n"
    unfolding days_before_year_def y add_diff_cancel_right' div_cycles [OF b(1,2) c' e(1,2), of a]
    using n c(3) r1_def by (simp add: algebra_simps)
  moreover have "yd < 365" if "\<not> is_leap y"
  proof (rule ccontr)
    assume "\<not> yd < 365"
    then have e3: "e = 3" using e(2,4) y by (cases "e < 3") auto
    have "\<not> (c = 24 \<and> b < 3)"
      using b(4) c(3) \<open>\<not> yd < 365\<close> y(2) e3 by auto
    then have "is_leap y" using is_leap_cycles [OF b(1,2) c', of a] y(1) e3 by (simp add: algebra_simps)
    with that show False by simp
  qed
  ultimately show ?thesis using e(3) e' y(2) by (auto simp: leap_day_def)
qed

lemma civil_of_days_correct:
  assumes "civil_of_days n = (y, m, d)"
  shows "days_of_civil y m d = n \<and> 1 \<le> m \<and> m \<le> 12 \<and> 1 \<le> d \<and> d \<le> days_in y m \<and> d \<le> 31"
proof -
  obtain yd where yy: "year_yday n = (y, yd)" and m: "m = month_of_yday (leap_day y) yd"
    and d: "d = yd - days_before_month (leap_day y) m + 1"
    using assms by (auto simp: civil_of_days_def Let_def split: prod.splits)
  note c = year_yday_correct [OF yy]
  have "leap_day y = 0 \<or> leap_day y = 1" by (simp add: leap_day_def)
  then have "1 \<le> m \<and> m \<le> 12 \<and> 1 \<le> d \<and> d \<le> days_in y m \<and> d \<le> 31"
    using c unfolding d m month_of_yday_def days_before_month_def days_in_def by (elim disjE) auto
  with c d show ?thesis by (simp add: days_of_civil_def)
qed

subsection \<open>Decimal text\<close>

definition digit :: "int \<Rightarrow> char" where
  "digit d = char_of (48 + nat d)"

definition is_digit :: "char \<Rightarrow> bool" where
  "is_digit c \<longleftrightarrow> 48 \<le> (of_char c :: nat) \<and> (of_char c :: nat) \<le> 57"

definition digit_value :: "char \<Rightarrow> int" where
  "digit_value c = int (of_char c) - 48"

fun fixed :: "nat \<Rightarrow> int \<Rightarrow> string" where
  "fixed 0 n = []"
| "fixed (Suc k) n = fixed k (n div 10) @ [digit (n mod 10)]"

definition number :: "string \<Rightarrow> int" where
  "number s = foldl (\<lambda>a c. 10 * a + digit_value c) 0 s"

lemma digit_props [simp]: "0 \<le> d \<Longrightarrow> d < 10 \<Longrightarrow> is_digit (digit d) \<and> digit_value (digit d) = d"
  by (auto simp: is_digit_def digit_def digit_value_def)

lemma length_fixed [simp]: "length (fixed k n) = k"
  by (induction k arbitrary: n) auto

lemma fixed_digits: "list_all is_digit (fixed k n)"
  by (induction k arbitrary: n) auto

lemma number_snoc [simp]: "number (s @ [c]) = 10 * number s + digit_value c" "number [] = 0"
  by (simp_all add: number_def)

lemma number_fixed: "0 \<le> n \<Longrightarrow> n < 10 ^ k \<Longrightarrow> number (fixed k n) = n"
proof (induction k arbitrary: n)
  case (Suc k)
  have "n div 10 < 10 ^ k" using Suc.prems by (simp add: div_less_iff_less_mult mult.commute)
  with Suc show ?case by simp
qed simp

definition read_num :: "nat \<Rightarrow> string \<Rightarrow> (int \<times> string) option" where
  "read_num k s =
     (if length (take k s) = k \<and> list_all is_digit (take k s) then Some (number (take k s), drop k s) else None)"

lemma read_num_fixed [simp]: "0 \<le> n \<Longrightarrow> n < 10 ^ k \<Longrightarrow> read_num k (fixed k n @ r) = Some (n, r)"
  by (simp add: read_num_def fixed_digits number_fixed)

fun dec :: "nat \<Rightarrow> string" where
  "dec n = (if n < 10 then [digit (int n)] else dec (n div 10) @ [digit (int (n mod 10))])"

declare dec.simps [simp del]

text \<open>Go's \<open>appendInt\<close>: a sign and at least \<open>w\<close> digits.\<close>

definition append_int :: "int \<Rightarrow> nat \<Rightarrow> string" where
  "append_int x w =
     (let s = dec (nat \<bar>x\<bar>)
      in (if x < 0 then ''-'' else []) @ replicate (w - length s) (CHR ''0'') @ s)"

lemma fixed_0: "fixed k 0 = replicate k (CHR ''0'')"
proof (induction k)
  case (Suc k)
  have "digit 0 = CHR ''0''" by code_simp
  with Suc show ?case by (simp add: replicate_append_same)
qed simp

lemma dec_fixed: "n < 10 ^ w \<Longrightarrow> 0 < w \<Longrightarrow> length (dec n) \<le> w \<and> replicate (w - length (dec n)) (CHR ''0'') @ dec n = fixed w (int n)"
proof (induction w arbitrary: n)
  case (Suc w)
  show ?case
  proof (cases "n < 10")
    case True
    then show ?thesis by (simp add: dec.simps [of n] fixed_0)
  next
    case False
    with Suc.prems have "n div 10 < 10 ^ w" by (simp add: div_less_iff_less_mult mult.commute)
    moreover have "0 < w" using Suc.prems(1) False by (cases w) auto
    ultimately have "length (dec (n div 10)) \<le> w"
      "replicate (w - length (dec (n div 10))) (CHR ''0'') @ dec (n div 10) = fixed w (int (n div 10))"
      using Suc.IH by auto
    with False show ?thesis by (simp add: dec.simps [of n] zdiv_int zmod_int flip: append_assoc)
  qed
qed simp

lemma append_int_fixed: "0 \<le> x \<Longrightarrow> x < 10 ^ w \<Longrightarrow> 0 < w \<Longrightarrow> append_int x w = fixed w x"
proof -
  assume x: "0 \<le> x" "x < 10 ^ w" "0 < w"
  then have "nat x < 10 ^ w" by (simp add: nat_less_iff)
  from dec_fixed [OF this x(3)] x show ?thesis by (simp add: append_int_def Let_def)
qed

subsection \<open>Format\<close>

definition trim_zeros :: "string \<Rightarrow> string" where
  "trim_zeros s = rev (dropWhile (\<lambda>c. c = CHR ''0'') (rev s))"

definition format_fraction :: "int \<Rightarrow> string" where
  "format_fraction nanos = (if nanos = 0 then [] else ''.'' @ trim_zeros (fixed 9 nanos))"

definition format_zone :: "int \<Rightarrow> string" where
  "format_zone off =
     (if off = 0 then ''Z''
      else let zone = \<bar>off\<bar> div 60
           in (if off < 0 \<and> zone \<noteq> 0 then ''-'' else ''+'') @ append_int (zone div 60) 2 @ '':'' @ append_int (zone mod 60) 2)"

definition FormatRFC3339Nano :: "gotime \<Rightarrow> string" where
  "FormatRFC3339Nano t =
     (let secs = tm_ns t div 1000000000 + tm_off t; nanos = tm_ns t mod 1000000000;
          sod = secs mod 86400
      in case civil_of_days (secs div 86400) of (y, m, d) \<Rightarrow>
           append_int y 4 @ ''-'' @ append_int m 2 @ ''-'' @ append_int d 2 @ ''T'' @
           append_int (sod div 3600) 2 @ '':'' @ append_int (sod div 60 mod 60) 2 @ '':'' @ append_int (sod mod 60) 2 @
           format_fraction nanos @ format_zone (tm_off t))"

subsection \<open>Parse\<close>

definition read_char :: "char \<Rightarrow> string \<Rightarrow> string option" where
  "read_char c s = (case s of [] \<Rightarrow> None | x # r \<Rightarrow> if x = c then Some r else None)"

definition read_fraction :: "string \<Rightarrow> (int \<times> string) option" where
  "read_fraction s =
     (case s of
        [] \<Rightarrow> Some (0, s)
      | c # r \<Rightarrow>
          if c = CHR ''.'' \<or> c = CHR '','' then
            let ds = takeWhile is_digit r
            in if ds = [] then None
               else Some (number (take 9 (ds @ replicate 9 (CHR ''0''))), dropWhile is_digit r)
          else Some (0, s))"

text \<open>An hour may have one digit.\<close>

definition read_hour :: "string \<Rightarrow> (int \<times> string) option" where
  "read_hour s = (case read_num 2 s of None \<Rightarrow> read_num 1 s | Some x \<Rightarrow> Some x)"

definition read_zone :: "string \<Rightarrow> int option" where
  "read_zone s =
     (if s = ''Z'' then Some 0
      else (case s of
        [] \<Rightarrow> None
      | sign # r \<Rightarrow>
          do { (hh, r) \<leftarrow> read_num 2 r; r \<leftarrow> read_char (CHR '':'') r; (mm, r) \<leftarrow> read_num 2 r;
               if r = [] \<and> hh \<le> 24 \<and> mm \<le> 60 then
                 if sign = CHR ''+'' then Some ((hh * 60 + mm) * 60)
                 else if sign = CHR ''-'' then Some (- ((hh * 60 + mm) * 60)) else None
               else None }))"

definition ParseRFC3339 :: "string \<Rightarrow> gotime option" where
  "ParseRFC3339 s =
     do { (y, s) \<leftarrow> read_num 4 s; s \<leftarrow> read_char (CHR ''-'') s;
          (m, s) \<leftarrow> read_num 2 s; s \<leftarrow> read_char (CHR ''-'') s;
          (d, s) \<leftarrow> read_num 2 s; s \<leftarrow> read_char (CHR ''T'') s;
          (hh, s) \<leftarrow> read_hour s; s \<leftarrow> read_char (CHR '':'') s;
          (mi, s) \<leftarrow> read_num 2 s; s \<leftarrow> read_char (CHR '':'') s;
          (ss, s) \<leftarrow> read_num 2 s; (nanos, s) \<leftarrow> read_fraction s; off \<leftarrow> read_zone s;
          if 1 \<le> m \<and> m \<le> 12 \<and> 1 \<le> d \<and> d \<le> days_in y m \<and> hh \<le> 23 \<and> mi \<le> 59 \<and> ss \<le> 59
          then Some \<lparr>tm_ns = (days_of_civil y m d * 86400 + hh * 3600 + mi * 60 + ss - off) * 1000000000 + nanos,
                     tm_off = off\<rparr>
          else None }"

subsection \<open>Reading back\<close>

text \<open>The times whose text is read back: a four-digit year, and a zone of whole minutes below 25 hours.\<close>

definition four_digit_year :: "gotime \<Rightarrow> bool" where
  "four_digit_year t \<longleftrightarrow>
     0 \<le> fst (civil_of_days ((tm_ns t div 1000000000 + tm_off t) div 86400)) \<and>
     fst (civil_of_days ((tm_ns t div 1000000000 + tm_off t) div 86400)) \<le> 9999"

definition formattable :: "gotime \<Rightarrow> bool" where
  "formattable t \<longleftrightarrow> four_digit_year t \<and> tm_off t mod 60 = 0 \<and> \<bar>tm_off t\<bar> < 90000"

lemma read_char_Cons [simp]: "read_char c (c # r) = Some r"
  by (simp add: read_char_def)

lemma trim_zeros_pad:
  "length s = k \<Longrightarrow> trim_zeros s @ replicate (k - length (trim_zeros s)) (CHR ''0'') = s"
proof -
  assume k: "length s = k"
  let ?z = "takeWhile (\<lambda>c. c = CHR ''0'') (rev s)"
  have "rev s = ?z @ dropWhile (\<lambda>c. c = CHR ''0'') (rev s)" by simp
  then have s: "s = trim_zeros s @ rev ?z" by (metis rev_append rev_rev_ident trim_zeros_def)
  have "\<forall>x\<in>set ?z. x = CHR ''0''" by (auto dest: set_takeWhileD)
  then have "?z = replicate (length ?z) (CHR ''0'')" by (intro replicate_length_same [symmetric])
  then have "rev ?z = replicate (length ?z) (CHR ''0'')" by (metis rev_replicate)
  moreover have "length ?z = k - length (trim_zeros s)"
    using arg_cong [OF s, of length] k by simp
  ultimately show ?thesis using s by (simp only:)
qed

lemma trim_zeros_digits: "list_all is_digit s \<Longrightarrow> list_all is_digit (trim_zeros s)"
  by (auto simp: trim_zeros_def list_all_iff dest: set_dropWhileD)

lemma read_fraction_format:
  assumes "0 \<le> nanos" "nanos < 1000000000" "r \<noteq> []" "\<not> is_digit (hd r)" "hd r \<noteq> CHR ''.''" "hd r \<noteq> CHR '',''"
  shows "read_fraction (format_fraction nanos @ r) = Some (nanos, r)"
proof (cases "nanos = 0")
  case True
  with assms show ?thesis by (cases r) (auto simp: read_fraction_def format_fraction_def)
next
  case False
  let ?d = "trim_zeros (fixed 9 nanos)"
  have dig: "list_all is_digit ?d" by (simp add: trim_zeros_digits fixed_digits)
  have pad: "?d @ replicate (9 - length ?d) (CHR ''0'') = fixed 9 nanos" by (rule trim_zeros_pad) simp
  have "?d \<noteq> []"
  proof
    assume "?d = []"
    with pad have "fixed 9 nanos = fixed 9 0" by (simp add: fixed_0 del: fixed.simps)
    then have "number (fixed 9 nanos) = number (fixed 9 0)" by simp
    with False assms show False by (simp add: number_fixed del: fixed.simps)
  qed
  moreover have "takeWhile is_digit (?d @ r) = ?d" "dropWhile is_digit (?d @ r) = r"
    using dig assms by (cases r; simp add: takeWhile_append2 dropWhile_append2 list_all_iff)+
  moreover have "length ?d \<le> 9" using arg_cong [OF pad, of length] by simp
  then have "take 9 (?d @ replicate 9 (CHR ''0'')) = fixed 9 nanos"
    using pad by (simp add: min_def)
  ultimately show ?thesis
    using False assms by (simp add: read_fraction_def format_fraction_def Let_def number_fixed del: fixed.simps)
qed

lemma read_zone_format:
  assumes "off mod 60 = 0" "\<bar>off\<bar> < 90000"
  shows "read_zone (format_zone off) = Some off"
proof (cases "off = 0")
  case False
  define z where "z = \<bar>off\<bar> div 60"
  have "\<bar>off\<bar> mod 60 = 0" using assms(1) by (cases "off < 0") auto
  then have a: "\<bar>off\<bar> = z * 60" using div_mult_mod_eq [of "\<bar>off\<bar>" 60] by (simp add: z_def)
  have z: "0 \<le> z" "z < 1500" "z \<noteq> 0" using a assms(2) False by auto
  have hm: "0 \<le> z div 60" "z div 60 < 25" "0 \<le> z mod 60" "z mod 60 < 60" using z by auto
  have sum: "z div 60 * 60 + z mod 60 = z" by simp
  have disp: "append_int (z div 60) 2 = fixed 2 (z div 60)" "append_int (z mod 60) 2 = fixed 2 (z mod 60)"
    using hm by (simp_all add: append_int_fixed del: fixed.simps)
  have rd: "read_num 2 (fixed 2 (z div 60) @ r) = Some (z div 60, r)"
    "read_num 2 (fixed 2 (z mod 60) @ r) = Some (z mod 60, r)" for r
    using hm by (simp_all del: fixed.simps)
  have last: "read_num 2 (fixed 2 (z mod 60)) = Some (z mod 60, [])" using rd(2) [of "[]"] by simp
  show ?thesis
  proof (cases "off < 0")
    case True
    then have "format_zone off = CHR ''-'' # fixed 2 (z div 60) @ CHR '':'' # fixed 2 (z mod 60)"
      unfolding format_zone_def Let_def z_def [symmetric] disp using z False by simp
    moreover have "off = - (z * 60)" using a True by simp
    ultimately show ?thesis using hm sum by (simp add: read_zone_def rd last del: fixed.simps)
  next
    case nonneg: False
    then have "format_zone off = CHR ''+'' # fixed 2 (z div 60) @ CHR '':'' # fixed 2 (z mod 60)"
      unfolding format_zone_def Let_def z_def [symmetric] disp using False by simp
    moreover have "off = z * 60" using a nonneg by simp
    ultimately show ?thesis using hm sum by (simp add: read_zone_def rd last del: fixed.simps)
  qed
qed (simp add: read_zone_def format_zone_def)

lemma format_zone_head: "format_zone off \<noteq> []" "\<not> is_digit (hd (format_zone off))" "hd (format_zone off) \<noteq> CHR ''.''" "hd (format_zone off) \<noteq> CHR '',''"
  by (auto simp: format_zone_def Let_def is_digit_def)

text \<open>The text of a time is read back up to what is read from its zone.\<close>

lemma ParseRFC3339_Format_zone:
  assumes "four_digit_year t"
  shows "ParseRFC3339 (FormatRFC3339Nano t) =
    map_option (\<lambda>off. \<lparr>tm_ns = tm_ns t + (tm_off t - off) * 1000000000, tm_off = off\<rparr>) (read_zone (format_zone (tm_off t)))"
proof -
  define secs where "secs = tm_ns t div 1000000000 + tm_off t"
  define sod where "sod = secs mod 86400"
  obtain y m d where c: "civil_of_days (secs div 86400) = (y, m, d)" by (cases "civil_of_days (secs div 86400)")
  note civ = civil_of_days_correct [OF c]
  have y: "0 \<le> y" "y \<le> 9999"
    using assms c by (auto simp: four_digit_year_def secs_def)
  have s: "0 \<le> sod" "sod < 86400" by (simp_all add: sod_def)
  have "sod div 3600 = sod div 60 div 60" by (simp add: zdiv_zmult2_eq [symmetric])
  moreover have "sod div 60 div 60 * 60 + sod div 60 mod 60 = sod div 60" "sod div 60 * 60 + sod mod 60 = sod" by simp_all
  ultimately have "sod div 3600 * 3600 + sod div 60 mod 60 * 60 + sod mod 60 = sod" by linarith
  moreover have "0 \<le> sod div 3600" using s(1) by (simp add: pos_imp_zdiv_nonneg_iff)
  moreover have "sod div 3600 < 24" using s(2) by (simp add: div_less_iff_less_mult)
  ultimately have t: "0 \<le> sod div 3600" "sod div 3600 < 24" "sod div 3600 * 3600 + sod div 60 mod 60 * 60 + sod mod 60 = sod"
    by blast+
  have ns: "(secs div 86400 * 86400 + sod - tm_off t) * 1000000000 + tm_ns t mod 1000000000 = tm_ns t"
  proof -
    have "secs div 86400 * 86400 + sod = secs" by (simp add: sod_def)
    then have "secs div 86400 * 86400 + sod - tm_off t = tm_ns t div 1000000000" by (simp add: secs_def)
    then show ?thesis by (simp only: div_mult_mod_eq)
  qed
  have dd: "sod div 60 mod 60 \<ge> 0" "sod div 60 mod 60 < 60" "sod mod 60 \<ge> 0" "sod mod 60 < 60" by simp_all
  have disp: "FormatRFC3339Nano t =
      fixed 4 y @ CHR ''-'' # fixed 2 m @ CHR ''-'' # fixed 2 d @ CHR ''T'' # fixed 2 (sod div 3600) @ CHR '':'' #
      fixed 2 (sod div 60 mod 60) @ CHR '':'' # fixed 2 (sod mod 60) @
      format_fraction (tm_ns t mod 1000000000) @ format_zone (tm_off t)"
    unfolding FormatRFC3339Nano_def Let_def secs_def [symmetric] sod_def [symmetric] c prod.case
    using civ y t(1,2) dd by (simp add: append_int_fixed del: fixed.simps)
  have rd: "read_num 4 (fixed 4 y @ r) = Some (y, r)" "read_num 2 (fixed 2 m @ r) = Some (m, r)"
    "read_num 2 (fixed 2 d @ r) = Some (d, r)" "read_hour (fixed 2 (sod div 3600) @ r) = Some (sod div 3600, r)"
    "read_num 2 (fixed 2 (sod div 60 mod 60) @ r) = Some (sod div 60 mod 60, r)"
    "read_num 2 (fixed 2 (sod mod 60) @ r) = Some (sod mod 60, r)" for r
    using civ y t(1,2) dd by (simp_all add: read_hour_def del: fixed.simps)
  have fr: "read_fraction (format_fraction (tm_ns t mod 1000000000) @ format_zone (tm_off t)) =
      Some (tm_ns t mod 1000000000, format_zone (tm_off t))"
    by (rule read_fraction_format) (simp_all add: format_zone_head)
  have ok: "1 \<le> m \<and> m \<le> 12 \<and> 1 \<le> d \<and> d \<le> days_in y m \<and> sod div 3600 \<le> 23 \<and> sod div 60 mod 60 \<le> 59 \<and> sod mod 60 \<le> 59"
    using civ t(2) dd(2,4) by (intro conjI) linarith+
  have "days_of_civil y m d * 86400 + sod div 3600 * 3600 + sod div 60 mod 60 * 60 + sod mod 60 = secs div 86400 * 86400 + sod"
    using civ t(3) by simp
  with ns have "(days_of_civil y m d * 86400 + sod div 3600 * 3600 + sod div 60 mod 60 * 60 + sod mod 60 - tm_off t) * 1000000000 +
      tm_ns t mod 1000000000 = tm_ns t"
    by (simp only:)
  then have "(days_of_civil y m d * 86400 + sod div 3600 * 3600 + sod div 60 mod 60 * 60 + sod mod 60 - off) * 1000000000 +
      tm_ns t mod 1000000000 = tm_ns t + (tm_off t - off) * 1000000000" for off
    by (simp add: algebra_simps)
  with ok show ?thesis
    unfolding disp ParseRFC3339_def
    by (simp only: rd fr read_char_Cons bind.bind_lunit prod.case if_True) (cases "read_zone (format_zone (tm_off t))"; simp)
qed

lemma ParseRFC3339_Format: "formattable t \<Longrightarrow> ParseRFC3339 (FormatRFC3339Nano t) = Some t"
  by (simp add: formattable_def ParseRFC3339_Format_zone read_zone_format)

text \<open>An offset of 25 hours, which can only be written as 24:60, is printed as 25:00 and not read back.\<close>

lemma ParseRFC3339_Format_25h:
  assumes "four_digit_year t" "\<bar>tm_off t\<bar> = 90000"
  shows "ParseRFC3339 (FormatRFC3339Nano t) = None"
proof -
  have "read_zone (format_zone 90000) = None" "read_zone (format_zone (- 90000)) = None" by code_simp+
  moreover have "tm_off t = 90000 \<or> tm_off t = - 90000" using assms(2) by linarith
  ultimately show ?thesis using ParseRFC3339_Format_zone [OF assms(1)] by auto
qed

end
