(* ===== verification/Go_Strconv.thy ===== *)
theory Go_Strconv
  imports Go_Calendar
begin

section \<open>Integers and booleans as text (package strconv)\<close>

text \<open>
  \<open>Itoa\<close>, \<open>Atoi\<close> and \<open>ParseBool\<close>. \<open>Atoi\<close> takes an optional sign and decimal digits, and fails on
  anything else and on values outside 64 bits. The last part ties them to \<open>TrimSpace\<close> and
  \<open>Split\<close>, with which the program reads lists of numbers.
\<close>

definition Itoa :: "int \<Rightarrow> string" where
  "Itoa n = (if n < 0 then CHR ''-'' # dec (nat (- n)) else dec (nat n))"

definition Atoi :: "string \<Rightarrow> int option" where
  "Atoi s =
     (let neg = (s \<noteq> [] \<and> hd s = CHR ''-'');
          ds = (if s \<noteq> [] \<and> (hd s = CHR ''-'' \<or> hd s = CHR ''+'') then tl s else s);
          n = (if neg then - number ds else number ds)
      in if ds = [] \<or> \<not> list_all is_digit ds \<or> \<not> fits64 n then None else Some n)"

definition ParseBool :: "string \<Rightarrow> bool option" where
  "ParseBool s =
     (if s \<in> set [''1'', ''t'', ''T'', ''TRUE'', ''true'', ''True''] then Some True
      else if s \<in> set [''0'', ''f'', ''F'', ''FALSE'', ''false'', ''False''] then Some False
      else None)"

lemma dec_digits: "dec n \<noteq> [] \<and> list_all is_digit (dec n) \<and> number (dec n) = int n"
proof (induction n rule: dec.induct)
  case (1 n)
  show ?case
  proof (cases "n < 10")
    case True
    then show ?thesis by (subst (1 2 3) dec.simps) (simp add: number_def)
  next
    case False
    with 1 have "list_all is_digit (dec (n div 10))" "number (dec (n div 10)) = int (n div 10)" by auto
    with False show ?thesis by (subst (1 2 3) dec.simps) (simp add: zdiv_int zmod_int)
  qed
qed

lemma not_digit [simp]: "\<not> is_digit (CHR ''-'')" "\<not> is_digit (CHR ''+'')" "\<not> is_digit (CHR '','')"
  by (simp_all add: is_digit_def)

lemma Atoi_Itoa: "fits64 n \<Longrightarrow> Atoi (Itoa n) = Some n"
proof -
  assume "fits64 n"
  have d: "dec k \<noteq> []" "list_all is_digit (dec k)" "number (dec k) = int k" for k using dec_digits [of k] by simp_all
  have h: "hd (dec k) \<noteq> CHR ''-''" "hd (dec k) \<noteq> CHR ''+''" for k
    using d(1,2) [of k] by (cases "dec k"; auto)+
  show ?thesis using \<open>fits64 n\<close> d h by (simp add: Atoi_def Itoa_def Let_def)
qed

lemma Itoa_chars: "c \<in> set (Itoa n) \<Longrightarrow> is_digit c \<or> c = CHR ''-''"
  using dec_digits [of "nat n"] dec_digits [of "nat (- n)"] by (auto simp: Itoa_def list_all_iff split: if_splits)

lemma Itoa_nonempty [simp]: "Itoa n \<noteq> []"
  using dec_digits [of "nat n"] by (simp add: Itoa_def)

lemma Itoa_no_comma: "CHR '','' \<notin> set (Itoa n)"
  using Itoa_chars [of "CHR '',''" n] by auto

text \<open>Text without any byte that occurs in a space is trimmed.\<close>

lemma trimmed_disjoint:
  assumes "\<And>c. c \<in> set s \<Longrightarrow> c \<notin> set (concat go_spaces)"
  shows "trimmed s"
proof -
  have "\<not> prefix sp s \<and> \<not> prefix (rev sp) (rev s)" if "sp \<in> set go_spaces" "sp \<noteq> []" for sp
  proof -
    have "hd sp \<in> set sp" using that(2) by simp
    moreover have "hd sp \<notin> set s" using calculation that(1) assms [of "hd sp"] by auto
    ultimately show ?thesis using set_mono_prefix [of sp s] set_mono_prefix [of "rev sp" "rev s"] by auto
  qed
  then show ?thesis by (auto simp: trimmed_def leading_None_iff)
qed

lemma go_spaces_codes: "c \<in> set (concat go_spaces) \<Longrightarrow> (of_char c :: nat) \<le> 32 \<or> 128 \<le> (of_char c :: nat)"
proof -
  have "list_all (\<lambda>c. (of_char c :: nat) \<le> 32 \<or> 128 \<le> (of_char c :: nat)) (concat go_spaces)" by code_simp
  then show "c \<in> set (concat go_spaces) \<Longrightarrow> ?thesis" by (simp only: list_all_iff)
qed

lemma trimmed_Itoa [simp]: "trimmed (Itoa n)"
proof (rule trimmed_disjoint)
  fix c assume "c \<in> set (Itoa n)"
  then have "32 < (of_char c :: nat) \<and> (of_char c :: nat) < 128" using Itoa_chars [of c n] by (auto simp: is_digit_def)
  then show "c \<notin> set (concat go_spaces)" using go_spaces_codes [of c] by auto
qed

end
