(* ===== verification/Go_Float.thy ===== *)
theory Go_Float
  imports Prelude "HOL-Library.Log_Nat"
begin

section \<open>Go's float64\<close>

text \<open>
  The availability ratio is the one number of the program that is a \<open>float64\<close>. A finite float
  is its value, a rational; an operation is the exact one followed by rounding to 53 significant
  bits, to the nearest, ties to even. The program converts 64-bit integers and divides them, so
  magnitudes stay between \<open>2 powi (-64)\<close> and \<open>2 powi 64\<close>: there is neither overflow nor a
  subnormal number, and the exponent needs no bound. The sign of a zero is not represented.
\<close>

text \<open>The binary exponent of a positive rational.\<close>

definition ilog2 :: "rat \<Rightarrow> int" where
  "ilog2 x = (case quotient_of x of (p, q) \<Rightarrow>
     let k = bitlen p - bitlen q in if 2 powi k \<le> x then k else k - 1)"

definition round_even :: "rat \<Rightarrow> int" where
  "round_even x =
     (let f = floor x; d = x - of_int f
      in if d < 1 / 2 then f else if d > 1 / 2 then f + 1 else if even f then f else f + 1)"

definition round_pos :: "rat \<Rightarrow> rat" where
  "round_pos x = (let e = ilog2 x - 52 in of_int (round_even (x * 2 powi (- e))) * 2 powi e)"

definition float_round :: "rat \<Rightarrow> rat" where
  "float_round x = (if x = 0 then 0 else if x < 0 then - round_pos (- x) else round_pos x)"

type_synonym float64 = rat

definition float64_of_int :: "int \<Rightarrow> float64" where
  "float64_of_int n = float_round (of_int n)"

definition float64_div :: "float64 \<Rightarrow> float64 \<Rightarrow> float64" where
  "float64_div x y = float_round (x / y)"

subsection \<open>Powers of two\<close>

lemma powi_pos [simp]: "0 < (2 :: rat) powi e"
  by (rule zero_less_power_int) simp

lemma powi_mono: "a \<le> b \<Longrightarrow> (2 :: rat) powi a \<le> 2 powi b"
  by (rule power_int_increasing) simp_all

lemma powi_Suc: "(2 :: rat) powi (e + 1) = 2 * 2 powi e"
  by (simp add: power_int_add)

lemma bitlen_powi:
  assumes "0 < p"
  shows "2 powi (bitlen p - 1) \<le> (of_int p :: rat)" "(of_int p :: rat) < 2 powi bitlen p"
proof -
  have ge1: "1 \<le> bitlen p" using assms bitlen_nonneg [of p] bitlen_eq_zero_iff [of p] by linarith
  have b: "2 ^ nat (bitlen p - 1) \<le> p" "p < 2 ^ nat (bitlen p)" using bitlen_bounds [OF assms] by auto
  have "(2 :: rat) powi (bitlen p - 1) = of_int (2 ^ nat (bitlen p - 1))" using ge1 by (simp add: power_int_def)
  also have "\<dots> \<le> of_int p" using b(1) by (simp only: of_int_le_iff)
  finally show "2 powi (bitlen p - 1) \<le> (of_int p :: rat)" .
  have "of_int p < (of_int (2 ^ nat (bitlen p)) :: rat)" using b(2) by (simp only: of_int_less_iff)
  also have "\<dots> = 2 powi bitlen p" using ge1 by (simp add: power_int_def)
  finally show "(of_int p :: rat) < 2 powi bitlen p" .
qed

lemma ilog2_bounds:
  assumes "0 < x"
  shows "2 powi (ilog2 x) \<le> x" "x < 2 powi (ilog2 x + 1)"
proof -
  obtain p q where pq: "quotient_of x = (p, q)" by (cases "quotient_of x")
  have q: "0 < q" using quotient_of_denom_pos [OF pq] .
  have x: "x = of_int p / of_int q" using quotient_of_div [OF pq] .
  have p: "0 < p" using assms q unfolding x by (simp add: zero_less_divide_iff)
  let ?k = "bitlen p - bitlen q"
  have "x < 2 powi bitlen p / 2 powi (bitlen q - 1)"
    unfolding x using bitlen_powi [OF p] bitlen_powi [OF q] p by (intro frac_less) simp_all
  also have "\<dots> = 2 powi (?k + 1)" by (simp add: power_int_diff [symmetric] algebra_simps)
  finally have up: "x < 2 powi (?k + 1)" .
  have "2 powi (bitlen p - 1) / 2 powi bitlen q \<le> x"
    unfolding x using bitlen_powi [OF p] bitlen_powi [OF q] p q by (intro frac_le) simp_all
  then have lo: "2 powi (?k - 1) \<le> x" by (simp add: power_int_diff [symmetric] algebra_simps)
  show "2 powi (ilog2 x) \<le> x" using lo by (simp add: ilog2_def pq Let_def)
  show "x < 2 powi (ilog2 x + 1)" using up by (auto simp: ilog2_def pq Let_def)
qed

lemma ilog2_mono:
  assumes "0 < x" "x \<le> y"
  shows "ilog2 x \<le> ilog2 y"
proof (rule ccontr)
  assume "\<not> ilog2 x \<le> ilog2 y"
  then have "(2 :: rat) powi (ilog2 y + 1) \<le> 2 powi ilog2 x" by (intro powi_mono) simp
  with ilog2_bounds(1) [OF assms(1)] ilog2_bounds(2) [of y] assms show False by linarith
qed

subsection \<open>Rounding to an integer\<close>

lemma round_even_err: "\<bar>of_int (round_even x) - x\<bar> \<le> 1 / 2"
proof -
  define d where "d = x - of_int (floor x)"
  have d: "0 \<le> d" "d < 1" using floor_correct [of x] by (simp_all add: d_def)
  have "of_int (round_even x) - x = (if d < 1 / 2 then - d else if d > 1 / 2 then 1 - d else if even (floor x) then - d else 1 - d)"
    by (simp add: round_even_def Let_def d_def)
  then show ?thesis using d by simp
qed

lemma round_even_mono:
  assumes "x \<le> y"
  shows "round_even x \<le> round_even y"
proof (cases "floor x = floor y")
  case True
  with assms show ?thesis by (simp add: round_even_def Let_def)
next
  case False
  then have "floor x + 1 \<le> floor y" using floor_mono [OF assms] by linarith
  moreover have "round_even x \<le> floor x + 1" "floor y \<le> round_even y" by (auto simp: round_even_def Let_def)
  ultimately show ?thesis by linarith
qed

lemma round_even_int [simp]: "round_even (of_int n) = n"
  by (simp add: round_even_def)

subsection \<open>Rounding to 53 bits\<close>

lemma round_even_bounds:
  assumes "of_int a \<le> x" "x \<le> of_int b"
  shows "a \<le> round_even x" "round_even x \<le> b"
  using round_even_mono [OF assms(1)] round_even_mono [OF assms(2)] by simp_all

lemma round_pos_bounds:
  assumes "0 < x"
  shows "2 powi (ilog2 x) \<le> round_pos x" "round_pos x \<le> 2 powi (ilog2 x + 1)"
proof -
  let ?e = "ilog2 x - 52" and ?m = "x * 2 powi (- (ilog2 x - 52))"
  have shift: "2 powi a * 2 powi (- ?e) = (2 :: rat) powi (a - ?e)" for a by (simp add: power_int_add [symmetric] algebra_simps)
  have "2 powi (ilog2 x) * 2 powi (- ?e) \<le> ?m" using ilog2_bounds(1) [OF assms] by simp
  then have lo: "of_int (2 ^ 52) \<le> ?m" unfolding shift by simp
  have "?m \<le> 2 powi (ilog2 x + 1) * 2 powi (- ?e)" using ilog2_bounds(2) [OF assms] by simp
  then have hi: "?m \<le> of_int (2 ^ 53)" unfolding shift by simp
  have r: "round_pos x = of_int (round_even ?m) * 2 powi ?e" by (simp add: round_pos_def Let_def)
  have eqs: "2 powi (ilog2 x) = (of_int (2 ^ 52) :: rat) * 2 powi ?e" "2 powi (ilog2 x + 1) = (of_int (2 ^ 53) :: rat) * 2 powi ?e"
    by (simp_all add: power_int_diff power_int_add)
  show "2 powi (ilog2 x) \<le> round_pos x" unfolding r eqs
    using round_even_bounds(1) [OF lo hi] by (intro mult_right_mono) (simp_all only: of_int_le_iff powi_pos less_imp_le)
  show "round_pos x \<le> 2 powi (ilog2 x + 1)" unfolding r eqs
    using round_even_bounds(2) [OF lo hi] by (intro mult_right_mono) (simp_all only: of_int_le_iff powi_pos less_imp_le)
qed

lemma round_pos_pos: "0 < x \<Longrightarrow> 0 < round_pos x"
  using round_pos_bounds(1) [of x] powi_pos [of "ilog2 x"] by linarith

lemma round_pos_mono:
  assumes "0 < x" "x \<le> y"
  shows "round_pos x \<le> round_pos y"
proof (cases "ilog2 x = ilog2 y")
  case True
  have "x * 2 powi (- (ilog2 y - 52)) \<le> y * 2 powi (- (ilog2 y - 52))" using assms(2) by simp
  from round_even_mono [OF this] show ?thesis by (simp add: round_pos_def Let_def True)
next
  case False
  then have "ilog2 x + 1 \<le> ilog2 y" using ilog2_mono [OF assms] by linarith
  then have "(2 :: rat) powi (ilog2 x + 1) \<le> 2 powi ilog2 y" by (rule powi_mono)
  with round_pos_bounds(2) [OF assms(1)] round_pos_bounds(1) [of y] assms show ?thesis by linarith
qed

text \<open>The relative error of a rounding is at most \<open>2 powi (-53)\<close>.\<close>

lemma round_pos_err:
  assumes "0 < x"
  shows "\<bar>round_pos x - x\<bar> \<le> x / 2 ^ 53"
proof -
  let ?e = "ilog2 x - 52" and ?m = "x * 2 powi (- (ilog2 x - 52))"
  have "(2 :: rat) powi (- ?e) * 2 powi ?e = 1" by (simp add: power_int_add [symmetric])
  then have "round_pos x - x = (of_int (round_even ?m) - ?m) * 2 powi ?e"
    by (simp add: round_pos_def Let_def algebra_simps)
  then have "\<bar>round_pos x - x\<bar> = \<bar>of_int (round_even ?m) - ?m\<bar> * 2 powi ?e" by (simp add: abs_mult)
  also have "\<dots> \<le> 1 / 2 * 2 powi ?e" by (rule mult_right_mono [OF round_even_err]) (simp add: less_imp_le)
  also have "\<dots> = 2 powi (ilog2 x) / 2 ^ 53" by (simp add: power_int_diff)
  also have "\<dots> \<le> x / 2 ^ 53" using ilog2_bounds(1) [OF assms] by simp
  finally show ?thesis .
qed

subsection \<open>Rounding\<close>

lemma float_round_0 [simp]: "float_round 0 = 0"
  by (simp add: float_round_def)

lemma float_round_pos: "0 < x \<Longrightarrow> float_round x = round_pos x"
  by (simp add: float_round_def)

lemma float_round_nonneg: "0 \<le> x \<Longrightarrow> 0 \<le> float_round x"
  using round_pos_pos [of x] by (auto simp: float_round_def)

lemma float_round_mono: "0 \<le> x \<Longrightarrow> x \<le> y \<Longrightarrow> float_round x \<le> float_round y"
  using round_pos_mono [of x y] round_pos_pos [of y] by (auto simp: float_round_def)

lemma float_round_err: "0 \<le> x \<Longrightarrow> \<bar>float_round x - x\<bar> \<le> x / 2 ^ 53"
  using round_pos_err [of x] by (auto simp: float_round_def)

definition ulp :: rat where
  "ulp = 1 / 2 ^ 53"

lemma float_round_between:
  assumes "0 \<le> x"
  shows "(1 - ulp) * x \<le> float_round x" "float_round x \<le> (1 + ulp) * x"
proof -
  have "float_round x - x \<le> ulp * x" "x - float_round x \<le> ulp * x"
    using float_round_err [OF assms] unfolding abs_le_iff by (simp_all add: ulp_def)
  then show "(1 - ulp) * x \<le> float_round x" "float_round x \<le> (1 + ulp) * x"
    by (simp_all add: left_diff_distrib distrib_right)
qed

lemma float_round_1 [simp]: "float_round 1 = 1"
  by code_simp

lemma float64_of_int_mono: "0 \<le> m \<Longrightarrow> m \<le> n \<Longrightarrow> float64_of_int m \<le> float64_of_int n"
  by (simp add: float64_of_int_def float_round_mono)

lemma float64_of_int_pos: "0 < n \<Longrightarrow> 0 < float64_of_int n"
  by (simp add: float64_of_int_def float_round_pos round_pos_pos)

lemma float64_of_int_nonneg: "0 \<le> n \<Longrightarrow> 0 \<le> float64_of_int n"
  by (simp add: float64_of_int_def float_round_nonneg)

lemma float64_div_le_1: "0 \<le> x \<Longrightarrow> x \<le> y \<Longrightarrow> 0 < y \<Longrightarrow> float64_div x y \<le> 1"
  using float_round_mono [of "x / y" 1] by (simp add: float64_div_def)

lemma float64_div_nonneg: "0 \<le> x \<Longrightarrow> 0 < y \<Longrightarrow> 0 \<le> float64_div x y"
  by (simp add: float64_div_def float_round_nonneg)

lemma float64_div_mono: "0 \<le> x \<Longrightarrow> x \<le> y \<Longrightarrow> 0 < z \<Longrightarrow> float64_div x z \<le> float64_div y z"
  by (simp add: float64_div_def float_round_mono divide_right_mono)

lemma float64_div_self: "0 < x \<Longrightarrow> float64_div x x = 1"
  by (simp add: float64_div_def)

text \<open>Dividing two converted integers: three roundings, a relative error of at most \<open>2 powi (-51)\<close>.\<close>

lemma float64_ratio_err:
  assumes "0 \<le> m" "0 < n"
  shows "\<bar>float64_div (float64_of_int m) (float64_of_int n) - of_int m / of_int n\<bar> \<le> of_int m / of_int n / 2 ^ 51"
proof -
  let ?m = "float64_of_int m" and ?n = "float64_of_int n"
  have u: "0 < ulp" "ulp \<le> 1 / 100" by (simp_all add: ulp_def)
  have m: "(1 - ulp) * of_int m \<le> ?m" "?m \<le> (1 + ulp) * of_int m"
    using float_round_between [of "of_int m"] assms(1) by (simp_all add: float64_of_int_def)
  have n: "(1 - ulp) * of_int n \<le> ?n" "?n \<le> (1 + ulp) * of_int n"
    using float_round_between [of "of_int n"] assms(2) by (simp_all add: float64_of_int_def)
  define q :: rat where "q = of_int m / of_int n"
  have q: "0 \<le> q" "of_int m = q * of_int n" using assms by (simp_all add: q_def)
  have npos: "0 < ?n" by (rule float64_of_int_pos [OF assms(2)])
  have mn: "0 \<le> ?m / ?n" using float64_of_int_nonneg [OF assms(1)] npos by simp
  have hi: "?m / ?n \<le> q * ((1 + ulp) / (1 - ulp))"
  proof -
    have "?m / ?n \<le> ((1 + ulp) * of_int m) / ((1 - ulp) * of_int n)"
      using m n u assms by (intro frac_le) simp_all
    then show ?thesis using assms(2) by (simp add: q_def field_simps)
  qed
  have lo: "q * ((1 - ulp) / (1 + ulp)) \<le> ?m / ?n"
  proof -
    have "((1 - ulp) * of_int m) / ((1 + ulp) * of_int n) \<le> ?m / ?n"
      using m n u assms npos float64_of_int_nonneg [OF assms(1)] by (intro frac_le) simp_all
    then show ?thesis using assms(2) by (simp add: q_def field_simps)
  qed
  have r: "(1 - ulp) * (?m / ?n) \<le> float64_div ?m ?n" "float64_div ?m ?n \<le> (1 + ulp) * (?m / ?n)"
    using float_round_between [OF mn] by (simp_all add: float64_div_def)
  have c: "(1 + ulp) * ((1 + ulp) / (1 - ulp)) \<le> 1 + 4 * ulp" "1 - 4 * ulp \<le> (1 - ulp) * ((1 - ulp) / (1 + ulp))"
    by (simp_all add: ulp_def)
  have "float64_div ?m ?n \<le> (1 + ulp) * (q * ((1 + ulp) / (1 - ulp)))"
    using r(2) mult_left_mono [OF hi, of "1 + ulp"] u by simp
  also have "\<dots> = q * ((1 + ulp) * ((1 + ulp) / (1 - ulp)))" by simp
  also have "\<dots> \<le> q * (1 + 4 * ulp)" by (rule mult_left_mono [OF c(1) q(1)])
  finally have up: "float64_div ?m ?n - q \<le> q * (4 * ulp)" by (simp add: algebra_simps)
  have "q * (1 - 4 * ulp) \<le> q * ((1 - ulp) * ((1 - ulp) / (1 + ulp)))" by (rule mult_left_mono [OF c(2) q(1)])
  also have "\<dots> = (1 - ulp) * (q * ((1 - ulp) / (1 + ulp)))" by simp
  also have "\<dots> \<le> (1 - ulp) * (?m / ?n)" using u by (intro mult_left_mono [OF lo]) simp
  also have "\<dots> \<le> float64_div ?m ?n" by (rule r(1))
  finally have down: "q - float64_div ?m ?n \<le> q * (4 * ulp)" by (simp add: algebra_simps)
  have "q * (4 * ulp) = q / 2 ^ 51" by (simp add: ulp_def)
  with up down show ?thesis by (simp add: q_def abs_le_iff)
qed

end
