(* ===== verification/Go_Duration.thy ===== *)
theory Go_Duration
  imports Go_Strconv Go_Float
begin

section \<open>Durations as text (time.ParseDuration)\<close>

text \<open>
  \<open>time.ParseDuration\<close>: an optional sign, then numbers with a fraction and a unit each. The integer
  part is read with overflow checks at 63 bits, the fraction up to the digits that fit, and its
  product with the unit is computed in \<open>float64\<close>, all as in the standard library.
\<close>

definition two63 :: int where "two63 = 2 ^ 63"

fun leadingInt :: "int \<Rightarrow> string \<Rightarrow> (int \<times> string) option" where
  "leadingInt x [] = Some (x, [])"
| "leadingInt x (c # s) =
     (if \<not> is_digit c then Some (x, c # s)
      else if x > two63 div 10 then None
      else let x = x * 10 + digit_value c in if x > two63 then None else leadingInt x s)"

fun leadingFraction :: "int \<Rightarrow> int \<Rightarrow> bool \<Rightarrow> string \<Rightarrow> int \<times> int \<times> string" where
  "leadingFraction x scale overflow [] = (x, scale, [])"
| "leadingFraction x scale overflow (c # s) =
     (if \<not> is_digit c then (x, scale, c # s)
      else if overflow then leadingFraction x scale True s
      else if x > (two63 - 1) div 10 then leadingFraction x scale True s
      else let y = x * 10 + digit_value c
           in if y > two63 then leadingFraction x scale True s else leadingFraction y (scale * 10) False s)"

definition unit_of :: "string \<Rightarrow> int option" where
  "unit_of u = map_of
     [(''ns'', 1), (''us'', 1000), ([CHR 0xC2, CHR 0xB5, CHR ''s''], 1000), ([CHR 0xCE, CHR 0xBC, CHR ''s''], 1000),
      (''ms'', 1000000), (''s'', 1000000000), (''m'', 60000000000), (''h'', 3600000000000)] u"

definition unit_char :: "char \<Rightarrow> bool" where
  "unit_char c \<longleftrightarrow> c \<noteq> CHR ''.'' \<and> \<not> is_digit c"

text \<open>The part of \<open>v\<close> that the fraction \<open>f / scale\<close> adds, truncated.\<close>

definition fraction_part :: "int \<Rightarrow> int \<Rightarrow> int \<Rightarrow> int" where
  "fraction_part f scale unit =
     floor (float_round (float64_of_int f * float64_div (float64_of_int unit) (float64_of_int scale)))"

text \<open>One number with its unit: its value, and the rest.\<close>

definition parse_component :: "string \<Rightarrow> (int \<times> string) option" where
  "parse_component s =
     (if s = [] \<or> \<not> (hd s = CHR ''.'' \<or> is_digit (hd s)) then None
      else case leadingInt 0 s of
        None \<Rightarrow> None
      | Some (v, s1) \<Rightarrow>
          let pre = (length s1 \<noteq> length s);
              dot = (s1 \<noteq> [] \<and> hd s1 = CHR ''.'');
              (f, scale, s2) = (if dot then leadingFraction 0 1 False (tl s1) else (0, 1, s1));
              post = (dot \<and> length s2 \<noteq> length (tl s1));
              u = takeWhile unit_char s2; s3 = dropWhile unit_char s2
          in if \<not> pre \<and> \<not> post then None
             else if u = [] then None
             else case unit_of u of
               None \<Rightarrow> None
             | Some unit \<Rightarrow>
                 if v > two63 div unit then None
                 else let v = v * unit; v = (if f > 0 then v + fraction_part f scale unit else v)
                      in if f > 0 \<and> v > two63 then None else Some (v, s3))"

lemma leadingInt_length: "leadingInt x s = Some (v, r) \<Longrightarrow> length r \<le> length s"
  by (induction x s rule: leadingInt.induct) (auto simp: Let_def split: if_splits)

lemma leadingFraction_length: "leadingFraction x sc ov s = (f, sc', r) \<Longrightarrow> length r \<le> length s"
  by (induction x sc ov s rule: leadingFraction.induct) (fastforce simp: Let_def split: if_splits)+

lemma parse_component_shorter:
  assumes "parse_component s = Some (v, r)"
  shows "length r < length s"
proof -
  obtain v1 s1 where i: "leadingInt 0 s = Some (v1, s1)" using assms by (auto simp: parse_component_def split: if_splits option.splits)
  obtain f sc s2 where q: "(if s1 \<noteq> [] \<and> hd s1 = CHR ''.'' then leadingFraction 0 1 False (tl s1) else (0, 1, s1)) = (f, sc, s2)"
    by (cases "if s1 \<noteq> [] \<and> hd s1 = CHR ''.'' then leadingFraction 0 1 False (tl s1) else (0, 1, s1)")
  have s2: "length s2 \<le> length s1"
    using q leadingFraction_length [of 0 1 False "tl s1" f sc s2] by (cases s1) (auto split: if_splits)
  have u: "takeWhile unit_char s2 \<noteq> []" "r = dropWhile unit_char s2"
    using assms i q by (auto simp: parse_component_def Let_def split: if_splits option.splits prod.splits)
  have "length s2 = length (takeWhile unit_char s2) + length r" unfolding u(2) by (metis length_append takeWhile_dropWhile_id)
  then have "length r < length s2" using u(1) by (cases "takeWhile unit_char s2") auto
  with s2 leadingInt_length [OF i] show ?thesis by linarith
qed

function parse_components :: "int \<Rightarrow> string \<Rightarrow> int option" where
  "parse_components d s =
     (if s = [] then Some d
      else case parse_component s of
        None \<Rightarrow> None
      | Some (v, r) \<Rightarrow> if d + v > two63 then None else parse_components (d + v) r)"
  by pat_completeness auto
termination
  by (relation "measure (length \<circ> snd)") (auto dest: parse_component_shorter)

declare parse_components.simps [simp del]

definition ParseDuration :: "string \<Rightarrow> int option" where
  "ParseDuration s =
     (let neg = (s \<noteq> [] \<and> hd s = CHR ''-'');
          s = (if s \<noteq> [] \<and> (hd s = CHR ''-'' \<or> hd s = CHR ''+'') then tl s else s)
      in if s = ''0'' then Some 0
         else if s = [] then None
         else case parse_components 0 s of
           None \<Rightarrow> None
         | Some d \<Rightarrow> if neg then Some (wrap64 (- d)) else if d > two63 - 1 then None else Some d)"

lemma parse_components_range:
  "parse_components d s = Some d' \<Longrightarrow> d \<le> two63 \<Longrightarrow> d' \<le> two63"
proof (induction d s rule: parse_components.induct)
  case (1 d s)
  then show ?case by (subst (asm) parse_components.simps) (auto split: if_splits option.splits)
qed

end
