(* ===== verification/Broker_Config.thy ===== *)
theory Broker_Config
  imports Go_Duration
begin

section \<open>Configuration (cmd/broker/config)\<close>

text \<open>
  \<open>config.go\<close>: the configuration is read from the environment, a function from names to values that
  gives the empty string for what is not set, as \<open>os.Getenv\<close> does. Every value is trimmed, a value
  that does not parse falls back to its default, and the whole is validated.
\<close>

record Config =
  cf_Host :: string
  cf_Port :: int
  cf_HTTPPort :: int
  cf_Username :: string
  cf_Password :: string
  cf_Topics :: "string list"
  cf_MaxClients :: int
  cf_QueueBufferSize :: int
  cf_DBPath :: string
  cf_Timezone :: string
  cf_OEEEnabled :: bool
  cf_OEEStateTopic :: string
  cf_OEETickInterval :: int
  cf_OEEWSEnabled :: bool
  cf_OEEShiftsPath :: string

datatype config_error = ErrTopicsEmpty | ErrMaxClientsRange | ErrUsernameEmpty | ErrPasswordEmpty | ErrOEEStateTopicNotInTopics

definition Address :: "Config \<Rightarrow> string" where
  "Address c = cf_Host c @ '':'' @ Itoa (cf_Port c)"

definition HTTPAddress :: "Config \<Rightarrow> string" where
  "HTTPAddress c = cf_Host c @ '':'' @ Itoa (cf_HTTPPort c)"

type_synonym env = "string \<Rightarrow> string"

definition envOrDefault :: "env \<Rightarrow> string \<Rightarrow> string \<Rightarrow> string" where
  "envOrDefault env key fallback = (let v = TrimSpace (env key) in if v = [] then fallback else v)"

definition envIntOrDefault :: "env \<Rightarrow> string \<Rightarrow> int \<Rightarrow> int" where
  "envIntOrDefault env key fallback =
     (let v = TrimSpace (env key)
      in if v = [] then fallback else (case Atoi v of None \<Rightarrow> fallback | Some n \<Rightarrow> n))"

definition envBoolOrDefault :: "env \<Rightarrow> string \<Rightarrow> bool \<Rightarrow> bool" where
  "envBoolOrDefault env key fallback =
     (let v = TrimSpace (env key)
      in if v = [] then fallback else (case ParseBool v of None \<Rightarrow> fallback | Some b \<Rightarrow> b))"

definition envDurationOrDefault :: "env \<Rightarrow> string \<Rightarrow> int \<Rightarrow> int" where
  "envDurationOrDefault env key fallback =
     (let v = TrimSpace (env key)
      in if v = [] then fallback else (case ParseDuration v of None \<Rightarrow> fallback | Some d \<Rightarrow> d))"

definition parseTopics :: "string \<Rightarrow> string list" where
  "parseTopics raw = filter (\<lambda>t. t \<noteq> []) (map TrimSpace (split_on (CHR '','') raw))"

definition containsTopic :: "string list \<Rightarrow> string \<Rightarrow> bool" where
  "containsTopic topics target \<longleftrightarrow> list_ex (\<lambda>t. t = target) topics"

definition validate :: "Config \<Rightarrow> config_error option" where
  "validate c =
     (if cf_Topics c = [] then Some ErrTopicsEmpty
      else if cf_MaxClients c < 1 \<or> cf_MaxClients c > 5 then Some ErrMaxClientsRange
      else if cf_Username c = [] then Some ErrUsernameEmpty
      else if cf_Password c = [] then Some ErrPasswordEmpty
      else if cf_OEEEnabled c \<and> \<not> containsTopic (cf_Topics c) (cf_OEEStateTopic c) then Some ErrOEEStateTopicNotInTopics
      else None)"

definition read_config :: "env \<Rightarrow> Config" where
  "read_config env =
     \<lparr>cf_Host = envOrDefault env ''BROKER_HOST'' ''0.0.0.0'',
      cf_Port = envIntOrDefault env ''BROKER_PORT'' 1883,
      cf_HTTPPort = envIntOrDefault env ''BROKER_HTTP_PORT'' 8080,
      cf_Username = TrimSpace (env ''BROKER_USERNAME''),
      cf_Password = TrimSpace (env ''BROKER_PASSWORD''),
      cf_Topics = parseTopics (env ''BROKER_TOPICS''),
      cf_MaxClients = envIntOrDefault env ''BROKER_MAX_CLIENTS'' 5,
      cf_QueueBufferSize = envIntOrDefault env ''BROKER_QUEUE_BUFFER_SIZE'' 10000,
      cf_DBPath = envOrDefault env ''BROKER_DB_PATH'' ''./data/broker.db'',
      cf_Timezone = envOrDefault env ''BROKER_TIMEZONE'' ''UTC'',
      cf_OEEEnabled = envBoolOrDefault env ''BROKER_OEE_ENABLED'' False,
      cf_OEEStateTopic = envOrDefault env ''BROKER_OEE_STATE_TOPIC'' ''machine/state'',
      cf_OEETickInterval = envDurationOrDefault env ''BROKER_OEE_TICK_INTERVAL'' second,
      cf_OEEWSEnabled = envBoolOrDefault env ''BROKER_OEE_WS_ENABLED'' True,
      cf_OEEShiftsPath = TrimSpace (env ''BROKER_OEE_SHIFTS_PATH'')\<rparr>"

definition Load :: "env \<Rightarrow> config_error + Config" where
  "Load env = (let cfg = read_config env in case validate cfg of Some err \<Rightarrow> Inl err | None \<Rightarrow> Inr cfg)"

subsection \<open>Accepted configurations\<close>

definition config_ok :: "Config \<Rightarrow> bool" where
  "config_ok c \<longleftrightarrow> cf_Topics c \<noteq> [] \<and> list_all (\<lambda>t. t \<noteq> [] \<and> trimmed t) (cf_Topics c) \<and>
     1 \<le> cf_MaxClients c \<and> cf_MaxClients c \<le> 5 \<and> cf_Username c \<noteq> [] \<and> cf_Password c \<noteq> [] \<and>
     (cf_OEEEnabled c \<longrightarrow> cf_OEEStateTopic c \<in> set (cf_Topics c))"

lemma parseTopics_trimmed: "list_all (\<lambda>t. t \<noteq> [] \<and> trimmed t) (parseTopics raw)"
  by (auto simp: parseTopics_def list_all_iff)

lemma validate_None:
  "validate c = None \<longleftrightarrow> cf_Topics c \<noteq> [] \<and> 1 \<le> cf_MaxClients c \<and> cf_MaxClients c \<le> 5 \<and> cf_Username c \<noteq> [] \<and> cf_Password c \<noteq> [] \<and>
     (cf_OEEEnabled c \<longrightarrow> cf_OEEStateTopic c \<in> set (cf_Topics c))"
  by (auto simp: validate_def containsTopic_def list_ex_iff)

lemma Load_Inr: "Load env = Inr c \<longleftrightarrow> c = read_config env \<and> validate c = None"
  by (auto simp: Load_def Let_def split: option.splits)

lemma Load_ok: "Load env = Inr c \<Longrightarrow> config_ok c"
  using parseTopics_trimmed [of "env ''BROKER_TOPICS''"]
  by (auto simp: Load_Inr validate_None config_ok_def read_config_def)

text \<open>Topics that are joined with commas are read back.\<close>

lemma parseTopics_join:
  assumes "ts \<noteq> []" "list_all (\<lambda>t. t \<noteq> [] \<and> trimmed t \<and> CHR '','' \<notin> set t) ts"
  shows "parseTopics (join_with (CHR '','') ts) = ts"
proof -
  have "split_on (CHR '','') (join_with (CHR '','') ts) = ts" using assms by (intro split_join) (auto simp: list_all_iff)
  moreover have "map TrimSpace ts = ts" "filter (\<lambda>t. t \<noteq> []) ts = ts"
    using assms(2) by (induction ts) auto
  ultimately show ?thesis by (simp add: parseTopics_def)
qed

subsection \<open>Claims\<close>

definition demo_env :: env where
  "demo_env k =
     (if k = ''BROKER_TOPICS'' then ''line/1, line/2 ,'' else if k = ''BROKER_USERNAME'' then ''u''
      else if k = ''BROKER_PASSWORD'' then ''p'' else if k = ''BROKER_QUEUE_BUFFER_SIZE'' then ''-1''
      else if k = ''BROKER_OEE_TICK_INTERVAL'' then ''1.5s'' else [])"

text \<open>C35. A configuration that loads is sound: at least one topic, none blank and all trimmed, one to
  five clients, a username and a password, and with OEE the state topic among the topics.\<close>

theorem loaded_config_sound:
  "Load env = Inr c \<Longrightarrow> cf_Topics c \<noteq> [] \<and> list_all (\<lambda>t. t \<noteq> [] \<and> trimmed t) (cf_Topics c) \<and>
     1 \<le> cf_MaxClients c \<and> cf_MaxClients c \<le> 5 \<and> cf_Username c \<noteq> [] \<and> cf_Password c \<noteq> [] \<and>
     (cf_OEEEnabled c \<longrightarrow> cf_OEEStateTopic c \<in> set (cf_Topics c))"
  using Load_ok by (simp add: config_ok_def)

theorem loaded_config_sound_witness:
  "cf_Topics (read_config demo_env) \<noteq> [] \<and> 1 \<le> cf_MaxClients (read_config demo_env)"
proof -
  have "validate (read_config demo_env) = None" by code_simp
  then have "Load demo_env = Inr (read_config demo_env)" by (simp add: Load_Inr)
  from loaded_config_sound [OF this] show ?thesis by simp
qed

text \<open>The topic list survives its text form: topics that are not blank, are trimmed and have no
  comma, joined with commas, are parsed back.\<close>

theorem topics_round_trip:
  "ts \<noteq> [] \<Longrightarrow> list_all (\<lambda>t. t \<noteq> [] \<and> trimmed t \<and> CHR '','' \<notin> set t) ts \<Longrightarrow> parseTopics (join_with (CHR '','') ts) = ts"
  by (rule parseTopics_join)

theorem topics_round_trip_witness: "parseTopics (join_with (CHR '','') [''line/1'', ''line/2'']) = [''line/1'', ''line/2'']"
proof -
  have "trimmed ''line/1''" "trimmed ''line/2''" by code_simp+
  then show ?thesis using topics_round_trip [of "[''line/1'', ''line/2'']"] by simp
qed

end
