(* ===== verification/Go_Zone.thy ===== *)
theory Go_Zone
  imports Go_Calendar
begin

section \<open>Time zones (package time)\<close>

text \<open>
  A \<open>time.Location\<close> is an initial offset and a list of transitions: from which second on which
  offset holds, in increasing order, counted like the times from year 1. Which zone names exist
  and what their transitions are is tzdata, so \<open>time.LoadLocation\<close> is a parameter wherever it
  is used. \<open>Date\<close> follows \<open>time.Date\<close>: it looks the wall-clock time up as if it were UTC, and if
  the resulting instant lies outside the period it found, takes the offset in force at that
  instant. \<open>AddDate\<close> goes through the wall clock, as in Go.
\<close>

type_synonym location = "int \<times> (int \<times> int) list"

definition UTC :: location where
  "UTC = (0, [])"

definition fixed_zone :: "int \<Rightarrow> location" where
  "fixed_zone off = (off, [])"

fun loc_lookup :: "int \<Rightarrow> int option \<Rightarrow> (int \<times> int) list \<Rightarrow> int \<Rightarrow> int \<times> int option \<times> int option" where
  "loc_lookup off start [] u = (off, start, None)"
| "loc_lookup off start ((t, off') # trs) u =
     (if u < t then (off, start, Some t) else loc_lookup off' (Some t) trs u)"

definition lookup :: "location \<Rightarrow> int \<Rightarrow> int \<times> int option \<times> int option" where
  "lookup loc u = loc_lookup (fst loc) None (snd loc) u"

definition offset_at :: "location \<Rightarrow> int \<Rightarrow> int" where
  "offset_at loc u = fst (lookup loc u)"

text \<open>The instant, in seconds, of a wall-clock time given in seconds.\<close>

definition Date :: "location \<Rightarrow> int \<Rightarrow> int" where
  "Date loc wall =
     (case lookup loc wall of (off, start, stop) \<Rightarrow>
        if off = 0 then wall
        else let utc = wall - off
             in if (case start of None \<Rightarrow> False | Some s \<Rightarrow> utc < s) \<or> (case stop of None \<Rightarrow> False | Some e \<Rightarrow> utc \<ge> e)
                then wall - offset_at loc utc else wall - off)"

definition at_instant :: "location \<Rightarrow> int \<Rightarrow> int \<Rightarrow> gotime" where
  "at_instant loc u nanos = \<lparr>tm_ns = u * 1000000000 + nanos, tm_off = offset_at loc u\<rparr>"

definition In :: "gotime \<Rightarrow> location \<Rightarrow> gotime" where
  "In t loc = t\<lparr>tm_off := offset_at loc (tm_ns t div 1000000000)\<rparr>"

definition wall :: "gotime \<Rightarrow> int" where
  "wall t = tm_ns t div 1000000000 + tm_off t"

definition Weekday :: "gotime \<Rightarrow> int" where
  "Weekday t = weekday_of_days (wall t div 86400)"

definition AddDate :: "location \<Rightarrow> gotime \<Rightarrow> int \<Rightarrow> gotime" where
  "AddDate loc t days = at_instant loc (Date loc (wall t + days * 86400)) (tm_ns t mod 1000000000)"

subsection \<open>Zones with moderate transitions\<close>

text \<open>
  All offsets of the zone lie within less than a day of each other. Every zone does, except for
  the few that once crossed the date line.
\<close>

definition offsets :: "location \<Rightarrow> int set" where
  "offsets loc = insert (fst loc) (snd ` set (snd loc))"

definition zone_ok :: "location \<Rightarrow> bool" where
  "zone_ok loc \<longleftrightarrow> (\<forall>a\<in>offsets loc. \<forall>b\<in>offsets loc. a - b < 86400)"

lemma loc_lookup_offset: "fst (loc_lookup off start trs u) \<in> insert off (snd ` set trs)"
  by (induction off start trs u rule: loc_lookup.induct) auto

lemma offset_at_mem: "offset_at loc u \<in> offsets loc"
  using loc_lookup_offset [of "fst loc" None "snd loc" u] by (simp add: offset_at_def lookup_def offsets_def)

lemma Date_offset: "\<exists>off\<in>offsets loc. Date loc w = w - off"
proof -
  obtain off start stop where l: "lookup loc w = (off, start, stop)" by (cases "lookup loc w")
  then have "off \<in> offsets loc" using offset_at_mem [of loc w] by (simp add: offset_at_def)
  with offset_at_mem [of loc "w - off"] show ?thesis
    by (force simp: Date_def l Let_def split: if_splits)
qed

lemma wall_at_instant: "0 \<le> n \<Longrightarrow> n < 1000000000 \<Longrightarrow> wall (at_instant loc u n) = u + offset_at loc u"
  by (simp add: wall_def at_instant_def)

text \<open>A time that is shown in the zone's offset moves forward by \<open>AddDate\<close>.\<close>

definition in_zone :: "location \<Rightarrow> gotime \<Rightarrow> bool" where
  "in_zone loc t \<longleftrightarrow> tm_off t = offset_at loc (tm_ns t div 1000000000)"

lemma in_zone_simps [simp]:
  "in_zone loc (In t loc)" "0 \<le> n \<Longrightarrow> n < 1000000000 \<Longrightarrow> in_zone loc (at_instant loc u n)"
  "in_zone loc (AddDate loc t k)"
  by (simp_all add: in_zone_def In_def at_instant_def AddDate_def)

lemma AddDate_forward:
  assumes "zone_ok loc" "in_zone loc t"
  shows "tm_ns t + 1000000000 \<le> tm_ns (AddDate loc t 1)"
proof -
  obtain off where off: "off \<in> offsets loc" "Date loc (wall t + 86400) = wall t + 86400 - off"
    using Date_offset [of loc "wall t + 86400"] by blast
  have "tm_off t \<in> offsets loc" using assms(2) offset_at_mem by (simp add: in_zone_def)
  with assms(1) off(1) have "off - tm_off t < 86400" by (simp add: zone_ok_def)
  then have "tm_ns t div 1000000000 + 1 \<le> Date loc (wall t + 86400)" unfolding off(2) by (simp add: wall_def)
  moreover define q r where "q = tm_ns t div 1000000000" and "r = tm_ns t mod 1000000000"
  ultimately have "q + 1 \<le> Date loc (wall t + 86400)" by simp
  moreover have "tm_ns t = q * 1000000000 + r" by (simp add: q_def r_def)
  moreover have "tm_ns (AddDate loc t 1) = Date loc (wall t + 86400) * 1000000000 + r"
    by (simp add: AddDate_def at_instant_def r_def)
  ultimately show ?thesis by simp
qed

subsection \<open>Fixed offsets\<close>

lemma fixed_zone_simps [simp]:
  "offset_at (fixed_zone off) u = off" "Date (fixed_zone off) w = w - off" "zone_ok (fixed_zone off)"
  by (simp_all add: fixed_zone_def offset_at_def lookup_def Date_def zone_ok_def offsets_def)

lemma UTC_fixed: "UTC = fixed_zone 0"
  by (simp add: UTC_def fixed_zone_def)

end
