(* ===== verification/OEE_Domain.thy ===== *)
theory OEE_Domain
  imports Go_Zone
begin

section \<open>Machine states, shifts and planned time (oee/domain)\<close>

text \<open>
  \<open>machine_state.go\<close> and \<open>shift.go\<close>. A machine state is a string, as in Go; planned production
  time is computed day by day over a window.
\<close>

subsection \<open>Machine states (machine_state.go)\<close>

type_synonym MachineState = string

definition Running :: MachineState where "Running = ''running''"
definition Stopped :: MachineState where "Stopped = ''stopped''"
definition Setup :: MachineState where "Setup = ''setup''"
definition Idle :: MachineState where "Idle = ''idle''"
definition Maintenance :: MachineState where "Maintenance = ''maintenance''"
definition Off :: MachineState where "Off = ''off''"

lemmas machine_states = Running_def Stopped_def Setup_def Idle_def Maintenance_def Off_def

definition IsDowntime :: "MachineState \<Rightarrow> bool" where
  "IsDowntime s \<longleftrightarrow> s = Stopped \<or> s = Setup \<or> s = Maintenance"

definition IsPlannedStop :: "MachineState \<Rightarrow> bool" where
  "IsPlannedStop s \<longleftrightarrow> s = Setup \<or> s = Maintenance"

definition Valid :: "MachineState \<Rightarrow> bool" where
  "Valid s \<longleftrightarrow> s \<in> set [Running, Stopped, Setup, Idle, Maintenance, Off]"

lemma IsPlannedStop_IsDowntime: "IsPlannedStop s \<Longrightarrow> IsDowntime s"
  by (auto simp: IsPlannedStop_def IsDowntime_def)

lemma IsDowntime_Valid: "IsDowntime s \<Longrightarrow> Valid s"
  by (auto simp: IsDowntime_def Valid_def)

subsection \<open>Shifts (shift.go)\<close>

record Window =
  w_From :: gotime
  w_To :: gotime

record Break =
  br_StartMin :: int
  br_EndMin :: int
  br_Type :: string

record Shift =
  sh_ID :: string
  sh_Name :: string
  sh_MachineID :: string
  sh_StartMin :: int
  sh_EndMin :: int
  sh_Weekdays :: "int list"
  sh_Breaks :: "Break list"
  sh_TZ :: string

definition maxTime :: "gotime \<Rightarrow> gotime \<Rightarrow> gotime" where
  "maxTime a b = (if After a b then a else b)"

definition minTime :: "gotime \<Rightarrow> gotime \<Rightarrow> gotime" where
  "minTime a b = (if Before a b then a else b)"

definition overlap :: "gotime \<Rightarrow> gotime \<Rightarrow> gotime \<Rightarrow> gotime \<Rightarrow> duration" where
  "overlap aStart aEnd bStart bEnd =
     (let start = maxTime aStart bStart; stop = minTime aEnd bEnd
      in if After stop start then time_sub stop start else 0)"

text \<open>\<open>time.Duration(m) * time.Minute\<close>, at 64 bits.\<close>

definition minutes :: "int \<Rightarrow> duration" where
  "minutes m = wrap64 (m * minute)"

fun deduct_breaks :: "gotime \<Rightarrow> gotime \<Rightarrow> gotime \<Rightarrow> duration \<Rightarrow> Break list \<Rightarrow> duration" where
  "deduct_breaks day workedFrom workedTo worked [] = worked"
| "deduct_breaks day workedFrom workedTo worked (b # breaks) =
     deduct_breaks day workedFrom workedTo
       (wrap64 (worked - overlap (time_add day (minutes (br_StartMin b))) (time_add day (minutes (br_EndMin b)))
                          workedFrom workedTo)) breaks"

definition plannedTimeOnDay :: "Shift \<Rightarrow> gotime \<Rightarrow> Window \<Rightarrow> duration" where
  "plannedTimeOnDay s day w =
     (let shiftStart = time_add day (minutes (sh_StartMin s));
          shiftEnd = time_add day (minutes (sh_EndMin s));
          workedFrom = maxTime shiftStart (w_From w);
          workedTo = minTime shiftEnd (w_To w)
      in if \<not> After workedTo workedFrom then 0
         else let worked = deduct_breaks day workedFrom workedTo (time_sub workedTo workedFrom) (sh_Breaks s)
              in if worked < 0 then 0 else worked)"

definition shift_location :: "(string \<Rightarrow> location option) \<Rightarrow> Shift \<Rightarrow> location" where
  "shift_location tzdata s =
     (if sh_TZ s = [] then UTC
      else (case tzdata (sh_TZ s) of Some loc \<Rightarrow> loc | None \<Rightarrow> UTC))"

definition weekdaySet :: "Shift \<Rightarrow> int set" where
  "weekdaySet s = set (sh_Weekdays s)"

definition startOfDay :: "location \<Rightarrow> gotime \<Rightarrow> gotime" where
  "startOfDay loc t = at_instant loc (Date loc (wall t div 86400 * 86400)) 0"

text \<open>
  The loop over the days: it ends only if \<open>AddDate\<close> eventually passes the last day, so it is a
  partial function, \<open>None\<close> where the Go loop does not end.
\<close>

partial_function (option) planned_loop ::
  "location \<Rightarrow> Shift \<Rightarrow> Window \<Rightarrow> gotime \<Rightarrow> gotime \<Rightarrow> duration \<Rightarrow> duration option"
where
  "planned_loop loc s w lastDay day acc =
     (if After day lastDay then Some acc
      else planned_loop loc s w lastDay (AddDate loc day 1)
        (if sh_Weekdays s = [] \<or> Weekday day \<in> weekdaySet s
         then wrap64 (acc + plannedTimeOnDay s day w) else acc))"

declare planned_loop.simps [code]

definition PlannedProductionTime :: "(string \<Rightarrow> location option) \<Rightarrow> Shift \<Rightarrow> Window \<Rightarrow> duration option" where
  "PlannedProductionTime tzdata s w =
     (if \<not> After (w_To w) (w_From w) then Some 0
      else let loc = shift_location tzdata s;
               firstDay = AddDate loc (startOfDay loc (In (w_From w) loc)) (- 1);
               lastDay = AddDate loc (startOfDay loc (In (w_To w) loc)) 1
           in planned_loop loc s w lastDay firstDay 0)"

end
