(* ===== verification/OEE_Planned.thy ===== *)
theory OEE_Planned
  imports OEE_Domain
begin

section \<open>What the planned production time is\<close>

text \<open>
  The loop over the days returns for every zone whose offsets lie within a day of each other, and
  for a zone with a fixed offset its result is what one would define it to be: the number of
  nanoseconds of the window that lie in the shift and in no break. Times are nanoseconds, so a
  half-open interval is a set of integers and its length the number of its elements.
\<close>

subsection \<open>The loop returns\<close>

lemma planned_loop_returns:
  assumes "zone_ok loc" "in_zone loc day"
  shows "\<exists>d. planned_loop loc s w lastDay day acc = Some d"
  using assms(2)
proof (induction "nat (tm_ns lastDay - tm_ns day + 1)" arbitrary: day acc rule: less_induct)
  case less
  show ?case
  proof (cases "After day lastDay")
    case True
    then show ?thesis by (subst planned_loop.simps) simp
  next
    case False
    then have "nat (tm_ns lastDay - tm_ns (AddDate loc day 1) + 1) < nat (tm_ns lastDay - tm_ns day + 1)"
      using AddDate_forward [OF assms(1) less.prems] by (simp add: After_def)
    then have "\<exists>d. planned_loop loc s w lastDay (AddDate loc day 1) acc' = Some d" for acc'
      by (rule less.hyps) simp
    with False show ?thesis by (subst planned_loop.simps) simp
  qed
qed

lemma in_zone_startOfDay: "in_zone loc (startOfDay loc t)"
  by (simp add: startOfDay_def)

lemma PlannedProductionTime_returns:
  "zone_ok (shift_location tzdata s) \<Longrightarrow> \<exists>d. PlannedProductionTime tzdata s w = Some d"
  by (simp add: PlannedProductionTime_def Let_def planned_loop_returns)

subsection \<open>Intervals as sets of nanoseconds\<close>

definition ivl :: "gotime \<Rightarrow> gotime \<Rightarrow> int set" where
  "ivl a b = {tm_ns a ..< tm_ns b}"

lemma finite_ivl [simp]: "finite (ivl a b)"
  by (simp add: ivl_def)

lemma tm_ns_max_min [simp]:
  "tm_ns (maxTime a b) = max (tm_ns a) (tm_ns b)" "tm_ns (minTime a b) = min (tm_ns a) (tm_ns b)"
  by (auto simp: maxTime_def minTime_def After_def Before_def)

lemma ivl_Int: "ivl a b \<inter> ivl c d = ivl (maxTime a c) (minTime b d)"
  by (auto simp: ivl_def)

lemma card_ivl: "int (card (ivl a b)) = (if After b a then tm_ns b - tm_ns a else 0)"
  by (simp add: ivl_def After_def)

lemma time_sub_card:
  assumes "fits64 (tm_ns b - tm_ns a)" "After b a"
  shows "time_sub b a = int (card (ivl a b))"
  using assms by (simp add: time_sub_def card_ivl)

lemma fits64_shrink: "fits64 y \<Longrightarrow> 0 \<le> x \<Longrightarrow> x \<le> y \<Longrightarrow> fits64 x"
  by (simp add: fits64_def)

lemma fits64_card:
  assumes "A \<subseteq> ivl a b" "fits64 (tm_ns b - tm_ns a)"
  shows "fits64 (int (card A))"
proof (cases "After b a")
  case True
  have "card A \<le> card (ivl a b)" using assms(1) by (simp add: card_mono)
  with True card_ivl [of a b] have "int (card A) \<le> tm_ns b - tm_ns a" by simp
  then show ?thesis by (intro fits64_shrink [OF assms(2)]) simp_all
next
  case False
  then have "ivl a b = {}" by (simp add: ivl_def After_def)
  with assms(1) show ?thesis by (simp add: fits64_def)
qed

lemma fits64_clip:
  assumes "fits64 (tm_ns d - tm_ns c)" "After (minTime b d) (maxTime a c)"
  shows "fits64 (tm_ns (minTime b d) - tm_ns (maxTime a c))"
proof (rule fits64_shrink [OF assms(1)])
  show "0 \<le> tm_ns (minTime b d) - tm_ns (maxTime a c)" using assms(2) by (simp add: After_def)
  show "tm_ns (minTime b d) - tm_ns (maxTime a c) \<le> tm_ns d - tm_ns c" by simp
qed

lemma overlap_card:
  assumes "fits64 (tm_ns d - tm_ns c)"
  shows "overlap a b c d = int (card (ivl a b \<inter> ivl c d))"
proof (cases "After (minTime b d) (maxTime a c)")
  case True
  then show ?thesis
    using time_sub_card [OF fits64_clip [OF assms True] True] by (simp add: overlap_def Let_def ivl_Int)
next
  case False
  then show ?thesis by (simp only: overlap_def Let_def ivl_Int card_ivl) simp
qed

subsection \<open>One day\<close>

definition break_ivl :: "gotime \<Rightarrow> Break \<Rightarrow> int set" where
  "break_ivl day b = ivl (time_add day (minutes (br_StartMin b))) (time_add day (minutes (br_EndMin b)))"

definition shift_ivl :: "Shift \<Rightarrow> gotime \<Rightarrow> int set" where
  "shift_ivl s day = ivl (time_add day (minutes (sh_StartMin s))) (time_add day (minutes (sh_EndMin s)))"

text \<open>The instants of a day's shift that fall into the window and into no break.\<close>

definition day_instants :: "Shift \<Rightarrow> gotime \<Rightarrow> Window \<Rightarrow> int set" where
  "day_instants s day w =
     (shift_ivl s day \<inter> ivl (w_From w) (w_To w)) - (\<Union>b\<in>set (sh_Breaks s). break_ivl day b)"

text \<open>Breaks that do not overlap, at offsets from midnight that 64 bits can hold in nanoseconds.\<close>

definition apart :: "Break \<Rightarrow> Break \<Rightarrow> bool" where
  "apart a b \<longleftrightarrow> br_EndMin a \<le> br_StartMin b \<or> br_EndMin b \<le> br_StartMin a"

definition minute_ok :: "int \<Rightarrow> bool" where
  "minute_ok m \<longleftrightarrow> - 100000000 \<le> m \<and> m \<le> 100000000"

definition breaks_ok :: "Break list \<Rightarrow> bool" where
  "breaks_ok bs \<longleftrightarrow> sorted_wrt apart bs \<and> list_all (\<lambda>b. minute_ok (br_StartMin b) \<and> minute_ok (br_EndMin b)) bs"

lemma minutes_ok: "minute_ok m \<Longrightarrow> minutes m = m * minute"
  by (simp add: minutes_def minute_ok_def minute_def second_def fits64_def)

lemma break_ivl_apart:
  assumes "apart a b" "minute_ok (br_StartMin a)" "minute_ok (br_EndMin a)" "minute_ok (br_StartMin b)" "minute_ok (br_EndMin b)"
  shows "break_ivl day a \<inter> break_ivl day b = {}"
  using assms unfolding apart_def
  by (auto simp: break_ivl_def ivl_def minutes_ok minute_def second_def)

lemma deduct_breaks_card:
  assumes fits: "fits64 (tm_ns wto - tm_ns wfr)"
  shows "breaks_ok bs \<Longrightarrow> A \<subseteq> ivl wfr wto \<Longrightarrow> \<forall>b\<in>set bs. break_ivl day b \<inter> ivl wfr wto \<subseteq> A \<Longrightarrow>
    deduct_breaks day wfr wto (int (card A)) bs = int (card (A - (\<Union>b\<in>set bs. break_ivl day b)))"
proof (induction bs arbitrary: A)
  case (Cons b bs)
  let ?A = "A - break_ivl day b"
  have fin: "finite A" using Cons.prems(2) by (rule finite_subset) simp
  have sub: "break_ivl day b \<inter> ivl wfr wto \<subseteq> A" using Cons.prems(3) by simp
  have "int (card ?A) = int (card A) - int (card (break_ivl day b \<inter> ivl wfr wto))"
  proof -
    have "?A = A - (break_ivl day b \<inter> ivl wfr wto)" using Cons.prems(2) by auto
    moreover have "card (A - (break_ivl day b \<inter> ivl wfr wto)) = card A - card (break_ivl day b \<inter> ivl wfr wto)"
      by (rule card_Diff_subset [OF _ sub]) simp
    ultimately show ?thesis using card_mono [OF fin sub] by (simp add: of_nat_diff)
  qed
  moreover have "fits64 (int (card ?A))" by (rule fits64_card [OF _ fits]) (use Cons.prems(2) in blast)
  ultimately have step: "wrap64 (int (card A) - overlap (time_add day (minutes (br_StartMin b))) (time_add day (minutes (br_EndMin b))) wfr wto) = int (card ?A)"
    unfolding overlap_card [OF fits] break_ivl_def [symmetric] by simp
  have ok: "breaks_ok bs" using Cons.prems(1) by (simp add: breaks_ok_def)
  have "break_ivl day b' \<inter> ivl wfr wto \<subseteq> ?A" if "b' \<in> set bs" for b'
  proof -
    have "apart b b'" "minute_ok (br_StartMin b)" "minute_ok (br_EndMin b)" "minute_ok (br_StartMin b')" "minute_ok (br_EndMin b')"
      using Cons.prems(1) that by (auto simp: breaks_ok_def list_all_iff)
    then have "break_ivl day b \<inter> break_ivl day b' = {}" by (rule break_ivl_apart)
    moreover have "break_ivl day b' \<inter> ivl wfr wto \<subseteq> A" using Cons.prems(3) that by simp
    ultimately show ?thesis by blast
  qed
  then have "deduct_breaks day wfr wto (int (card ?A)) bs = int (card (?A - (\<Union>b\<in>set bs. break_ivl day b)))"
    using ok Cons.prems(2) by (intro Cons.IH) auto
  moreover have "?A - (\<Union>b\<in>set bs. break_ivl day b) = A - (\<Union>b\<in>set (b # bs). break_ivl day b)" by auto
  ultimately show ?case by (simp add: step)
qed simp

lemma plannedTimeOnDay_card:
  assumes "fits64 (tm_ns (w_To w) - tm_ns (w_From w))" "breaks_ok (sh_Breaks s)"
  shows "plannedTimeOnDay s day w = int (card (day_instants s day w))"
proof -
  let ?wf = "maxTime (time_add day (minutes (sh_StartMin s))) (w_From w)"
  let ?wt = "minTime (time_add day (minutes (sh_EndMin s))) (w_To w)"
  have worked: "shift_ivl s day \<inter> ivl (w_From w) (w_To w) = ivl ?wf ?wt"
    by (simp add: shift_ivl_def ivl_Int)
  show ?thesis
  proof (cases "After ?wt ?wf")
    case False
    then have "ivl ?wf ?wt = {}" by (auto simp: ivl_def After_def)
    with False worked show ?thesis by (simp add: plannedTimeOnDay_def day_instants_def Let_def)
  next
    case True
    have fits: "fits64 (tm_ns ?wt - tm_ns ?wf)" by (rule fits64_clip [OF assms(1) True])
    have "deduct_breaks day ?wf ?wt (int (card (ivl ?wf ?wt))) (sh_Breaks s) =
        int (card (ivl ?wf ?wt - (\<Union>b\<in>set (sh_Breaks s). break_ivl day b)))"
      by (rule deduct_breaks_card [OF fits assms(2)]) auto
    with True time_sub_card [OF fits True] worked show ?thesis
      by (simp add: plannedTimeOnDay_def day_instants_def Let_def)
  qed
qed

subsection \<open>All days of a zone with a fixed offset\<close>

definition midnight :: "int \<Rightarrow> int \<Rightarrow> gotime" where
  "midnight off k = \<lparr>tm_ns = (k * 86400 - off) * 1000000000, tm_off = off\<rparr>"

definition day_index :: "int \<Rightarrow> gotime \<Rightarrow> int" where
  "day_index off t = (tm_ns t div 1000000000 + off) div 86400"

lemma tm_ns_midnight: "tm_ns (midnight off k) = (k * 86400 - off) * 1000000000"
  by (simp add: midnight_def)

lemma wall_midnight [simp]: "wall (midnight off k) = k * 86400"
  by (simp add: wall_def midnight_def)

lemma AddDate_midnight [simp]: "AddDate (fixed_zone off) (midnight off k) j = midnight off (k + j)"
proof -
  have "tm_ns (midnight off k) mod 1000000000 = 0" by (simp add: midnight_def)
  then show ?thesis
    by (simp only: AddDate_def wall_midnight fixed_zone_simps at_instant_def) (simp add: midnight_def algebra_simps)
qed

lemma startOfDay_fixed: "startOfDay (fixed_zone off) (In t (fixed_zone off)) = midnight off (day_index off t)"
  by (simp add: startOfDay_def at_instant_def midnight_def day_index_def wall_def In_def)

lemma After_midnight [simp]: "After (midnight off j) (midnight off k) \<longleftrightarrow> k < j"
  by (simp add: After_def midnight_def)

lemma day_index_bounds:
  "tm_ns (midnight off (day_index off t)) \<le> tm_ns t" "tm_ns t < tm_ns (midnight off (day_index off t + 1))"
proof -
  define q r where "q = tm_ns t div 1000000000" and "r = tm_ns t mod 1000000000"
  define d m where "d = (q + off) div 86400" and "m = (q + off) mod 86400"
  have t: "tm_ns t = q * 1000000000 + r" "0 \<le> r" "r < 1000000000" by (simp_all add: q_def r_def)
  have q: "q + off = d * 86400 + m" "0 \<le> m" "m < 86400" by (simp_all add: d_def m_def)
  have d: "day_index off t = d" by (simp add: day_index_def d_def q_def)
  show "tm_ns (midnight off (day_index off t)) \<le> tm_ns t"
    using t q unfolding d tm_ns_midnight by simp
  show "tm_ns t < tm_ns (midnight off (day_index off t + 1))"
    using t q unfolding d tm_ns_midnight by simp
qed

definition works_on :: "Shift \<Rightarrow> int \<Rightarrow> bool" where
  "works_on s k \<longleftrightarrow> sh_Weekdays s = [] \<or> weekday_of_days k \<in> weekdaySet s"

lemma Weekday_midnight [simp]: "Weekday (midnight off k) = weekday_of_days k"
  by (simp add: Weekday_def)

text \<open>
  The specification: the nanoseconds of the window that belong to the shift of some day on which
  the shift works, and to no break of that day.
\<close>

definition planned_instants :: "int \<Rightarrow> Shift \<Rightarrow> Window \<Rightarrow> int set" where
  "planned_instants off s w = (\<Union>k\<in>{k. works_on s k}. day_instants s (midnight off k) w)"

definition shift_ok :: "Shift \<Rightarrow> bool" where
  "shift_ok s \<longleftrightarrow> 0 \<le> sh_StartMin s \<and> sh_EndMin s \<le> 2880 \<and> sh_EndMin s \<le> sh_StartMin s + 1440 \<and>
     sh_StartMin s \<le> 2880 \<and> 0 \<le> sh_EndMin s \<and> breaks_ok (sh_Breaks s)"

lemma shift_ivl_midnight:
  assumes "shift_ok s"
  shows "shift_ivl s (midnight off k) =
    {(k * 86400 - off) * 1000000000 + sh_StartMin s * 60000000000 ..<
     (k * 86400 - off) * 1000000000 + sh_EndMin s * 60000000000}"
  using assms by (simp add: shift_ivl_def ivl_def minutes_ok minute_ok_def shift_ok_def tm_ns_midnight minute_def second_def)

lemma shift_ivl_disjoint:
  assumes "shift_ok s" "j < k"
  shows "shift_ivl s (midnight off j) \<inter> shift_ivl s (midnight off k) = {}"
proof -
  have "j + 1 \<le> k" "sh_EndMin s \<le> sh_StartMin s + 1440" using assms by (simp_all add: shift_ok_def)
  then show ?thesis unfolding shift_ivl_midnight [OF assms(1)] by auto
qed

lemma day_instants_sub: "day_instants s day w \<subseteq> shift_ivl s day" "day_instants s day w \<subseteq> ivl (w_From w) (w_To w)"
  by (auto simp: day_instants_def)

definition days_instants :: "int \<Rightarrow> Shift \<Rightarrow> Window \<Rightarrow> int set \<Rightarrow> int set" where
  "days_instants off s w K = (\<Union>k\<in>{k\<in>K. works_on s k}. day_instants s (midnight off k) w)"

lemma days_instants_sub: "days_instants off s w K \<subseteq> ivl (w_From w) (w_To w)"
  using day_instants_sub(2) by (fastforce simp: days_instants_def)

lemma days_instants_snoc:
  assumes "shift_ok s" "a \<le> k"
  shows "card (days_instants off s w {a..<k + 1}) =
    card (days_instants off s w {a..<k}) + (if works_on s k then card (day_instants s (midnight off k) w) else 0)"
proof -
  have K: "{a..<k + 1} = insert k {a..<k}" using assms(2) by auto
  have split: "days_instants off s w {a..<k + 1} =
      days_instants off s w {a..<k} \<union> (if works_on s k then day_instants s (midnight off k) w else {})"
    unfolding K days_instants_def by auto
  have "days_instants off s w {a..<k} \<inter> day_instants s (midnight off k) w = {}"
    using shift_ivl_disjoint [OF assms(1), of _ k off] day_instants_sub(1) by (fastforce simp: days_instants_def)
  moreover have "finite (days_instants off s w K)" "finite (day_instants s d w)" for K d
    using finite_subset [OF days_instants_sub] finite_subset [OF day_instants_sub(2)] by simp_all
  ultimately show ?thesis unfolding split by (simp add: card_Un_disjoint)
qed

lemma planned_loop_fixed:
  assumes ok: "shift_ok s" and fits: "fits64 (tm_ns (w_To w) - tm_ns (w_From w))"
  shows "a \<le> k \<Longrightarrow> k \<le> b + 1 \<Longrightarrow>
    planned_loop (fixed_zone off) s w (midnight off b) (midnight off k) (int (card (days_instants off s w {a..<k}))) =
    Some (int (card (days_instants off s w {a..<b + 1})))"
proof (induction "nat (b + 1 - k)" arbitrary: k)
  case 0
  then have "k = b + 1" by simp
  then show ?case by (subst planned_loop.simps) simp
next
  case (Suc n)
  let ?c = "int (card (days_instants off s w {a..<k + 1}))"
  have "fits64 ?c" by (rule fits64_card [OF days_instants_sub fits])
  then have step: "(if works_on s k then wrap64 (int (card (days_instants off s w {a..<k})) + plannedTimeOnDay s (midnight off k) w)
      else int (card (days_instants off s w {a..<k}))) = ?c"
    using days_instants_snoc [OF ok Suc.prems(1), of off w] plannedTimeOnDay_card [OF fits, of s "midnight off k"] ok
    by (cases "works_on s k") (simp_all add: shift_ok_def)
  have "planned_loop (fixed_zone off) s w (midnight off b) (midnight off (k + 1)) ?c =
      Some (int (card (days_instants off s w {a..<b + 1})))"
    using Suc.hyps(2) Suc.prems by (intro Suc.hyps(1)) simp_all
  then show ?case
    using Suc.hyps(2) step by (subst planned_loop.simps) (simp add: works_on_def)
qed

lemma planned_instants_days:
  assumes "shift_ok s"
  shows "planned_instants off s w = days_instants off s w {day_index off (w_From w) - 1..<day_index off (w_To w) + 2}"
proof -
  let ?a = "day_index off (w_From w)" and ?b = "day_index off (w_To w)"
  have "k \<in> {?a - 1..<?b + 2}" if "t \<in> day_instants s (midnight off k) w" for t k
  proof (rule ccontr)
    have s: "0 \<le> sh_StartMin s" "sh_EndMin s \<le> 2880" using assms by (simp_all add: shift_ok_def)
    have t: "t \<in> shift_ivl s (midnight off k)" "tm_ns (w_From w) \<le> t" "t < tm_ns (w_To w)"
      using that day_instants_sub by (auto simp: day_instants_def ivl_def)
    note b = t(2,3) day_index_bounds(1) [where off = off and t = "w_From w"] day_index_bounds(2) [where off = off and t = "w_To w"]
    assume "k \<notin> {?a - 1..<?b + 2}"
    then consider "k \<le> ?a - 2" | "?b + 2 \<le> k" by fastforce
    then show False
      using b t(1) s unfolding shift_ivl_midnight [OF assms] tm_ns_midnight by cases simp_all
  qed
  then show ?thesis by (auto simp: planned_instants_def days_instants_def)
qed

lemma PlannedProductionTime_counts:
  assumes "shift_location tzdata s = fixed_zone off" "shift_ok s" "fits64 (tm_ns (w_To w) - tm_ns (w_From w))"
  shows "PlannedProductionTime tzdata s w = Some (int (card (planned_instants off s w)))"
proof (cases "After (w_To w) (w_From w)")
  case False
  then have "ivl (w_From w) (w_To w) = {}" by (simp add: ivl_def After_def)
  then have "planned_instants off s w = {}" using day_instants_sub(2) by (fastforce simp: planned_instants_def)
  with False show ?thesis by (simp add: PlannedProductionTime_def)
next
  case True
  let ?a = "day_index off (w_From w) - 1" and ?b = "day_index off (w_To w) + 1"
  have "day_index off (w_From w) \<le> day_index off (w_To w)"
    using True by (auto simp: day_index_def After_def intro!: zdiv_mono1)
  then have "planned_loop (fixed_zone off) s w (midnight off ?b) (midnight off ?a) (int (card (days_instants off s w {?a..<?a}))) =
      Some (int (card (days_instants off s w {?a..<?b + 1})))"
    by (intro planned_loop_fixed assms(2,3)) simp_all
  with True assms(1) planned_instants_days [OF assms(2)] show ?thesis
    by (simp add: PlannedProductionTime_def Let_def startOfDay_fixed days_instants_def add.commute)
qed

subsection \<open>Claims\<close>

lemma planned_loop_stuck:
  assumes "AddDate loc day 1 = day" "\<not> After day lastDay"
  shows "planned_loop loc s w lastDay day acc = None"
proof (cases "planned_loop loc s w lastDay day acc")
  case (Some d)
  then have "\<not> (AddDate loc day 1 = day \<and> \<not> After day lastDay)"
    by (rule planned_loop.raw_induct [rotated, where P = "\<lambda>loc s w lastDay day acc d. \<not> (AddDate loc day 1 = day \<and> \<not> After day lastDay)"])
      (metis option.inject)
  with assms show ?thesis by simp
qed

text \<open>
  Samoa's zone around the end of 2011, when it went from ten hours west of UTC to fourteen hours
  east at the end of December 29 and had no December 30: its record in tzdata, cut down to that
  transition.
\<close>

definition apia_2011 :: location where
  "apia_2011 = (- 36000, [(days_of_civil 2011 12 30 * 86400 + 36000, 50400)])"

definition utc_day :: "int \<Rightarrow> int \<Rightarrow> int \<Rightarrow> gotime" where
  "utc_day y m d = \<lparr>tm_ns = days_of_civil y m d * 86400000000000, tm_off = 0\<rparr>"

text \<open>C30. The planned production time of a shift is computed, for every window, in every zone
  whose offsets lie less than a day apart: the loop over the days ends.\<close>

theorem planned_time_returns:
  "zone_ok (shift_location tzdata s) \<Longrightarrow> \<exists>d. PlannedProductionTime tzdata s w = Some d"
  by (rule PlannedProductionTime_returns)

definition day_shift :: Shift where
  "day_shift = \<lparr>sh_ID = ''s1'', sh_Name = ''day'', sh_MachineID = ''*'', sh_StartMin = 480, sh_EndMin = 960,
     sh_Weekdays = [1, 2, 3, 4, 5], sh_Breaks = [\<lparr>br_StartMin = 720, br_EndMin = 750, br_Type = ''meal''\<rparr>], sh_TZ = []\<rparr>"

theorem planned_time_returns_witness:
  "\<exists>d. PlannedProductionTime Map.empty day_shift \<lparr>w_From = utc_day 2026 6 1, w_To = utc_day 2026 6 2\<rparr> = Some d"
  by (rule planned_time_returns) (simp add: shift_location_def day_shift_def UTC_fixed)

text \<open>C19. In a zone with a fixed offset the planned production time is the number of nanoseconds
  of the window that lie in the shift of a day the shift works on, overnight shifts of the day
  before the window included, and in no break of that day. The shift starts on its day, lasts at
  most 24 hours and ends by the end of the next day; its breaks do not overlap; the window is
  short enough for a Duration.\<close>

theorem planned_time_counts:
  "shift_location tzdata s = fixed_zone off \<Longrightarrow> shift_ok s \<Longrightarrow> fits64 (tm_ns (w_To w) - tm_ns (w_From w)) \<Longrightarrow>
   PlannedProductionTime tzdata s w = Some (int (card (planned_instants off s w)))"
  by (rule PlannedProductionTime_counts)

theorem planned_time_counts_witness:
  "PlannedProductionTime Map.empty day_shift \<lparr>w_From = utc_day 2026 6 1, w_To = utc_day 2026 6 2\<rparr> =
     Some (int (card (planned_instants 0 day_shift \<lparr>w_From = utc_day 2026 6 1, w_To = utc_day 2026 6 2\<rparr>)))"
  by (rule planned_time_counts)
    (simp_all add: shift_location_def day_shift_def UTC_fixed shift_ok_def breaks_ok_def minute_ok_def utc_day_def
      days_of_civil_def days_before_year_def days_before_month_def leap_day_def is_leap_def fits64_def)

text \<open>C40. In a zone that skipped a day by crossing the date line the computation does not return
  for a window over that day: the day after December 29 is, by the calendar arithmetic,
  December 29 again, so the loop stays there.\<close>

theorem planned_time_diverges_over_skipped_day:
  "PlannedProductionTime [''Pacific/Apia'' \<mapsto> apia_2011] (s\<lparr>sh_TZ := ''Pacific/Apia''\<rparr>)
     \<lparr>w_From = utc_day 2011 12 30, w_To = utc_day 2012 1 2\<rparr> = None"
proof -
  let ?s = "s\<lparr>sh_TZ := ''Pacific/Apia''\<rparr>" and ?w = "\<lparr>w_From = utc_day 2011 12 30, w_To = utc_day 2012 1 2\<rparr>"
  define d29 where "d29 = startOfDay apia_2011 (In (w_From ?w) apia_2011)"
  define last where "last = AddDate apia_2011 (startOfDay apia_2011 (In (w_To ?w) apia_2011)) 1"
  note ev = d29_def last_def startOfDay_def AddDate_def In_def apia_2011_def utc_day_def at_instant_def offset_at_def
    lookup_def Date_def wall_def After_def
    days_of_civil_def days_before_year_def days_before_month_def leap_day_def is_leap_def
  have stuck: "AddDate apia_2011 d29 1 = d29" "\<not> After d29 last" by (simp_all add: ev)
  have start: "AddDate apia_2011 (AddDate apia_2011 d29 (- 1)) 1 = d29" "\<not> After (AddDate apia_2011 d29 (- 1)) last"
    by (simp_all add: ev)
  have "planned_loop apia_2011 ?s ?w last (AddDate apia_2011 d29 (- 1)) 0 = None"
    using start by (subst planned_loop.simps) (simp add: planned_loop_stuck [OF stuck])
  moreover have "After (w_To ?w) (w_From ?w)" by (simp add: ev)
  ultimately show ?thesis
    by (simp add: PlannedProductionTime_def shift_location_def d29_def last_def Let_def)
qed

end
