(* ===== verification/Availability_Calc.thy ===== *)
theory Availability_Calc
  imports OEE_Planned Go_Float
begin

section \<open>Availability (oee/availability/domain)\<close>

text \<open>
  \<open>interval.go\<close>, \<open>transition.go\<close>, \<open>snapshot.go\<close> and \<open>calculator.go\<close>: state intervals,
  the downtime they amount to in a window, and the availability ratio. Durations are 64-bit and
  wrap; the ratio is a \<open>float64\<close>.
\<close>

subsection \<open>Intervals, transitions and snapshots\<close>

record StateInterval =
  iv_MachineID :: string
  iv_State :: MachineState
  iv_StartedAt :: gotime
  iv_EndedAt :: "gotime option"
  iv_Reason :: string

definition IsOpen :: "StateInterval \<Rightarrow> bool" where
  "IsOpen s \<longleftrightarrow> iv_EndedAt s = None"

record StateTransition =
  tr_MachineID :: string
  tr_State :: MachineState
  tr_PreviousState :: MachineState
  tr_Reason :: string
  tr_Timestamp :: gotime

record SnapshotFlags =
  sf_ShiftConfigMissing :: bool
  sf_OpenIntervalClipped :: bool
  sf_NoData :: bool

record AvailabilitySnapshot =
  sn_MachineID :: string
  sn_WindowFrom :: gotime
  sn_WindowTo :: gotime
  sn_Availability :: float64
  sn_PlannedTime :: duration
  sn_RunTime :: duration
  sn_PlannedDowntime :: duration
  sn_UnplannedDowntime :: duration
  sn_IntervalCount :: int
  sn_HasData :: bool
  sn_ComputedAt :: gotime
  sn_Flags :: SnapshotFlags

subsection \<open>The calculator (calculator.go)\<close>

record Input =
  in_PlannedProductionTime :: duration
  in_PlannedDowntime :: duration
  in_UnplannedDowntime :: duration
  in_IntervalCount :: int

record Result =
  rs_Availability :: float64
  rs_PlannedTime :: duration
  rs_RunTime :: duration
  rs_PlannedDowntime :: duration
  rs_UnplannedDowntime :: duration
  rs_HasData :: bool

text \<open>The part of an interval inside the window, as Aggregate clips it.\<close>

definition clip_start :: "Window \<Rightarrow> StateInterval \<Rightarrow> gotime" where
  "clip_start w iv = (if Before (iv_StartedAt iv) (w_From w) then w_From w else iv_StartedAt iv)"

definition clip_end :: "Window \<Rightarrow> StateInterval \<Rightarrow> gotime" where
  "clip_end w iv = (case iv_EndedAt iv of
     None \<Rightarrow> w_To w
   | Some e \<Rightarrow> if Before e (w_To w) then e else w_To w)"

fun aggregate_loop :: "Window \<Rightarrow> duration \<Rightarrow> duration \<Rightarrow> int \<Rightarrow> StateInterval list \<Rightarrow> duration \<times> duration \<times> int" where
  "aggregate_loop w plannedDown unplannedDown count [] = (plannedDown, unplannedDown, count)"
| "aggregate_loop w plannedDown unplannedDown count (iv # intervals) =
     (if \<not> After (clip_end w iv) (clip_start w iv) then aggregate_loop w plannedDown unplannedDown count intervals
      else let dur = time_sub (clip_end w iv) (clip_start w iv)
           in if IsDowntime (iv_State iv) then
                if IsPlannedStop (iv_State iv)
                then aggregate_loop w (wrap64 (plannedDown + dur)) unplannedDown (count + 1) intervals
                else aggregate_loop w plannedDown (wrap64 (unplannedDown + dur)) (count + 1) intervals
              else aggregate_loop w plannedDown unplannedDown (count + 1) intervals)"

definition Aggregate :: "Window \<Rightarrow> StateInterval list \<Rightarrow> duration \<Rightarrow> Input" where
  "Aggregate w intervals planned =
     (case aggregate_loop w 0 0 0 intervals of (plannedDown, unplannedDown, count) \<Rightarrow>
        \<lparr>in_PlannedProductionTime = planned, in_PlannedDowntime = plannedDown,
         in_UnplannedDowntime = unplannedDown, in_IntervalCount = count\<rparr>)"

definition Availability :: "Input \<Rightarrow> Result" where
  "Availability i =
     (if in_PlannedProductionTime i = 0
      then \<lparr>rs_Availability = 0, rs_PlannedTime = 0, rs_RunTime = 0, rs_PlannedDowntime = 0,
            rs_UnplannedDowntime = 0, rs_HasData = False\<rparr>
      else let downtime = wrap64 (in_PlannedDowntime i + in_UnplannedDowntime i);
               runTime = max (wrap64 (in_PlannedProductionTime i - downtime)) 0;
               avail = float64_div (float64_of_int runTime) (float64_of_int (in_PlannedProductionTime i))
           in \<lparr>rs_Availability = (if avail > 1 then 1 else avail),
               rs_PlannedTime = in_PlannedProductionTime i, rs_RunTime = runTime,
               rs_PlannedDowntime = in_PlannedDowntime i, rs_UnplannedDowntime = in_UnplannedDowntime i,
               rs_HasData = True\<rparr>)"

subsection \<open>Downtime is a number of nanoseconds\<close>

text \<open>The instants of the window that an interval covers, and those in which the machine was in a
  state of some kind.\<close>

definition covered :: "Window \<Rightarrow> StateInterval \<Rightarrow> int set" where
  "covered w iv = ivl (clip_start w iv) (clip_end w iv)"

definition spent :: "(MachineState \<Rightarrow> bool) \<Rightarrow> Window \<Rightarrow> StateInterval list \<Rightarrow> int set" where
  "spent P w ivs = (\<Union>iv\<in>{iv\<in>set ivs. P (iv_State iv)}. covered w iv)"

text \<open>Intervals in order, each ended by the time the next ones start.\<close>

definition ends_before :: "StateInterval \<Rightarrow> StateInterval \<Rightarrow> bool" where
  "ends_before a b \<longleftrightarrow> (case iv_EndedAt a of None \<Rightarrow> False | Some e \<Rightarrow> tm_ns e \<le> tm_ns (iv_StartedAt b))"

definition chained :: "StateInterval list \<Rightarrow> bool" where
  "chained ivs \<longleftrightarrow> sorted_wrt ends_before ivs"

definition unplanned_stop :: "MachineState \<Rightarrow> bool" where
  "unplanned_stop s \<longleftrightarrow> IsDowntime s \<and> \<not> IsPlannedStop s"

lemma covered_iff:
  "t \<in> covered w iv \<longleftrightarrow> tm_ns (w_From w) \<le> t \<and> t < tm_ns (w_To w) \<and> tm_ns (iv_StartedAt iv) \<le> t \<and>
     (case iv_EndedAt iv of None \<Rightarrow> True | Some e \<Rightarrow> t < tm_ns e)"
  by (auto simp: covered_def ivl_def clip_start_def clip_end_def Before_def split: option.splits)

lemma covered_sub: "covered w iv \<subseteq> ivl (w_From w) (w_To w)"
  by (auto simp: covered_iff ivl_def)

lemma covered_empty_iff: "covered w iv = {} \<longleftrightarrow> \<not> After (clip_end w iv) (clip_start w iv)"
  by (auto simp: covered_def ivl_def After_def)

lemma covered_disjoint: "ends_before a b \<Longrightarrow> covered w a \<inter> covered w b = {}"
  by (auto simp: covered_iff ends_before_def split: option.splits)

lemma spent_Nil [simp]: "spent P w [] = {}"
  by (simp add: spent_def)

lemma spent_Cons: "spent P w (iv # ivs) = (if P (iv_State iv) then covered w iv else {}) \<union> spent P w ivs"
  by (auto simp: spent_def)

lemma spent_sub: "spent P w ivs \<subseteq> ivl (w_From w) (w_To w)"
  using covered_sub by (fastforce simp: spent_def)

lemma finite_spent [simp]: "finite (spent P w ivs)"
  by (rule finite_subset [OF spent_sub]) simp

lemma finite_covered [simp]: "finite (covered w iv)"
  by (simp add: covered_def)

lemma covered_spent_disjoint: "chained (iv # ivs) \<Longrightarrow> covered w iv \<inter> spent P w ivs = {}"
  using covered_disjoint [of iv _ w] by (fastforce simp: chained_def spent_def)

lemma card_spent_Cons:
  "chained (iv # ivs) \<Longrightarrow> card (spent P w (iv # ivs)) = (if P (iv_State iv) then card (covered w iv) else 0) + card (spent P w ivs)"
  using covered_spent_disjoint by (simp add: spent_Cons card_Un_disjoint)

lemma spent_disjoint:
  "chained ivs \<Longrightarrow> (\<And>s. P s \<Longrightarrow> \<not> Q s) \<Longrightarrow> spent P w ivs \<inter> spent Q w ivs = {}"
proof (induction ivs)
  case (Cons iv ivs)
  then have "spent P w ivs \<inter> spent Q w ivs = {}" by (simp add: chained_def)
  with Cons.prems covered_spent_disjoint [OF Cons.prems(1), of w P] covered_spent_disjoint [OF Cons.prems(1), of w Q]
  show ?case by (auto simp: spent_Cons)
qed simp

lemma fits64_window_card:
  "fits64 (tm_ns (w_To w) - tm_ns (w_From w)) \<Longrightarrow> A \<subseteq> ivl (w_From w) (w_To w) \<Longrightarrow> fits64 (int (card A))"
  by (rule fits64_card)

lemma time_sub_covered:
  assumes "fits64 (tm_ns (w_To w) - tm_ns (w_From w))" "After (clip_end w iv) (clip_start w iv)"
  shows "time_sub (clip_end w iv) (clip_start w iv) = int (card (covered w iv))"
proof -
  have "fits64 (int (card (covered w iv)))" using fits64_window_card [OF assms(1) covered_sub] .
  with assms(2) card_ivl [of "clip_start w iv" "clip_end w iv"] show ?thesis
    by (simp add: covered_def time_sub_def)
qed

text \<open>What the loop adds up, without wrap-around.\<close>

lemma aggregate_loop_spent:
  assumes fits: "fits64 (tm_ns (w_To w) - tm_ns (w_From w))"
  shows "chained ivs \<Longrightarrow>
    0 \<le> p \<Longrightarrow> 0 \<le> u \<Longrightarrow> fits64 (p + int (card (spent IsPlannedStop w ivs))) \<Longrightarrow> fits64 (u + int (card (spent unplanned_stop w ivs))) \<Longrightarrow>
    aggregate_loop w p u c ivs =
      (p + int (card (spent IsPlannedStop w ivs)), u + int (card (spent unplanned_stop w ivs)),
       c + int (length (filter (\<lambda>iv. covered w iv \<noteq> {}) ivs)))"
proof (induction ivs arbitrary: p u c)
  case (Cons iv ivs)
  note cs = card_spent_Cons [OF Cons.prems(1)]
  have ch: "chained ivs" using Cons.prems(1) by (simp add: chained_def)
  show ?case
  proof (cases "After (clip_end w iv) (clip_start w iv)")
    case False
    then have e: "covered w iv = {}" by (simp add: covered_empty_iff)
    then have "spent P w (iv # ivs) = spent P w ivs" for P by (simp add: spent_Cons)
    with e False Cons.prems ch show ?thesis by (simp add: Cons.IH)
  next
    case True
    then have ne: "covered w iv \<noteq> {}" by (simp add: covered_empty_iff)
    have dur: "time_sub (clip_end w iv) (clip_start w iv) = int (card (covered w iv))"
      by (rule time_sub_covered [OF fits True])
    consider (planned) "IsPlannedStop (iv_State iv)" "IsDowntime (iv_State iv)" "\<not> unplanned_stop (iv_State iv)"
      | (unplanned) "unplanned_stop (iv_State iv)" "IsDowntime (iv_State iv)" "\<not> IsPlannedStop (iv_State iv)"
      | (other) "\<not> IsDowntime (iv_State iv)" "\<not> IsPlannedStop (iv_State iv)" "\<not> unplanned_stop (iv_State iv)"
      using IsPlannedStop_IsDowntime unplanned_stop_def by blast
    then show ?thesis
    proof cases
      case planned
      have "fits64 (p + int (card (covered w iv)))"
        using Cons.prems(4) by (rule fits64_shrink) (use Cons.prems(2) planned in \<open>simp_all add: cs\<close>)
      then show ?thesis using planned True ne ch Cons.prems by (simp add: cs dur Cons.IH add.assoc)
    next
      case unplanned
      have "fits64 (u + int (card (covered w iv)))"
        using Cons.prems(5) by (rule fits64_shrink) (use Cons.prems(3) unplanned in \<open>simp_all add: cs\<close>)
      then show ?thesis using unplanned True ne ch Cons.prems by (simp add: cs dur Cons.IH add.assoc)
    next
      case other
      then show ?thesis using True ne ch Cons.prems by (simp add: cs Cons.IH)
    qed
  qed
qed simp

lemma Aggregate_spent:
  assumes "chained ivs" "fits64 (tm_ns (w_To w) - tm_ns (w_From w))"
  shows "Aggregate w ivs planned =
    \<lparr>in_PlannedProductionTime = planned,
     in_PlannedDowntime = int (card (spent IsPlannedStop w ivs)),
     in_UnplannedDowntime = int (card (spent unplanned_stop w ivs)),
     in_IntervalCount = int (length (filter (\<lambda>iv. covered w iv \<noteq> {}) ivs))\<rparr>"
  using aggregate_loop_spent [OF assms(2,1), of 0 0 0] fits64_window_card [OF assms(2) spent_sub]
  by (simp add: Aggregate_def)

lemma card_downtime:
  assumes "chained ivs"
  shows "card (spent IsPlannedStop w ivs) + card (spent unplanned_stop w ivs) = card (spent IsDowntime w ivs)"
proof -
  have "spent IsDowntime w ivs = spent IsPlannedStop w ivs \<union> spent unplanned_stop w ivs"
    using IsPlannedStop_IsDowntime by (auto simp: spent_def unplanned_stop_def)
  moreover have "spent IsPlannedStop w ivs \<inter> spent unplanned_stop w ivs = {}"
    by (rule spent_disjoint [OF assms]) (simp add: unplanned_stop_def)
  ultimately show ?thesis by (simp add: card_Un_disjoint)
qed

subsection \<open>The ratio\<close>

lemma Availability_noplan: "in_PlannedProductionTime i = 0 \<Longrightarrow> rs_HasData (Availability i) = False \<and> rs_Availability (Availability i) = 0"
  by (simp add: Availability_def)

text \<open>With a positive planned time the clamp to 1 is never needed unless downtime is negative.\<close>

lemma Availability_ratio:
  assumes "0 < in_PlannedProductionTime i" "fits64 (in_PlannedProductionTime i)"
    "0 \<le> in_PlannedDowntime i" "0 \<le> in_UnplannedDowntime i" "fits64 (in_PlannedDowntime i + in_UnplannedDowntime i)"
  defines "run \<equiv> max (in_PlannedProductionTime i - (in_PlannedDowntime i + in_UnplannedDowntime i)) 0"
  shows "Availability i =
    \<lparr>rs_Availability = float64_div (float64_of_int run) (float64_of_int (in_PlannedProductionTime i)),
     rs_PlannedTime = in_PlannedProductionTime i, rs_RunTime = run,
     rs_PlannedDowntime = in_PlannedDowntime i, rs_UnplannedDowntime = in_UnplannedDowntime i, rs_HasData = True\<rparr>"
proof -
  let ?p = "in_PlannedProductionTime i" and ?d = "in_PlannedDowntime i + in_UnplannedDowntime i"
  have d: "0 \<le> ?d" using assms by simp
  have "fits64 (?p - ?d)" using assms(1,2,5) d by (simp add: fits64_def)
  then have run: "max (wrap64 (?p - wrap64 ?d)) 0 = run" using assms(5) by (simp add: run_def)
  have "0 \<le> run" "run \<le> ?p" using assms(1) d by (simp_all add: run_def)
  then have "float64_div (float64_of_int run) (float64_of_int ?p) \<le> 1"
    using assms(1) by (intro float64_div_le_1) (simp_all add: float64_of_int_nonneg float64_of_int_mono float64_of_int_pos)
  with assms(1) run show ?thesis by (simp add: Availability_def Let_def)
qed

lemma Availability_in_range:
  assumes "0 < in_PlannedProductionTime i"
  shows "0 \<le> rs_Availability (Availability i)" "rs_Availability (Availability i) \<le> 1"
  using assms float64_div_nonneg [OF float64_of_int_nonneg float64_of_int_pos [OF assms]]
  by (auto simp: Availability_def Let_def)

lemma Availability_err:
  assumes "0 < in_PlannedProductionTime i" "fits64 (in_PlannedProductionTime i)"
    "0 \<le> in_PlannedDowntime i" "0 \<le> in_UnplannedDowntime i" "fits64 (in_PlannedDowntime i + in_UnplannedDowntime i)"
  shows "\<bar>rs_Availability (Availability i) - of_int (rs_RunTime (Availability i)) / of_int (in_PlannedProductionTime i)\<bar> \<le> 1 / 2 ^ 51"
proof -
  define p run where "p = in_PlannedProductionTime i"
    and "run = max (in_PlannedProductionTime i - (in_PlannedDowntime i + in_UnplannedDowntime i)) 0"
  note r = Availability_ratio [OF assms, folded run_def p_def]
  have run: "0 \<le> run" "run \<le> p" "0 < p" using assms by (simp_all add: run_def p_def)
  have "of_int run / of_int p \<le> (1 :: rat)" using run by simp
  then have "of_int run / of_int p / 2 ^ 51 \<le> (1 / 2 ^ 51 :: rat)" by simp
  then show ?thesis using float64_ratio_err [OF run(1,3)] by (simp add: r p_def)
qed

subsection \<open>Claims\<close>

definition at_min :: "int \<Rightarrow> gotime" where
  "at_min m = \<lparr>tm_ns = m * minute, tm_off = 0\<rparr>"

definition example_intervals :: "StateInterval list" where
  "example_intervals =
     [\<lparr>iv_MachineID = ''m1'', iv_State = Running, iv_StartedAt = at_min 0, iv_EndedAt = Some (at_min 60), iv_Reason = []\<rparr>,
      \<lparr>iv_MachineID = ''m1'', iv_State = Stopped, iv_StartedAt = at_min 60, iv_EndedAt = Some (at_min 77), iv_Reason = []\<rparr>,
      \<lparr>iv_MachineID = ''m1'', iv_State = Setup, iv_StartedAt = at_min 77, iv_EndedAt = Some (at_min 107), iv_Reason = []\<rparr>,
      \<lparr>iv_MachineID = ''m1'', iv_State = Running, iv_StartedAt = at_min 107, iv_EndedAt = None, iv_Reason = []\<rparr>]"

text \<open>C22. For consecutive intervals the aggregate counts every nanosecond of the window exactly
  once: planned downtime is the number of nanoseconds in setup or maintenance, unplanned downtime
  of those in other downtime states, together they are the nanoseconds of downtime and at most the
  length of the window; intervals outside the window are not counted.\<close>

theorem aggregate_counts_downtime:
  assumes "chained ivs" "fits64 (tm_ns (w_To w) - tm_ns (w_From w))"
  shows "in_PlannedDowntime (Aggregate w ivs planned) = int (card (spent IsPlannedStop w ivs)) \<and>
    in_UnplannedDowntime (Aggregate w ivs planned) = int (card (spent unplanned_stop w ivs)) \<and>
    in_PlannedDowntime (Aggregate w ivs planned) + in_UnplannedDowntime (Aggregate w ivs planned) = int (card (spent IsDowntime w ivs)) \<and>
    card (spent IsDowntime w ivs) \<le> card (ivl (w_From w) (w_To w)) \<and>
    in_IntervalCount (Aggregate w ivs planned) = int (length (filter (\<lambda>iv. covered w iv \<noteq> {}) ivs))"
  using Aggregate_spent [OF assms] card_downtime [OF assms(1), of w] card_mono [OF _ spent_sub, of w IsDowntime ivs]
  by simp

theorem aggregate_counts_downtime_witness:
  "in_PlannedDowntime (Aggregate \<lparr>w_From = at_min 0, w_To = at_min 420\<rparr> example_intervals (420 * minute)) = 30 * minute \<and>
   card (spent IsDowntime \<lparr>w_From = at_min 0, w_To = at_min 420\<rparr> example_intervals) = 47 * 60000000000"
proof -
  let ?w = "\<lparr>w_From = at_min 0, w_To = at_min 420\<rparr>"
  have "in_PlannedDowntime (Aggregate ?w example_intervals (420 * minute)) +
      in_UnplannedDowntime (Aggregate ?w example_intervals (420 * minute)) = int (card (spent IsDowntime ?w example_intervals))"
    using aggregate_counts_downtime [of example_intervals ?w "420 * minute"]
    by (simp add: chained_def example_intervals_def ends_before_def at_min_def minute_def second_def fits64_def)
  moreover have "in_PlannedDowntime (Aggregate ?w example_intervals (420 * minute)) = 30 * minute \<and>
      in_UnplannedDowntime (Aggregate ?w example_intervals (420 * minute)) = 17 * minute"
    by (simp add: Aggregate_def example_intervals_def clip_start_def clip_end_def time_order at_min_def minute_def second_def
        time_sub_def sat64_def wrap64_def IsDowntime_def IsPlannedStop_def machine_states)
  ultimately show ?thesis by (simp add: minute_def second_def)
qed

text \<open>C27. With planned time the availability is a number from 0 to 1 within \<open>2 powi (-51)\<close> of the
  exact ratio of run time to planned time, run time is planned time less downtime and never
  negative, and a machine without downtime has availability 1 exactly.\<close>

theorem availability_accurate:
  assumes "0 < in_PlannedProductionTime i" "fits64 (in_PlannedProductionTime i)"
    "0 \<le> in_PlannedDowntime i" "0 \<le> in_UnplannedDowntime i" "fits64 (in_PlannedDowntime i + in_UnplannedDowntime i)"
  shows "rs_HasData (Availability i) \<and>
    0 \<le> rs_Availability (Availability i) \<and> rs_Availability (Availability i) \<le> 1 \<and>
    rs_RunTime (Availability i) = max (in_PlannedProductionTime i - (in_PlannedDowntime i + in_UnplannedDowntime i)) 0 \<and>
    \<bar>rs_Availability (Availability i) - of_int (rs_RunTime (Availability i)) / of_int (rs_PlannedTime (Availability i))\<bar> \<le> 1 / 2 ^ 51 \<and>
    (in_PlannedDowntime i + in_UnplannedDowntime i = 0 \<longrightarrow> rs_Availability (Availability i) = 1)"
proof -
  note r = Availability_ratio [OF assms]
  have "rs_Availability (Availability i) = 1" if "in_PlannedDowntime i + in_UnplannedDowntime i = 0"
    using that assms(1) float64_div_self [OF float64_of_int_pos [OF assms(1)]] by (simp add: r)
  moreover have "rs_HasData (Availability i)" "rs_PlannedTime (Availability i) = in_PlannedProductionTime i"
    "rs_RunTime (Availability i) = max (in_PlannedProductionTime i - (in_PlannedDowntime i + in_UnplannedDowntime i)) 0"
    by (simp_all add: r)
  ultimately show ?thesis using Availability_err [OF assms] Availability_in_range [OF assms(1)] by metis
qed

theorem availability_accurate_witness:
  "\<bar>rs_Availability (Availability \<lparr>in_PlannedProductionTime = 420 * minute, in_PlannedDowntime = 30 * minute,
      in_UnplannedDowntime = 17 * minute, in_IntervalCount = 4\<rparr>) - 373 / 420\<bar> \<le> 1 / 2 ^ 51"
  using availability_accurate [of "\<lparr>in_PlannedProductionTime = 420 * minute, in_PlannedDowntime = 30 * minute,
      in_UnplannedDowntime = 17 * minute, in_IntervalCount = 4\<rparr>"]
  by (simp add: Availability_def Let_def minute_def second_def fits64_def wrap64_def)

end
