(* ===== verification/Message.thy ===== *)
theory Message
  imports Go_Time
begin

section \<open>Messages and channels (common/message)\<close>

text \<open>
  The value object that crosses the module borders, and the FIFO discipline of the Go channels
  that carry it. A buffered channel is the list of the values in its buffer, oldest first, and its
  capacity: a send waits while the buffer is full, a receive takes the head. With capacity 0 a
  send and a receive happen together (\<open>handoff\<close>).
\<close>

record message =
  msg_ClientID :: string
  msg_Topic :: string
  msg_Payload :: bytes
  msg_Timezone :: string
  msg_Timestamp :: gotime

definition of_topic :: "string \<Rightarrow> message list \<Rightarrow> message list" where
  "of_topic t ms = filter (\<lambda>m. msg_Topic m = t) ms"

lemma of_topic_simps [simp]:
  "of_topic t [] = []"
  "of_topic t (m # ms) = (if msg_Topic m = t then m # of_topic t ms else of_topic t ms)"
  "of_topic t (ms @ ns) = of_topic t ms @ of_topic t ns"
  by (simp_all add: of_topic_def)

text \<open>The contract of a bounded FIFO buffer: what it holds, in which order, and when it has room.\<close>

locale fifo_buffer =
  fixes contents :: "'q \<Rightarrow> 'a list"
    and capacity :: "'q \<Rightarrow> nat"
    and send :: "'q \<Rightarrow> 'a \<Rightarrow> 'q option"
    and receive :: "'q \<Rightarrow> ('a \<times> 'q) option"
  assumes send_room: "length (contents q) < capacity q \<Longrightarrow>
      \<exists>q'. send q x = Some q' \<and> contents q' = contents q @ [x] \<and> capacity q' = capacity q"
    and send_full: "capacity q \<le> length (contents q) \<Longrightarrow> send q x = None"
    and receive_Nil: "contents q = [] \<Longrightarrow> receive q = None"
    and receive_Cons: "contents q = x # xs \<Longrightarrow>
      \<exists>q'. receive q = Some (x, q') \<and> contents q' = xs \<and> capacity q' = capacity q"
begin

lemma send_Some:
  assumes "send q x = Some q'"
  shows "contents q' = contents q @ [x] \<and> capacity q' = capacity q \<and> length (contents q') \<le> capacity q'"
proof -
  have "length (contents q) < capacity q"
    using assms send_full [of q x] by (cases "length (contents q) < capacity q") auto
  with send_room [of q x] assms show ?thesis by auto
qed

lemma receive_Some: "receive q = Some (x, q') \<Longrightarrow> contents q = x # contents q' \<and> capacity q' = capacity q"
  using receive_Nil [of q] receive_Cons [of q] by (cases "contents q") fastforce+

text \<open>First in, first out: receiving until the buffer is empty gives what was sent, in order.\<close>

lemma send_then_receive:
  "send q x = Some q1 \<Longrightarrow> receive q1 = Some (y, q2) \<Longrightarrow> contents q @ [x] = y # contents q2"
  using send_Some [of q x q1] receive_Some [of q1 y q2] by simp

end

record 'a chan =
  ch_buf :: "'a list"
  ch_cap :: nat

definition make_chan :: "nat \<Rightarrow> 'a chan" where
  "make_chan n = \<lparr>ch_buf = [], ch_cap = n\<rparr>"

definition chan_send :: "'a chan \<Rightarrow> 'a \<Rightarrow> 'a chan option" where
  "chan_send c x = (if length (ch_buf c) < ch_cap c then Some (c\<lparr>ch_buf := ch_buf c @ [x]\<rparr>) else None)"

definition chan_recv :: "'a chan \<Rightarrow> ('a \<times> 'a chan) option" where
  "chan_recv c = (case ch_buf c of [] \<Rightarrow> None | x # xs \<Rightarrow> Some (x, c\<lparr>ch_buf := xs\<rparr>))"

interpretation go_chan: fifo_buffer ch_buf ch_cap chan_send chan_recv
  by unfold_locales (auto simp: chan_send_def chan_recv_def)

lemmas chan_send_Some = go_chan.send_Some
lemmas chan_recv_Some = go_chan.receive_Some

lemma make_chan_sel [simp]: "ch_buf (make_chan n) = []" "ch_cap (make_chan n) = n"
  by (simp_all add: make_chan_def)

definition chan_ok :: "'a chan \<Rightarrow> bool" where
  "chan_ok c \<longleftrightarrow> length (ch_buf c) \<le> ch_cap c"

lemma chan_ok_make [simp]: "chan_ok (make_chan n)"
  by (simp add: chan_ok_def)

lemma chan_ok_send: "chan_send c x = Some c' \<Longrightarrow> chan_ok c'"
  using chan_send_Some [of c x c'] unfolding chan_ok_def by blast

lemma chan_ok_recv: "chan_recv c = Some (x, c') \<Longrightarrow> chan_ok c \<Longrightarrow> chan_ok c'"
  using chan_recv_Some [of c x c'] by (simp add: chan_ok_def)

end
