(* ===== verification/Raw_Store.thy ===== *)
theory Raw_Store
  imports Message Go_Calendar
begin

section \<open>The raw message store and its audit queries\<close>

text \<open>
  \<open>platform/database/ingestion\<close> writes every message to the SQLite table \<open>raw_data\<close>, and the
  two audit features read the table by topic. SQLite is reached through \<open>database/sql\<close>; the model
  of it is what the code relies on: a table is the list of its rows in the order of their
  \<open>AUTOINCREMENT\<close> keys, an INSERT appends, a transaction that does not commit leaves no trace, and
  any statement can fail. Which statement fails is an argument (\<open>tx_fault\<close>, \<open>query_fault\<close>), so the
  theorems hold for every pattern of failures. The methods hold the repository's mutex, hence are
  atomic.
\<close>

subsection \<open>The store's contract\<close>

text \<open>
  An append-only store: a save that succeeds adds one message at the end, one that fails changes
  nothing. \<open>contents\<close> is what was saved, oldest first. The rows and the counts that the queries
  report by topic follow from the laws, for any sequence of saves with any failures.
\<close>

fun save_all :: "('f \<Rightarrow> 's \<Rightarrow> 'm \<Rightarrow> 'e option \<times> 's) \<Rightarrow> 's \<Rightarrow> ('f \<times> 'm) list \<Rightarrow> 's" where
  "save_all save s [] = s"
| "save_all save s ((f, m) # ms) = save_all save (snd (save f s m)) ms"

locale append_store =
  fixes contents :: "'s \<Rightarrow> 'r list"
    and as_row :: "'m \<Rightarrow> 'r"
    and ok :: "'f \<Rightarrow> bool"
    and save :: "'f \<Rightarrow> 's \<Rightarrow> 'm \<Rightarrow> 'e option \<times> 's"
  assumes save_ok: "ok f \<Longrightarrow> fst (save f s m) = None \<and> contents (snd (save f s m)) = contents s @ [as_row m]"
    and save_fail: "\<not> ok f \<Longrightarrow> fst (save f s m) \<noteq> None \<and> snd (save f s m) = s"
begin

lemma save_None_iff: "fst (save f s m) = None \<longleftrightarrow> ok f"
  using save_ok [of f s m] save_fail [of f s m] by blast

text \<open>The store holds exactly the messages whose save succeeded, in order.\<close>

lemma contents_save_all:
  "contents (save_all save s ms) = contents s @ map (as_row \<circ> snd) (filter (ok \<circ> fst) ms)"
proof (induction ms arbitrary: s)
  case (Cons fm ms)
  obtain f m where "fm = (f, m)" by (cases fm)
  with Cons save_ok [of f s m] save_fail [of f s m] show ?case by (cases "ok f") auto
qed simp

lemma contents_prefix: "\<exists>new. contents (save_all save s ms) = contents s @ new"
  by (simp add: contents_save_all)

end

subsection \<open>Saving (platform/database/ingestion/repository.go)\<close>

datatype tx_fault = NoFault | BeginFails | ExecFails | CommitFails

record raw_row =
  rr_client :: string
  rr_topic :: string
  rr_timezone :: string
  rr_timestamp :: string
  rr_payload :: string

type_synonym raw_table = "raw_row list"

datatype store_error = ErrStoreFailure string

definition raw_row_of :: "message \<Rightarrow> raw_row" where
  "raw_row_of msg =
     \<lparr>rr_client = msg_ClientID msg, rr_topic = msg_Topic msg, rr_timezone = msg_Timezone msg,
      rr_timestamp = FormatRFC3339Nano (msg_Timestamp msg), rr_payload = string_of_bytes (msg_Payload msg)\<rparr>"

text \<open>\<open>tx\<close> is the table as the transaction sees it; only \<open>Commit\<close> makes it the table.\<close>

definition SaveRawData :: "tx_fault \<Rightarrow> raw_table \<Rightarrow> message \<Rightarrow> store_error option \<times> raw_table" where
  "SaveRawData fault db msg =
     (if fault = BeginFails then (Some (ErrStoreFailure ''begin tx''), db)
      else if fault = ExecFails then (Some (ErrStoreFailure ''insert''), db)
      else let tx = db @ [raw_row_of msg]
           in if fault = CommitFails then (Some (ErrStoreFailure ''commit''), db) else (None, tx))"

interpretation raw_store: append_store "\<lambda>db. db" raw_row_of "\<lambda>f. f = NoFault" SaveRawData
proof unfold_locales
  show "fst (SaveRawData f s m) = None \<and> snd (SaveRawData f s m) = s @ [raw_row_of m]" if "f = NoFault" for f s m
    using that by (simp add: SaveRawData_def)
  show "fst (SaveRawData f s m) \<noteq> None \<and> snd (SaveRawData f s m) = s" if "f \<noteq> NoFault" for f s m
    using that by (cases f) (simp_all add: SaveRawData_def)
qed

subsection \<open>Reading messages back (platform/database/ingestion/repository.go)\<close>

datatype query_fault = QueryOk | QueryFails

datatype read_error = QueryError | ParseTimestampError string

definition message_of_row :: "raw_row \<Rightarrow> message option" where
  "message_of_row r =
     (case ParseRFC3339 (rr_timestamp r) of
        None \<Rightarrow> None
      | Some ts \<Rightarrow>
          Some \<lparr>msg_ClientID = rr_client r, msg_Topic = rr_topic r, msg_Payload = bytes_of_string (rr_payload r),
                msg_Timezone = rr_timezone r, msg_Timestamp = ts\<rparr>)"

fun scan_messages :: "raw_row list \<Rightarrow> read_error + message list" where
  "scan_messages [] = Inr []"
| "scan_messages (r # rows) =
     (case message_of_row r of
        None \<Rightarrow> Inl (ParseTimestampError (rr_timestamp r))
      | Some msg \<Rightarrow> (case scan_messages rows of Inl err \<Rightarrow> Inl err | Inr msgs \<Rightarrow> Inr (msg # msgs)))"

definition GetByTopic :: "query_fault \<Rightarrow> raw_table \<Rightarrow> string \<Rightarrow> read_error + message list" where
  "GetByTopic fault db topic =
     (if fault = QueryFails then Inl QueryError
      else scan_messages (filter (\<lambda>r. rr_topic r = topic) db))"

lemma message_of_row_of: "formattable (msg_Timestamp m) \<Longrightarrow> message_of_row (raw_row_of m) = Some m"
  by (simp add: message_of_row_def raw_row_of_def ParseRFC3339_Format)

lemma scan_messages_rows:
  "\<forall>m\<in>set ms. formattable (msg_Timestamp m) \<Longrightarrow> scan_messages (map raw_row_of ms) = Inr ms"
  by (induction ms) (simp_all add: message_of_row_of)

lemma filter_rows: "filter (\<lambda>r. rr_topic r = topic) (map raw_row_of ms) = map raw_row_of (of_topic topic ms)"
  by (induction ms) (simp_all add: raw_row_of_def)

lemma GetByTopic_rows:
  "\<forall>m\<in>set ms. formattable (msg_Timestamp m) \<Longrightarrow>
   GetByTopic QueryOk (map raw_row_of ms) topic = Inr (of_topic topic ms)"
  by (simp add: GetByTopic_def filter_rows scan_messages_rows of_topic_def)

subsection \<open>Audit queries (modules/audit)\<close>

datatype audit_error = ErrQueryFailed

record audit_record =
  ar_ClientID :: string
  ar_Topic :: string
  ar_Timezone :: string
  ar_Timestamp :: string
  ar_Payload :: string

definition audit_record_of :: "raw_row \<Rightarrow> audit_record" where
  "audit_record_of r =
     \<lparr>ar_ClientID = rr_client r, ar_Topic = rr_topic r, ar_Timezone = rr_timezone r,
      ar_Timestamp = rr_timestamp r, ar_Payload = rr_payload r\<rparr>"

definition audit_GetByTopic :: "query_fault \<Rightarrow> raw_table \<Rightarrow> string \<Rightarrow> audit_error + audit_record list" where
  "audit_GetByTopic fault db topic =
     (if fault = QueryFails then Inl ErrQueryFailed
      else Inr (map audit_record_of (filter (\<lambda>r. rr_topic r = topic) db)))"

definition CountByTopic :: "query_fault \<Rightarrow> raw_table \<Rightarrow> string \<Rightarrow> audit_error + int" where
  "CountByTopic fault db topic =
     (if fault = QueryFails then Inl ErrQueryFailed
      else Inr (int (length (filter (\<lambda>r. rr_topic r = topic) db))))"

definition get_Execute :: "query_fault \<Rightarrow> raw_table \<Rightarrow> string \<Rightarrow> audit_error + audit_record list" where
  "get_Execute fault db topic =
     (case audit_GetByTopic fault db topic of Inl err \<Rightarrow> Inl err | Inr records \<Rightarrow> Inr records)"

definition count_Execute :: "query_fault \<Rightarrow> raw_table \<Rightarrow> string \<Rightarrow> audit_error + int" where
  "count_Execute fault db topic =
     (case CountByTopic fault db topic of Inl err \<Rightarrow> Inl err | Inr n \<Rightarrow> Inr n)"

text \<open>The HTTP handlers: the status and the text of an error or, with 200, the value that is encoded.\<close>

datatype 'a http_response = HTTP_OK 'a | HTTP_BadRequest string | HTTP_InternalServerError string

definition getByTopic_handler :: "query_fault \<Rightarrow> raw_table \<Rightarrow> string \<Rightarrow> audit_record list http_response" where
  "getByTopic_handler fault db topic =
     (if topic = [] then HTTP_BadRequest ''{\"error\":\"topic is required\"}''
      else (case get_Execute fault db topic of
              Inl err \<Rightarrow> HTTP_InternalServerError ''{\"error\":\"internal server error\"}''
            | Inr records \<Rightarrow> HTTP_OK records))"

definition countByTopic_handler :: "query_fault \<Rightarrow> raw_table \<Rightarrow> string \<Rightarrow> int http_response" where
  "countByTopic_handler fault db topic =
     (if topic = [] then HTTP_BadRequest ''{\"error\":\"topic is required\"}''
      else (case count_Execute fault db topic of
              Inl err \<Rightarrow> HTTP_InternalServerError ''{\"error\":\"internal server error\"}''
            | Inr n \<Rightarrow> HTTP_OK n))"

lemmas audit_defs = getByTopic_handler_def countByTopic_handler_def get_Execute_def count_Execute_def
  audit_GetByTopic_def CountByTopic_def

subsection \<open>Properties\<close>

text \<open>
  Saving is atomic: for any sequence of saves with any failures, the table holds, after what
  it held before, exactly the messages whose save returned no error, in the order of the saves.
\<close>

theorem saves_are_atomic:
  "save_all SaveRawData db ms = db @ map (raw_row_of \<circ> snd) (filter (\<lambda>(f, m). f = NoFault) ms) \<and>
   (fst (SaveRawData f db m) = None \<longleftrightarrow> f = NoFault)"
  using raw_store.contents_save_all [of db ms] raw_store.save_None_iff [of f db m]
  by (simp add: comp_def split_def)

text \<open>
  Round trip: messages saved without a failure into an empty table are read back by
  \<open>GetByTopic\<close> unchanged, those of the topic and no other, in order; the payload's bytes and the
  time to the nanosecond, as long as the times have a four-digit year and a zone of whole minutes.
\<close>

theorem saved_messages_read_back:
  assumes "\<forall>m\<in>set ms. formattable (msg_Timestamp m)"
  shows "GetByTopic QueryOk (save_all SaveRawData [] (map (Pair NoFault) ms)) topic =
    Inr (filter (\<lambda>m. msg_Topic m = topic) ms)"
proof -
  have "save_all SaveRawData [] (map (Pair NoFault) ms) = map raw_row_of ms"
    using raw_store.contents_save_all [of "[]" "map (Pair NoFault) ms"] by (simp add: comp_def)
  with GetByTopic_rows [OF assms, of topic] show ?thesis by (simp add: of_topic_def)
qed

definition sample_message :: "string \<Rightarrow> byte \<Rightarrow> message" where
  "sample_message topic b =
     \<lparr>msg_ClientID = ''A'', msg_Topic = topic, msg_Payload = [b], msg_Timezone = ''UTC'',
      msg_Timestamp = \<lparr>tm_ns = 63000000000123000000, tm_off = - 10800\<rparr>\<rparr>"

theorem saved_messages_read_back_witness:
  "GetByTopic QueryOk (save_all SaveRawData [] (map (Pair NoFault)
     [sample_message ''t'' 1, sample_message ''u'' 2, sample_message ''t'' 3])) ''t'' =
   Inr [sample_message ''t'' 1, sample_message ''t'' 3]"
proof -
  have "formattable \<lparr>tm_ns = 63000000000123000000, tm_off = - 10800\<rparr>" by code_simp
  then have "\<forall>m\<in>set [sample_message ''t'' 1, sample_message ''u'' 2, sample_message ''t'' 3]. formattable (msg_Timestamp m)"
    by (simp add: sample_message_def)
  from saved_messages_read_back [OF this, of "''t''"] show ?thesis by (simp add: sample_message_def)
qed

text \<open>
  The two audit endpoints agree: on every table, topic and outcome of the query, the count
  endpoint reports the number of records the list endpoint returns, and both fail in the same cases
  (400 without a topic, 500 when the query fails).
\<close>

theorem audit_endpoints_agree:
  "countByTopic_handler fault db topic =
     (case getByTopic_handler fault db topic of
        HTTP_OK records \<Rightarrow> HTTP_OK (int (length records))
      | HTTP_BadRequest e \<Rightarrow> HTTP_BadRequest e
      | HTTP_InternalServerError e \<Rightarrow> HTTP_InternalServerError e)"
  by (simp add: audit_defs)

end
