(* ===== verification/Interval_Store.thy ===== *)
theory Interval_Store
  imports Availability_Calc Raw_Store "HOL-Library.List_Lexorder" "HOL-Library.Char_ord"
begin

section \<open>State intervals in the database (ingest-state/adapters/outbound/database)\<close>

text \<open>
  The table \<open>state_intervals\<close> is the list of its rows in the order of their keys; times are text,
  compared by SQLite byte by byte, which is the lexicographic order on strings. \<open>OpenInterval\<close>
  inserts, \<open>CloseOpen\<close> updates the open rows of a machine, each in a transaction that may fail at
  any statement (\<open>tx_fault\<close>); \<open>LastOpen\<close> reads. The interface \<open>IntervalStore\<close> of the use case is
  the locale \<open>interval_store\<close> at the end, with the laws the use case needs.
\<close>

subsection \<open>Rows and their intervals\<close>

record interval_row =
  ir_machine_id :: string
  ir_state :: string
  ir_is_downtime :: int
  ir_is_planned_stop :: int
  ir_started_at :: string
  ir_ended_at :: "string option"
  ir_reason :: string

type_synonym interval_table = "interval_row list"

datatype interval_error = IvBeginTx | IvInsert | IvUpdate | IvCommit | IvQuery | IvParseTimestamp

definition boolToInt :: "bool \<Rightarrow> int" where
  "boolToInt b = (if b then 1 else 0)"

text \<open>The columns that the INSERT does not name have the schema's defaults: no end, no reason.\<close>

definition OpenInterval :: "tx_fault \<Rightarrow> interval_table \<Rightarrow> string \<Rightarrow> MachineState \<Rightarrow> gotime \<Rightarrow> interval_error option \<times> interval_table" where
  "OpenInterval fault db machineID state startedAt =
     (if fault = BeginFails then (Some IvBeginTx, db)
      else if fault = ExecFails then (Some IvInsert, db)
      else let tx = db @ [\<lparr>ir_machine_id = machineID, ir_state = state,
                 ir_is_downtime = boolToInt (IsDowntime state), ir_is_planned_stop = boolToInt (IsPlannedStop state),
                 ir_started_at = FormatRFC3339Nano startedAt, ir_ended_at = None, ir_reason = []\<rparr>]
           in if fault = CommitFails then (Some IvCommit, db) else (None, tx))"

definition close_row :: "string \<Rightarrow> string \<Rightarrow> interval_row \<Rightarrow> interval_row" where
  "close_row machineID endedAt r =
     (if ir_machine_id r = machineID \<and> ir_ended_at r = None then r\<lparr>ir_ended_at := Some endedAt\<rparr> else r)"

definition CloseOpen :: "tx_fault \<Rightarrow> interval_table \<Rightarrow> string \<Rightarrow> gotime \<Rightarrow> interval_error option \<times> interval_table" where
  "CloseOpen fault db machineID endedAt =
     (if fault = BeginFails then (Some IvBeginTx, db)
      else if fault = ExecFails then (Some IvUpdate, db)
      else let tx = map (close_row machineID (FormatRFC3339Nano endedAt)) db
           in if fault = CommitFails then (Some IvCommit, db) else (None, tx))"

text \<open>\<open>ORDER BY started_at DESC LIMIT 1\<close>: a row with the greatest text. Which of several equal ones
  SQLite returns is not specified; here it is the oldest.\<close>

fun latest_row :: "interval_row list \<Rightarrow> interval_row option" where
  "latest_row [] = None"
| "latest_row (r # rows) =
     (case latest_row rows of
        None \<Rightarrow> Some r
      | Some r' \<Rightarrow> if ir_started_at r < ir_started_at r' then Some r' else Some r)"

definition LastOpen :: "query_fault \<Rightarrow> interval_table \<Rightarrow> string \<Rightarrow> interval_error + StateInterval option" where
  "LastOpen fault db machineID =
     (if fault = QueryFails then Inl IvQuery
      else case latest_row (filter (\<lambda>r. ir_machine_id r = machineID \<and> ir_ended_at r = None) db) of
        None \<Rightarrow> Inr None
      | Some r \<Rightarrow>
          (case ParseRFC3339 (ir_started_at r) of
             None \<Rightarrow> Inl IvParseTimestamp
           | Some ts \<Rightarrow> Inr (Some \<lparr>iv_MachineID = machineID, iv_State = ir_state r, iv_StartedAt = ts,
               iv_EndedAt = None, iv_Reason = ir_reason r\<rparr>)))"

subsection \<open>What the table stands for\<close>

definition parse_end :: "string option \<Rightarrow> gotime option option" where
  "parse_end e = (case e of None \<Rightarrow> Some None | Some s \<Rightarrow> map_option Some (ParseRFC3339 s))"

definition interval_of_row :: "interval_row \<Rightarrow> StateInterval option" where
  "interval_of_row r =
     (case (ParseRFC3339 (ir_started_at r), parse_end (ir_ended_at r)) of
        (Some ts, Some e) \<Rightarrow> Some \<lparr>iv_MachineID = ir_machine_id r, iv_State = ir_state r, iv_StartedAt = ts,
          iv_EndedAt = e, iv_Reason = ir_reason r\<rparr>
      | _ \<Rightarrow> None)"

definition row_ok :: "interval_row \<Rightarrow> bool" where
  "row_ok r \<longleftrightarrow> interval_of_row r \<noteq> None \<and>
     ir_is_downtime r = boolToInt (IsDowntime (ir_state r)) \<and> ir_is_planned_stop r = boolToInt (IsPlannedStop (ir_state r))"

definition table_ok :: "interval_table \<Rightarrow> bool" where
  "table_ok db \<longleftrightarrow> list_all row_ok db"

definition row_interval :: "interval_row \<Rightarrow> StateInterval" where
  "row_interval r = the (interval_of_row r)"

definition history :: "interval_table \<Rightarrow> string \<Rightarrow> StateInterval list" where
  "history db m = map row_interval (filter (\<lambda>r. ir_machine_id r = m) db)"

definition open_at :: "string \<Rightarrow> MachineState \<Rightarrow> gotime \<Rightarrow> StateInterval" where
  "open_at m st ts = \<lparr>iv_MachineID = m, iv_State = st, iv_StartedAt = ts, iv_EndedAt = None, iv_Reason = []\<rparr>"

definition end_at :: "gotime \<Rightarrow> StateInterval \<Rightarrow> StateInterval" where
  "end_at ts iv = (if IsOpen iv then iv\<lparr>iv_EndedAt := Some ts\<rparr> else iv)"

lemma history_MachineID: "table_ok db \<Longrightarrow> iv \<in> set (history db m) \<Longrightarrow> iv_MachineID iv = m"
  by (auto simp: history_def table_ok_def list_all_iff row_ok_def row_interval_def interval_of_row_def split: option.splits prod.splits)

lemma row_open_iff: "row_ok r \<Longrightarrow> IsOpen (row_interval r) \<longleftrightarrow> ir_ended_at r = None"
  by (auto simp: row_ok_def row_interval_def interval_of_row_def IsOpen_def parse_end_def split: option.splits)

lemma row_ok_close: "row_ok r \<Longrightarrow> formattable ts \<Longrightarrow> row_ok (close_row m (FormatRFC3339Nano ts) r)"
  by (auto simp: row_ok_def close_row_def interval_of_row_def parse_end_def ParseRFC3339_Format split: option.splits)

lemma row_interval_close:
  "row_ok r \<Longrightarrow> formattable ts \<Longrightarrow> ir_machine_id r = m \<Longrightarrow>
   row_interval (close_row m (FormatRFC3339Nano ts) r) = end_at ts (row_interval r)"
  by (auto simp: row_ok_def close_row_def row_interval_def interval_of_row_def parse_end_def ParseRFC3339_Format end_at_def IsOpen_def
      split: option.splits)

lemma close_row_machine [simp]: "ir_machine_id (close_row m e r) = ir_machine_id r"
  by (simp add: close_row_def)

lemma close_row_other: "ir_machine_id r \<noteq> m \<Longrightarrow> close_row m e r = r"
  by (simp add: close_row_def)

lemma history_close:
  assumes "table_ok db" "formattable ts"
  shows "history (map (close_row m (FormatRFC3339Nano ts)) db) m' = (if m' = m then map (end_at ts) (history db m) else history db m')"
proof -
  have f: "filter (\<lambda>r. ir_machine_id r = m') (map (close_row m e) db) = map (close_row m e) (filter (\<lambda>r. ir_machine_id r = m') db)" for e
    by (simp add: filter_map comp_def)
  show ?thesis
    using assms by (auto simp: history_def f table_ok_def list_all_iff row_interval_close close_row_other)
qed

lemma history_open:
  assumes "formattable ts"
  shows "history (db @ [\<lparr>ir_machine_id = m, ir_state = st, ir_is_downtime = a, ir_is_planned_stop = b,
      ir_started_at = FormatRFC3339Nano ts, ir_ended_at = None, ir_reason = []\<rparr>]) m' =
    (if m' = m then history db m @ [open_at m st ts] else history db m')"
  using assms by (simp add: history_def row_interval_def interval_of_row_def parse_end_def ParseRFC3339_Format open_at_def)

lemma table_ok_open:
  "table_ok db \<Longrightarrow> formattable ts \<Longrightarrow>
   table_ok (db @ [\<lparr>ir_machine_id = m, ir_state = st, ir_is_downtime = boolToInt (IsDowntime st),
      ir_is_planned_stop = boolToInt (IsPlannedStop st), ir_started_at = FormatRFC3339Nano ts, ir_ended_at = None, ir_reason = []\<rparr>])"
  by (simp add: table_ok_def row_ok_def interval_of_row_def parse_end_def ParseRFC3339_Format)

lemma latest_row_in: "latest_row rows = Some r \<Longrightarrow> r \<in> set rows"
  by (induction rows arbitrary: r) (auto split: option.splits if_splits)

lemma latest_row_None [simp]: "latest_row rows = None \<longleftrightarrow> rows = []"
  by (cases rows) (auto split: option.splits)

text \<open>If the open interval of a machine is unique, \<open>LastOpen\<close> finds it, or says that there is
  none.\<close>

lemma filter_open_history:
  "table_ok db \<Longrightarrow> filter IsOpen (history db m) = map row_interval (filter (\<lambda>r. ir_machine_id r = m \<and> ir_ended_at r = None) db)"
  by (induction db) (auto simp: history_def table_ok_def row_open_iff)

lemma row_interval_open:
  "row_ok r \<Longrightarrow> ir_ended_at r = None \<Longrightarrow> ParseRFC3339 (ir_started_at r) = Some (iv_StartedAt (row_interval r)) \<and>
   row_interval r = \<lparr>iv_MachineID = ir_machine_id r, iv_State = ir_state r, iv_StartedAt = iv_StartedAt (row_interval r),
     iv_EndedAt = None, iv_Reason = ir_reason r\<rparr>"
  by (auto simp: row_ok_def row_interval_def interval_of_row_def parse_end_def split: option.splits)

lemma LastOpen_history:
  assumes ok: "table_ok db" and len: "length (filter IsOpen (history db m)) \<le> 1"
  shows "LastOpen QueryOk db m = Inr (case filter IsOpen (history db m) of [] \<Rightarrow> None | iv # _ \<Rightarrow> Some iv)"
proof -
  define rows where "rows = filter (\<lambda>r. ir_machine_id r = m \<and> ir_ended_at r = None) db"
  have h: "filter IsOpen (history db m) = map row_interval rows" by (simp add: filter_open_history [OF ok] rows_def)
  show ?thesis
  proof (cases rows)
    case Nil
    then show ?thesis using h by (simp add: LastOpen_def rows_def [symmetric])
  next
    case (Cons r rest)
    with len h have rows: "rows = [r]" by simp
    then have "r \<in> set rows" by simp
    then have r: "ir_machine_id r = m" "ir_ended_at r = None" "row_ok r"
      using ok by (auto simp: rows_def table_ok_def list_all_iff)
    show ?thesis
      using row_interval_open [OF r(3,2)] r(1) h rows by (simp add: LastOpen_def rows_def [symmetric])
  qed
qed

subsection \<open>The interface IntervalStore\<close>

text \<open>
  \<open>good\<close> is the store's own invariant, \<open>hist\<close> the intervals it holds for a machine, oldest first.
  A write that fails changes nothing; the reader is specified where the open interval is unique.
\<close>

locale interval_store =
  fixes good :: "'s \<Rightarrow> bool"
    and hist :: "'s \<Rightarrow> string \<Rightarrow> StateInterval list"
    and wok :: "'w \<Rightarrow> bool"
    and rok :: "'r \<Rightarrow> bool"
    and time_ok :: "gotime \<Rightarrow> bool"
    and last_open :: "'r \<Rightarrow> 's \<Rightarrow> string \<Rightarrow> 'e + StateInterval option"
    and close_open :: "'w \<Rightarrow> 's \<Rightarrow> string \<Rightarrow> gotime \<Rightarrow> 'e option \<times> 's"
    and open_interval :: "'w \<Rightarrow> 's \<Rightarrow> string \<Rightarrow> MachineState \<Rightarrow> gotime \<Rightarrow> 'e option \<times> 's"
  assumes open_ok: "good s \<Longrightarrow> time_ok ts \<Longrightarrow> wok f \<Longrightarrow>
      fst (open_interval f s m st ts) = None \<and> good (snd (open_interval f s m st ts)) \<and>
      hist (snd (open_interval f s m st ts)) = (hist s)(m := hist s m @ [open_at m st ts])"
    and open_fail: "\<not> wok f \<Longrightarrow> fst (open_interval f s m st ts) \<noteq> None \<and> snd (open_interval f s m st ts) = s"
    and close_ok: "good s \<Longrightarrow> time_ok ts \<Longrightarrow> wok f \<Longrightarrow>
      fst (close_open f s m ts) = None \<and> good (snd (close_open f s m ts)) \<and>
      hist (snd (close_open f s m ts)) = (hist s)(m := map (end_at ts) (hist s m))"
    and close_fail: "\<not> wok f \<Longrightarrow> fst (close_open f s m ts) \<noteq> None \<and> snd (close_open f s m ts) = s"
    and last_ok: "good s \<Longrightarrow> rok r \<Longrightarrow> length (filter IsOpen (hist s m)) \<le> 1 \<Longrightarrow>
      last_open r s m = Inr (case filter IsOpen (hist s m) of [] \<Rightarrow> None | iv # _ \<Rightarrow> Some iv)"
    and last_fail: "\<not> rok r \<Longrightarrow> \<exists>e. last_open r s m = Inl e"

lemma OpenInterval_ok:
  assumes "table_ok db" "formattable ts"
  shows "fst (OpenInterval NoFault db m st ts) = None \<and> table_ok (snd (OpenInterval NoFault db m st ts)) \<and>
    history (snd (OpenInterval NoFault db m st ts)) = (history db)(m := history db m @ [open_at m st ts])"
  using table_ok_open [OF assms] history_open [OF assms(2)] by (auto simp: OpenInterval_def Let_def)

lemma CloseOpen_ok:
  assumes "table_ok db" "formattable ts"
  shows "fst (CloseOpen NoFault db m ts) = None \<and> table_ok (snd (CloseOpen NoFault db m ts)) \<and>
    history (snd (CloseOpen NoFault db m ts)) = (history db)(m := map (end_at ts) (history db m))"
proof -
  have "table_ok (map (close_row m (FormatRFC3339Nano ts)) db)"
    using assms by (auto simp: table_ok_def list_all_iff row_ok_close)
  then show ?thesis using history_close [OF assms] by (auto simp: CloseOpen_def Let_def)
qed

interpretation repo: interval_store table_ok history "\<lambda>f. f = NoFault" "\<lambda>r. r = QueryOk" formattable LastOpen CloseOpen OpenInterval
proof unfold_locales
  show "fst (OpenInterval f s m st ts) \<noteq> None \<and> snd (OpenInterval f s m st ts) = s" if "f \<noteq> NoFault" for f s m st ts
    using that by (cases f) (simp_all add: OpenInterval_def)
  show "fst (CloseOpen f s m ts) \<noteq> None \<and> snd (CloseOpen f s m ts) = s" if "f \<noteq> NoFault" for f s m ts
    using that by (cases f) (simp_all add: CloseOpen_def)
  show "\<exists>e. LastOpen r s m = Inl e" if "r \<noteq> QueryOk" for r s m
    using that by (cases r) (simp_all add: LastOpen_def)
qed (simp_all add: OpenInterval_ok CloseOpen_ok LastOpen_history)

end
