(* ===== verification/Ingest_State.thy ===== *)
theory Ingest_State
  imports Interval_Store
begin

section \<open>From state-change messages to intervals (ingest-state)\<close>

text \<open>
  The decoder of state-change payloads (\<open>application/dto.go\<close>), the use case that turns a transition
  into a closed and an opened interval (\<open>application/usecase.go\<close>) and the worker that feeds it
  (\<open>adapters/inbound/worker/worker.go\<close>). The use case is defined over the operations of its ports,
  the store and the observer, as in Go; what holds for every store is proved in the locale of the
  port. What \<open>json.Unmarshal\<close> makes of a payload is a parameter of the decoder.
\<close>

subsection \<open>Decoding (dto.go)\<close>

record stateChangeJSON =
  sc_Type :: string
  sc_MachineID :: string
  sc_State :: string
  sc_PreviousState :: string
  sc_Reason :: string
  sc_Timestamp :: gotime

datatype decode_error = InvalidJSON string | MissingMachineID | UnknownState string | MissingTimestamp

definition DecodeStateChange :: "(bytes \<Rightarrow> string + stateChangeJSON) \<Rightarrow> bytes \<Rightarrow> decode_error + StateTransition" where
  "DecodeStateChange unmarshal payload =
     (case unmarshal payload of
        Inl err \<Rightarrow> Inl (InvalidJSON err)
      | Inr raw \<Rightarrow>
          if sc_MachineID raw = [] then Inl MissingMachineID
          else if \<not> Valid (sc_State raw) then Inl (UnknownState (sc_State raw))
          else if IsZero (sc_Timestamp raw) then Inl MissingTimestamp
          else Inr \<lparr>tr_MachineID = sc_MachineID raw, tr_State = sc_State raw, tr_PreviousState = sc_PreviousState raw,
                 tr_Reason = sc_Reason raw, tr_Timestamp = sc_Timestamp raw\<rparr>)"

subsection \<open>The use case (usecase.go)\<close>

definition open_and_notify ::
  "('w \<Rightarrow> 's \<Rightarrow> string \<Rightarrow> MachineState \<Rightarrow> gotime \<Rightarrow> 'e option \<times> 's) \<Rightarrow> ('o \<Rightarrow> StateTransition \<Rightarrow> 'o) \<Rightarrow>
   'w \<Rightarrow> 's \<Rightarrow> 'o \<Rightarrow> StateTransition \<Rightarrow> 'e option \<times> 's \<times> 'o"
where
  "open_and_notify openInterval observe wfault store observer t =
     (case openInterval wfault store (tr_MachineID t) (tr_State t) (tr_Timestamp t) of
        (Some err, store) \<Rightarrow> (Some err, store, observer)
      | (None, store) \<Rightarrow> (None, store, observe observer t))"

text \<open>The faults of the three calls to the store, in order.\<close>

definition Apply ::
  "('r \<Rightarrow> 's \<Rightarrow> string \<Rightarrow> 'e + StateInterval option) \<Rightarrow> ('w \<Rightarrow> 's \<Rightarrow> string \<Rightarrow> gotime \<Rightarrow> 'e option \<times> 's) \<Rightarrow>
   ('w \<Rightarrow> 's \<Rightarrow> string \<Rightarrow> MachineState \<Rightarrow> gotime \<Rightarrow> 'e option \<times> 's) \<Rightarrow> ('o \<Rightarrow> StateTransition \<Rightarrow> 'o) \<Rightarrow>
   'r \<times> 'w \<times> 'w \<Rightarrow> 's \<Rightarrow> 'o \<Rightarrow> StateTransition \<Rightarrow> 'e option \<times> 's \<times> 'o"
where
  "Apply lastOpen closeOpen openInterval observe faults store observer t =
     (case faults of (rfault, cfault, ofault) \<Rightarrow>
      case lastOpen rfault store (tr_MachineID t) of
        Inl err \<Rightarrow> (Some err, store, observer)
      | Inr None \<Rightarrow> open_and_notify openInterval observe ofault store observer t
      | Inr (Some open_iv) \<Rightarrow>
          if iv_State open_iv = tr_State t then (None, store, observer)
          else if \<not> After (tr_Timestamp t) (iv_StartedAt open_iv) then (None, store, observer)
          else (case closeOpen cfault store (tr_MachineID t) (tr_Timestamp t) of
                  (Some err, store) \<Rightarrow> (Some err, store, observer)
                | (None, store) \<Rightarrow> open_and_notify openInterval observe ofault store observer t))"

subsection \<open>The worker (worker.go)\<close>

text \<open>The use case behind \<open>StateIngester\<close> is the argument \<open>ingest\<close>; \<open>st\<close> is what it changes.\<close>

definition StateChangeWorker_Process ::
  "(bytes \<Rightarrow> string + stateChangeJSON) \<Rightarrow> string \<Rightarrow> ('st \<Rightarrow> StateTransition \<Rightarrow> 'e option \<times> 'st) \<Rightarrow>
   'st \<Rightarrow> message \<Rightarrow> 'e option \<times> 'st"
where
  "StateChangeWorker_Process unmarshal stateTopic ingest st msg =
     (if msg_Topic msg \<noteq> stateTopic then (None, st)
      else case DecodeStateChange unmarshal (msg_Payload msg) of
        Inl err \<Rightarrow> (None, st)
      | Inr transition \<Rightarrow> ingest st transition)"

subsection \<open>The timeline of a machine\<close>

text \<open>A closed interval has a positive length; only the last interval of a machine may be open.\<close>

definition proper :: "StateInterval \<Rightarrow> bool" where
  "proper iv \<longleftrightarrow> (case iv_EndedAt iv of None \<Rightarrow> True | Some e \<Rightarrow> tm_ns (iv_StartedAt iv) < tm_ns e)"

definition latest_open :: "StateInterval list \<Rightarrow> bool" where
  "latest_open ivs \<longleftrightarrow> list_all (\<lambda>iv. \<not> IsOpen iv) (butlast ivs) \<and> list_all proper ivs"

definition running_open :: "StateInterval list \<Rightarrow> bool" where
  "running_open ivs \<longleftrightarrow> ivs \<noteq> [] \<and> IsOpen (last ivs)"

definition opened :: "StateTransition \<Rightarrow> StateInterval" where
  "opened t = open_at (tr_MachineID t) (tr_State t) (tr_Timestamp t)"

text \<open>A transition is ignored if the machine is in that state already or the transition is not
  later than the start of the open interval.\<close>

definition ignored :: "StateTransition \<Rightarrow> StateInterval list \<Rightarrow> bool" where
  "ignored t ivs \<longleftrightarrow> running_open ivs \<and> (iv_State (last ivs) = tr_State t \<or> \<not> After (tr_Timestamp t) (iv_StartedAt (last ivs)))"

text \<open>The abstract effect of a transition on the intervals of its machine.\<close>

definition advance :: "StateTransition \<Rightarrow> StateInterval list \<Rightarrow> StateInterval list" where
  "advance t ivs = (if ignored t ivs then ivs else map (end_at (tr_Timestamp t)) ivs @ [opened t])"

lemma IsOpen_simps [simp]:
  "IsOpen (open_at m st ts)" "IsOpen (opened t)" "\<not> IsOpen (end_at ts iv)"
  by (auto simp: IsOpen_def open_at_def end_at_def opened_def)

lemma end_at_closed [simp]: "\<not> IsOpen iv \<Longrightarrow> end_at ts iv = iv"
  by (simp add: end_at_def)

lemma map_end_at_closed: "list_all (\<lambda>iv. \<not> IsOpen iv) ivs \<Longrightarrow> map (end_at ts) ivs = ivs"
  by (induction ivs) auto

lemma latest_open_Nil [simp]: "latest_open []"
  by (simp add: latest_open_def)

lemma list_all_butlast_iff: "list_all P ivs \<longleftrightarrow> list_all P (butlast ivs) \<and> (ivs \<noteq> [] \<longrightarrow> P (last ivs))"
  by (cases ivs rule: rev_cases) (auto simp: list_all_iff)

lemma closed_filter: "list_all (\<lambda>iv. \<not> IsOpen iv) ivs \<Longrightarrow> filter IsOpen ivs = []"
  by (induction ivs) auto

lemma filter_latest_open:
  assumes "latest_open ivs"
  shows "filter IsOpen ivs = (if running_open ivs then [last ivs] else [])"
  using assms by (cases ivs rule: rev_cases) (auto simp: latest_open_def running_open_def closed_filter)

lemma not_running_closed: "latest_open ivs \<Longrightarrow> \<not> running_open ivs \<Longrightarrow> list_all (\<lambda>iv. \<not> IsOpen iv) ivs"
  by (subst list_all_butlast_iff) (auto simp: latest_open_def running_open_def)

lemma proper_end_at:
  "proper iv \<Longrightarrow> (IsOpen iv \<Longrightarrow> tm_ns (iv_StartedAt iv) < tm_ns ts) \<Longrightarrow> proper (end_at ts iv)"
  by (auto simp: proper_def end_at_def)

text \<open>Closing the open interval later than it started keeps the shape, and leaves nothing open.\<close>

lemma latest_open_close:
  assumes "latest_open ivs" "running_open ivs \<Longrightarrow> tm_ns (iv_StartedAt (last ivs)) < tm_ns ts"
  shows "list_all (\<lambda>iv. \<not> IsOpen iv) (map (end_at ts) ivs)" "list_all proper (map (end_at ts) ivs)"
proof -
  show "list_all (\<lambda>iv. \<not> IsOpen iv) (map (end_at ts) ivs)" by (simp add: list_all_iff)
  show "list_all proper (map (end_at ts) ivs)"
    using assms by (cases ivs rule: rev_cases) (auto simp: latest_open_def running_open_def list_all_iff intro!: proper_end_at)
qed

lemma ignored_or_later:
  "\<not> ignored t ivs \<Longrightarrow> running_open ivs \<Longrightarrow> tm_ns (iv_StartedAt (last ivs)) < tm_ns (tr_Timestamp t)"
  by (simp add: ignored_def After_def)

lemma latest_open_snoc: "list_all (\<lambda>iv. \<not> IsOpen iv) ivs \<Longrightarrow> list_all proper ivs \<Longrightarrow> latest_open (ivs @ [opened t])"
  by (simp add: latest_open_def proper_def opened_def open_at_def)

lemma latest_open_closed: "list_all (\<lambda>iv. \<not> IsOpen iv) ivs \<Longrightarrow> list_all proper ivs \<Longrightarrow> latest_open ivs"
  using list_all_butlast_iff [of "\<lambda>iv. \<not> IsOpen iv" ivs] by (simp add: latest_open_def)

lemma latest_open_advance: "latest_open ivs \<Longrightarrow> latest_open (advance t ivs)"
  using latest_open_close [of ivs "tr_Timestamp t"] ignored_or_later [of t ivs]
  by (auto simp: advance_def intro: latest_open_snoc)

subsection \<open>The use case over any store\<close>

text \<open>A run applies transitions one after the other, each with its faults.\<close>

fun apply_run ::
  "('r \<times> 'w \<times> 'w \<Rightarrow> 's \<Rightarrow> 'o \<Rightarrow> StateTransition \<Rightarrow> 'e option \<times> 's \<times> 'o) \<Rightarrow>
   's \<Rightarrow> 'o \<Rightarrow> (('r \<times> 'w \<times> 'w) \<times> StateTransition) list \<Rightarrow> 's \<times> 'o"
where
  "apply_run apl s ob [] = (s, ob)"
| "apply_run apl s ob ((f, t) # ts) = (case apl f s ob t of (err, s', ob') \<Rightarrow> apply_run apl s' ob' ts)"

definition record_observed :: "StateTransition list \<Rightarrow> StateTransition \<Rightarrow> StateTransition list" where
  "record_observed seen t = seen @ [t]"

text \<open>The state and start of every interval of a machine, and of every observed transition of it.\<close>

definition starts :: "StateInterval list \<Rightarrow> (MachineState \<times> gotime) list" where
  "starts ivs = map (\<lambda>iv. (iv_State iv, iv_StartedAt iv)) ivs"

definition seen_starts :: "string \<Rightarrow> StateTransition list \<Rightarrow> (MachineState \<times> gotime) list" where
  "seen_starts m ts = map (\<lambda>t. (tr_State t, tr_Timestamp t)) (filter (\<lambda>t. tr_MachineID t = m) ts)"

lemma starts_end_at [simp]: "starts (map (end_at ts) ivs) = starts ivs"
  by (simp add: starts_def end_at_def)

lemma starts_opened [simp]: "starts (ivs @ [opened t]) = starts ivs @ [(tr_State t, tr_Timestamp t)]"
  by (simp add: starts_def opened_def open_at_def)

context interval_store
begin

abbreviation "apply_to \<equiv> Apply last_open close_open open_interval"

definition sound :: "'s \<Rightarrow> bool" where
  "sound s \<longleftrightarrow> good s \<and> (\<forall>m. latest_open (hist s m))"

lemma last_open_latest:
  assumes "sound s" "rok r"
  shows "last_open r s m = Inr (if running_open (hist s m) then Some (last (hist s m)) else None)"
  using assms last_ok [of s r m] by (simp add: sound_def filter_latest_open)

text \<open>What one application does, by its faults.\<close>

lemma Apply_read_fails: "\<not> rok r \<Longrightarrow> \<exists>e. apply_to obs (r, c, w) s ob t = (Some e, s, ob)"
  using last_fail [of r s "tr_MachineID t"] by (auto simp: Apply_def)

lemma Apply_ignored:
  "sound s \<Longrightarrow> rok r \<Longrightarrow> ignored t (hist s (tr_MachineID t)) \<Longrightarrow> apply_to obs (r, c, w) s ob t = (None, s, ob)"
  by (auto simp: Apply_def last_open_latest ignored_def)

lemma open_and_notify_ok:
  assumes "good s" "time_ok (tr_Timestamp t)" "wok w"
  obtains s' where "open_and_notify open_interval obs w s ob t = (None, s', obs ob t)" "good s'"
    "hist s' = (hist s)(tr_MachineID t := hist s (tr_MachineID t) @ [opened t])"
  using open_ok [OF assms, of "tr_MachineID t" "tr_State t"]
  by (cases "open_interval w s (tr_MachineID t) (tr_State t) (tr_Timestamp t)") (auto simp: open_and_notify_def opened_def)

lemma open_and_notify_fail: "\<not> wok w \<Longrightarrow> \<exists>e. open_and_notify open_interval obs w s ob t = (Some e, s, ob)"
  using open_fail [of w s "tr_MachineID t" "tr_State t" "tr_Timestamp t"]
  by (cases "open_interval w s (tr_MachineID t) (tr_State t) (tr_Timestamp t)") (auto simp: open_and_notify_def)

lemma open_and_notify_cases:
  assumes "good s" "time_ok (tr_Timestamp t)"
  obtains (ok) s' where "wok w" "open_and_notify open_interval obs w s ob t = (None, s', obs ob t)" "good s'"
    "hist s' = (hist s)(tr_MachineID t := hist s (tr_MachineID t) @ [opened t])"
  | (fail) e where "\<not> wok w" "open_and_notify open_interval obs w s ob t = (Some e, s, ob)"
proof (cases "wok w")
  case True
  show thesis by (rule open_and_notify_ok [OF assms True, of obs ob thesis]) (rule ok [OF True])
next
  case False
  then show thesis using open_and_notify_fail [of w obs s ob t] fail by blast
qed

lemma Apply_no_open:
  "sound s \<Longrightarrow> rok r \<Longrightarrow> \<not> running_open (hist s (tr_MachineID t)) \<Longrightarrow>
   apply_to obs (r, c, w) s ob t = open_and_notify open_interval obs w s ob t"
  by (simp add: Apply_def last_open_latest)

lemma Apply_switch:
  "sound s \<Longrightarrow> rok r \<Longrightarrow> running_open (hist s (tr_MachineID t)) \<Longrightarrow> \<not> ignored t (hist s (tr_MachineID t)) \<Longrightarrow>
   apply_to obs (r, c, w) s ob t =
     (case close_open c s (tr_MachineID t) (tr_Timestamp t) of
        (Some err, s') \<Rightarrow> (Some err, s', ob)
      | (None, s') \<Rightarrow> open_and_notify open_interval obs w s' ob t)"
  by (auto simp: Apply_def last_open_latest ignored_def)

lemma close_open_cases:
  assumes "good s" "time_ok ts"
  obtains (ok) s' where "wok c" "close_open c s m ts = (None, s')" "good s'" "hist s' = (hist s)(m := map (end_at ts) (hist s m))"
  | (fail) e where "\<not> wok c" "close_open c s m ts = (Some e, s)"
  using close_ok [OF assms, of c m] close_fail [of c s m ts] by (cases "close_open c s m ts"; cases "wok c") auto

text \<open>Every outcome of one application: nothing, closed only, or advanced and notified.\<close>

lemma Apply_outcome:
  assumes "sound s" "time_ok (tr_Timestamp t)"
  obtains (same) e where "apply_to obs (r, c, w) s ob t = (e, s, ob)" "e = None \<longrightarrow> ignored t (hist s (tr_MachineID t))"
  | (closed) e s' where "apply_to obs (r, c, w) s ob t = (Some e, s', ob)" "good s'" "\<not> wok w"
      "\<not> ignored t (hist s (tr_MachineID t))" "hist s' = (hist s)(tr_MachineID t := map (end_at (tr_Timestamp t)) (hist s (tr_MachineID t)))"
  | (advanced) s' where "apply_to obs (r, c, w) s ob t = (None, s', obs ob t)" "good s'" "\<not> ignored t (hist s (tr_MachineID t))"
      "hist s' = (hist s)(tr_MachineID t := advance t (hist s (tr_MachineID t)))"
proof -
  let ?h = "hist s (tr_MachineID t)"
  have g: "good s" and l: "latest_open ?h" using assms(1) by (simp_all add: sound_def)
  consider "\<not> rok r" | "rok r" "ignored t ?h" | "rok r" "\<not> ignored t ?h" "\<not> running_open ?h" | "rok r" "\<not> ignored t ?h" "running_open ?h"
    by blast
  then show thesis
  proof cases
    case 1
    then obtain e where "apply_to obs (r, c, w) s ob t = (Some e, s, ob)" using Apply_read_fails [of r obs c w s ob t] by blast
    then show ?thesis by (rule same) simp
  next
    case 2
    then show ?thesis by (intro same [OF Apply_ignored [OF assms(1)]]) simp_all
  next
    case 3
    note eq = Apply_no_open [OF assms(1) 3(1,3), of obs c w ob]
    from g assms(2) show ?thesis
    proof (cases rule: open_and_notify_cases [where w = w and obs = obs and ob = ob])
      case (ok s')
      then show ?thesis
        using 3 l by (intro advanced [of s']) (simp_all add: eq advance_def map_end_at_closed not_running_closed)
    next
      case (fail e)
      then show ?thesis by (intro same [of "Some e"]) (simp_all add: eq)
    qed
  next
    case 4
    note eq = Apply_switch [OF assms(1) 4(1,3,2), of obs c w ob]
    from g assms(2) show ?thesis
    proof (cases rule: close_open_cases [where c = c and m = "tr_MachineID t"])
      case (fail e)
      then show ?thesis using same [of "Some e"] by (simp add: eq)
    next
      case (ok s1)
      note closed_ok = ok
      from ok(3) assms(2) show ?thesis
      proof (cases rule: open_and_notify_cases [where w = w and obs = obs and ob = ob])
        case (ok s')
        then show ?thesis using closed_ok 4 by (intro advanced [of s']) (simp_all add: eq advance_def)
      next
        case (fail e)
        then show ?thesis using closed_ok 4 by (intro closed [of e s1]) (simp_all add: eq)
      qed
    qed
  qed
qed

lemma sound_update: "sound s \<Longrightarrow> good s' \<Longrightarrow> hist s' = (hist s)(m := ivs) \<Longrightarrow> latest_open ivs \<Longrightarrow> sound s'"
  by (simp add: sound_def)

lemma Apply_sound:
  assumes "sound s" "time_ok (tr_Timestamp t)" "apply_to obs f s ob t = (e, s', ob')"
  shows "sound s'"
proof -
  obtain r c w where f: "f = (r, c, w)" by (cases f)
  have l: "latest_open (hist s (tr_MachineID t))" using assms(1) by (simp add: sound_def)
  from assms(1,2) show ?thesis
  proof (cases rule: Apply_outcome [where obs = obs and r = r and c = c and w = w and ob = ob])
    case (same e)
    then show ?thesis using assms f by simp
  next
    case (closed e s1)
    have "latest_open (map (end_at (tr_Timestamp t)) (hist s (tr_MachineID t)))"
      using latest_open_close [OF l ignored_or_later [OF closed(4)]] by (rule latest_open_closed)
    then show ?thesis using sound_update [OF assms(1) closed(2,5)] closed(1) assms(3) f by simp
  next
    case (advanced s1)
    then show ?thesis using sound_update [OF assms(1) advanced(2,4) latest_open_advance [OF l]] assms(3) f by simp
  qed
qed

text \<open>Whatever fails, only the last interval of a machine is open and closed ones are proper.\<close>

lemma run_sound:
  "sound s \<Longrightarrow> list_all (\<lambda>(f, t). time_ok (tr_Timestamp t)) ts \<Longrightarrow> sound (fst (apply_run (apply_to obs) s ob ts))"
proof (induction ts arbitrary: s ob)
  case (Cons ft ts)
  obtain f t where ft: "ft = (f, t)" by (cases ft)
  obtain e s' ob' where a: "apply_to obs f s ob t = (e, s', ob')" by (cases "apply_to obs f s ob t")
  have "sound s'" using Apply_sound [OF Cons.prems(1) _ a] Cons.prems(2) ft by simp
  then show ?case using Cons.IH [of s' ob'] Cons.prems(2) a ft by simp
qed simp

text \<open>The observer is told of a transition exactly when an interval was opened for it.\<close>

lemma Apply_observed:
  assumes "sound s" "time_ok (tr_Timestamp t)" "apply_to record_observed f s seen t = (e, s', seen')"
    "\<forall>m. starts (hist s m) = starts (hist s0 m) @ seen_starts m seen"
  shows "\<forall>m. starts (hist s' m) = starts (hist s0 m) @ seen_starts m seen'"
proof -
  obtain r c w where f: "f = (r, c, w)" by (cases f)
  show ?thesis
    by (cases rule: Apply_outcome [OF assms(1,2), of record_observed r c w seen])
      (use assms(3,4) f in \<open>auto simp: advance_def record_observed_def seen_starts_def\<close>)
qed

lemma run_observed:
  "sound s \<Longrightarrow> list_all (\<lambda>(f, t). time_ok (tr_Timestamp t)) ts \<Longrightarrow>
   \<forall>m. starts (hist s m) = starts (hist s0 m) @ seen_starts m seen \<Longrightarrow>
   apply_run (apply_to record_observed) s seen ts = (s', seen') \<Longrightarrow>
   \<forall>m. starts (hist s' m) = starts (hist s0 m) @ seen_starts m seen'"
proof (induction ts arbitrary: s seen)
  case (Cons ft ts)
  obtain f t where ft: "ft = (f, t)" by (cases ft)
  obtain e s1 seen1 where a: "apply_to record_observed f s seen t = (e, s1, seen1)" by (cases "apply_to record_observed f s seen t")
  have ok: "time_ok (tr_Timestamp t)" using Cons.prems(2) ft by simp
  have "sound s1" by (rule Apply_sound [OF Cons.prems(1) ok a])
  moreover have "\<forall>m. starts (hist s1 m) = starts (hist s0 m) @ seen_starts m seen1"
    by (rule Apply_observed [OF Cons.prems(1) ok a Cons.prems(3)])
  ultimately show ?case using Cons.IH [of s1 seen1] Cons.prems(2,4) a ft by simp
qed simp

text \<open>Without faults the store follows the abstract transition function.\<close>

definition faultless :: "'r \<times> 'w \<times> 'w \<Rightarrow> bool" where
  "faultless f \<longleftrightarrow> (case f of (r, c, w) \<Rightarrow> rok r \<and> wok c \<and> wok w)"

lemma Apply_faultless:
  assumes "sound s" "time_ok (tr_Timestamp t)" "faultless f"
  obtains s' ob' where "apply_to obs f s ob t = (None, s', ob')" "sound s'"
    "hist s' = (hist s)(tr_MachineID t := advance t (hist s (tr_MachineID t)))"
    "ob' = (if ignored t (hist s (tr_MachineID t)) then ob else obs ob t)"
proof -
  obtain r c w where f: "f = (r, c, w)" "rok r" "wok c" "wok w" using assms(3) by (cases f) (auto simp: faultless_def)
  let ?h = "hist s (tr_MachineID t)"
  have g: "good s" and l: "latest_open ?h" using assms(1) by (simp_all add: sound_def)
  have ne: "fst (apply_to obs (r, c, w) s ob t) = None"
  proof (cases "ignored t ?h")
    case True then show ?thesis by (simp add: Apply_ignored [OF assms(1) f(2) True])
  next
    case False
    show ?thesis
    proof (cases "running_open ?h")
      case True
      obtain s1 where "close_open c s (tr_MachineID t) (tr_Timestamp t) = (None, s1)" "good s1"
        using close_open_cases [OF g assms(2), of c "tr_MachineID t"] f(3) by metis
      moreover obtain s2 where "open_and_notify open_interval obs w s1 ob t = (None, s2, obs ob t)"
        by (rule open_and_notify_ok [OF calculation(2) assms(2) f(4)])
      ultimately show ?thesis by (simp add: Apply_switch [OF assms(1) f(2) True False])
    next
      case no: False
      obtain s2 where "open_and_notify open_interval obs w s ob t = (None, s2, obs ob t)"
        by (rule open_and_notify_ok [OF g assms(2) f(4)])
      then show ?thesis by (simp add: Apply_no_open [OF assms(1) f(2) no])
    qed
  qed
  from assms(1,2) show thesis
  proof (cases rule: Apply_outcome [where obs = obs and r = r and c = c and w = w and ob = ob])
    case (same e)
    then have "ignored t ?h" using ne by simp
    then show thesis using that [of s ob] same ne assms(1) f(1) by (simp add: advance_def)
  next
    case (closed e s') then show thesis using ne by simp
  next
    case (advanced s')
    then show thesis using that [of s' "obs ob t"] sound_update [OF assms(1) advanced(2,4) latest_open_advance [OF l]] f(1) by simp
  qed
qed

lemma run_faultless:
  "sound s \<Longrightarrow> list_all (\<lambda>(f, t). faultless f \<and> time_ok (tr_Timestamp t)) ts \<Longrightarrow>
   hist (fst (apply_run (apply_to obs) s ob ts)) m = fold advance (filter (\<lambda>t. tr_MachineID t = m) (map snd ts)) (hist s m)"
proof (induction ts arbitrary: s ob)
  case (Cons ft ts)
  obtain f t where ft: "ft = (f, t)" by (cases ft)
  obtain s' ob' where a: "apply_to obs f s ob t = (None, s', ob')" "sound s'"
    "hist s' = (hist s)(tr_MachineID t := advance t (hist s (tr_MachineID t)))"
    by (rule Apply_faultless [OF Cons.prems(1), of t f obs ob]) (use Cons.prems(2) ft in auto)
  then show ?case using Cons.IH [OF a(2)] Cons.prems(2) ft by simp
qed simp

end

subsection \<open>Consecutive intervals\<close>

definition timeline :: "StateInterval list \<Rightarrow> bool" where
  "timeline ivs \<longleftrightarrow> chained ivs \<and> latest_open ivs \<and> (ivs = [] \<or> running_open ivs)"

lemma timeline_Nil [simp]: "timeline []"
  by (simp add: timeline_def chained_def)

lemma ends_before_start: "ends_before a b \<Longrightarrow> iv_StartedAt c = iv_StartedAt b \<Longrightarrow> ends_before a c"
  by (simp add: ends_before_def split: option.splits)

lemma iv_StartedAt_end_at [simp]: "iv_StartedAt (end_at ts iv) = iv_StartedAt iv"
  by (simp add: end_at_def)

lemma timeline_advance:
  assumes "timeline ivs"
  shows "timeline (advance t ivs)"
proof (cases "ivs = [] \<or> ignored t ivs")
  case True
  then show ?thesis
    using assms by (auto simp: advance_def timeline_def chained_def latest_open_def running_open_def proper_def opened_def open_at_def IsOpen_def)
next
  case False
  then obtain xs x where ivs: "ivs = xs @ [x]" by (cases ivs rule: rev_cases) auto
  have l: "latest_open ivs" and run: "running_open ivs" and ch: "chained ivs" using assms False by (auto simp: timeline_def)
  have later: "tm_ns (iv_StartedAt x) < tm_ns (tr_Timestamp t)" using ignored_or_later [of t ivs] False run ivs by simp
  have xs: "map (end_at (tr_Timestamp t)) xs = xs" using l ivs by (intro map_end_at_closed) (simp add: latest_open_def)
  have x: "IsOpen x" using run ivs by (simp add: running_open_def)
  have adv: "advance t ivs = xs @ [end_at (tr_Timestamp t) x, opened t]" using False ivs xs by (simp add: advance_def)
  have xs_x: "ends_before a x" if "a \<in> set xs" for a using ch ivs that by (simp add: chained_def sorted_wrt_append)
  then have "ends_before a (opened t)" if "a \<in> set xs" for a
    using later that by (fastforce simp: ends_before_def opened_def open_at_def split: option.splits)
  moreover have "ends_before (end_at (tr_Timestamp t) x) (opened t)"
    using x by (simp add: ends_before_def end_at_def opened_def open_at_def)
  ultimately have "chained (advance t ivs)"
    unfolding adv using ch ivs xs_x by (auto simp: chained_def sorted_wrt_append intro: ends_before_start [OF xs_x])
  moreover have "running_open (advance t ivs)" by (simp add: adv running_open_def)
  ultimately show ?thesis using latest_open_advance [OF l] by (simp add: timeline_def)
qed

lemma timeline_fold_advance: "timeline ivs \<Longrightarrow> timeline (fold advance ts ivs)"
  by (induction ts arbitrary: ivs) (simp_all add: timeline_advance)

subsection \<open>Claims about the store the program uses\<close>

definition repo_Apply where
  "repo_Apply = Apply LastOpen CloseOpen OpenInterval"

definition well_kept :: "interval_table \<Rightarrow> bool" where
  "well_kept db \<longleftrightarrow> table_ok db \<and> (\<forall>m. latest_open (history db m))"

lemma well_kept_sound: "well_kept db \<longleftrightarrow> repo.sound db"
  by (simp add: well_kept_def repo.sound_def)

lemma well_kept_Nil [simp]: "well_kept []"
  by (simp add: well_kept_def table_ok_def history_def)

definition tr_demo :: "MachineState \<Rightarrow> gotime \<Rightarrow> StateTransition" where
  "tr_demo st ts = \<lparr>tr_MachineID = ''m1'', tr_State = st, tr_PreviousState = [], tr_Reason = [], tr_Timestamp = ts\<rparr>"

abbreviation "no_faults \<equiv> (QueryOk, NoFault, NoFault)"

lemma formattable_days: "formattable (utc_day 2026 6 1)" "formattable (utc_day 2026 6 3)" "formattable (utc_day 2026 6 5)"
  by code_simp+

text \<open>C23. Whatever statements fail, the table stays well kept: every row reads back, only the
  newest interval of a machine is open, and every closed interval has ended later than it
  started.\<close>

theorem intervals_stay_well_formed:
  assumes "well_kept db" "list_all (\<lambda>(f, t). formattable (tr_Timestamp t)) ts"
  shows "well_kept (fst (apply_run (repo_Apply observe) db ob ts))"
  using repo.run_sound [OF assms(1) [unfolded well_kept_sound] assms(2)] by (simp add: well_kept_sound repo_Apply_def)

theorem intervals_stay_well_formed_witness:
  "well_kept (fst (apply_run (repo_Apply record_observed) [] []
     [(no_faults, tr_demo Running (utc_day 2026 6 1)), ((QueryOk, NoFault, CommitFails), tr_demo Stopped (utc_day 2026 6 5)),
      (no_faults, tr_demo Setup (utc_day 2026 6 3))]))"
  by (rule intervals_stay_well_formed) (simp_all add: tr_demo_def formattable_days)

text \<open>Whatever statements fail, the observer is told of a transition exactly when an interval
  was opened for it, in the same order.\<close>

theorem observed_iff_persisted:
  assumes "well_kept db" "list_all (\<lambda>(f, t). formattable (tr_Timestamp t)) ts"
    "apply_run (repo_Apply record_observed) db [] ts = (db', seen)"
  shows "starts (history db' m) = starts (history db m) @ seen_starts m seen"
  using repo.run_observed [OF assms(1) [unfolded well_kept_sound] assms(2) _ assms(3) [unfolded repo_Apply_def], of db]
  by (simp add: seen_starts_def)

theorem observed_iff_persisted_witness:
  "starts (history (fst (apply_run (repo_Apply record_observed) [] [] [(no_faults, tr_demo Running (utc_day 2026 6 1))])) ''m1'') =
   seen_starts ''m1'' (snd (apply_run (repo_Apply record_observed) [] [] [(no_faults, tr_demo Running (utc_day 2026 6 1))]))"
  using observed_iff_persisted [OF well_kept_Nil _ prod.collapse [symmetric],
      of "[(no_faults, tr_demo Running (utc_day 2026 6 1))]" "''m1''"]
  by (simp add: tr_demo_def formattable_days history_def starts_def)

text \<open>C12. Without failures the table refines the abstract timeline: the intervals of a machine are
  the fold of \<open>advance\<close> over its transitions, consecutive, the newest one open.\<close>

theorem intervals_refine_timeline:
  assumes "list_all (\<lambda>t. formattable (tr_Timestamp t)) ts"
  shows "history (fst (apply_run (repo_Apply observe) [] ob (map (Pair no_faults) ts))) m =
      fold advance (filter (\<lambda>t. tr_MachineID t = m) ts) [] \<and>
    timeline (fold advance (filter (\<lambda>t. tr_MachineID t = m) ts) [])"
proof -
  have "list_all (\<lambda>(f, t). repo.faultless f \<and> formattable (tr_Timestamp t)) (map (Pair no_faults) ts)"
    using assms by (simp add: list_all_iff repo.faultless_def)
  from repo.run_faultless [OF well_kept_Nil [unfolded well_kept_sound] this, of observe ob m] show ?thesis
    by (simp add: repo_Apply_def comp_def history_def timeline_fold_advance)
qed

theorem intervals_refine_timeline_witness:
  "history (fst (apply_run (repo_Apply record_observed) [] []
     (map (Pair no_faults) [tr_demo Running (utc_day 2026 6 1), tr_demo Stopped (utc_day 2026 6 5), tr_demo Setup (utc_day 2026 6 3)]))) ''m1'' =
   [(open_at ''m1'' Running (utc_day 2026 6 1))\<lparr>iv_EndedAt := Some (utc_day 2026 6 5)\<rparr>, open_at ''m1'' Stopped (utc_day 2026 6 5)]"
proof -
  have "After (utc_day 2026 6 5) (utc_day 2026 6 1)" "\<not> After (utc_day 2026 6 3) (utc_day 2026 6 5)" by code_simp+
  then show ?thesis
    using intervals_refine_timeline [of "[tr_demo Running (utc_day 2026 6 1), tr_demo Stopped (utc_day 2026 6 5), tr_demo Setup (utc_day 2026 6 3)]"
        record_observed "[]" "''m1''"]
    by (simp add: formattable_days tr_demo_def advance_def ignored_def running_open_def opened_def open_at_def end_at_def IsOpen_def machine_states)
qed

text \<open>If opening the new interval fails after the old one was closed, the machine has no open
  interval, and the order check no longer applies: a transition that is older than the end of the
  last interval is accepted, and the intervals overlap.\<close>

theorem failed_open_lets_intervals_overlap:
  "history (fst (apply_run (repo_Apply record_observed) [] []
     [(no_faults, tr_demo Running (utc_day 2026 6 1)), ((QueryOk, NoFault, ExecFails), tr_demo Stopped (utc_day 2026 6 5)),
      (no_faults, tr_demo Stopped (utc_day 2026 6 3))])) ''m1'' =
   [(open_at ''m1'' Running (utc_day 2026 6 1))\<lparr>iv_EndedAt := Some (utc_day 2026 6 5)\<rparr>, open_at ''m1'' Stopped (utc_day 2026 6 3)]"
  by code_simp

end
