(* ===== verification/Live_Engine.thy ===== *)
theory Live_Engine
  imports Ingest_State
begin

section \<open>The live engine (oee/availability/features/live/application)\<close>

text \<open>
  The engine keeps, per machine, the intervals it has been told of (\<open>engine.go\<close>, \<open>new_engine.go\<close>):
  \<open>Engine_Apply\<close> is its side as the observer of the use case, \<open>rehydrate\<close> seeds it from the
  store, \<open>tick\<close> computes a snapshot per machine. Every method holds the engine's mutex while it
  touches the machines, so methods are atomic; \<open>tick\<close> works on a copy. It walks a Go map, in an
  unspecified order: the order is an argument. A reader of shifts may fail, and its computation may
  not end (\<open>None\<close>); then the tick does not end either.
\<close>

subsection \<open>State and operations\<close>

record machineData =
  md_intervals :: "StateInterval list"
  md_windowStart :: gotime

type_synonym machines = "string \<rightharpoonup> machineData"

text \<open>Closing the last interval if it is open, as \<open>Apply\<close> and \<open>tick\<close> do in place.\<close>

definition close_last :: "gotime \<Rightarrow> StateInterval list \<Rightarrow> StateInterval list" where
  "close_last ts ivs =
     (if ivs = [] then ivs
      else if IsOpen (last ivs) then ivs[length ivs - 1 := (last ivs)\<lparr>iv_EndedAt := Some ts\<rparr>] else ivs)"

definition Engine_Apply :: "machines \<Rightarrow> StateTransition \<Rightarrow> machines" where
  "Engine_Apply machines t =
     (let data = (case machines (tr_MachineID t) of
                    Some data \<Rightarrow> data
                  | None \<Rightarrow> \<lparr>md_intervals = [], md_windowStart = tr_Timestamp t\<rparr>);
          ivs = close_last (tr_Timestamp t) (md_intervals data)
      in machines(tr_MachineID t \<mapsto> data\<lparr>md_intervals := ivs @
           [\<lparr>iv_MachineID = tr_MachineID t, iv_State = tr_State t, iv_StartedAt = tr_Timestamp t,
             iv_EndedAt = None, iv_Reason = []\<rparr>]\<rparr>))"

fun rehydrate :: "(string \<Rightarrow> 'e + StateInterval option) \<Rightarrow> machines \<Rightarrow> string list \<Rightarrow> machines" where
  "rehydrate lastOpen machines [] = machines"
| "rehydrate lastOpen machines (mid # machineIDs) =
     (if machines mid \<noteq> None then rehydrate lastOpen machines machineIDs
      else case lastOpen mid of
        Inl err \<Rightarrow> rehydrate lastOpen machines machineIDs
      | Inr None \<Rightarrow> rehydrate lastOpen machines machineIDs
      | Inr (Some iv) \<Rightarrow>
          rehydrate lastOpen (machines(mid \<mapsto> \<lparr>md_intervals = [iv], md_windowStart = iv_StartedAt iv\<rparr>)) machineIDs)"

type_synonym 'e shift_reader = "string \<Rightarrow> Window \<Rightarrow> ('e + duration \<times> bool) option"

definition no_flags :: SnapshotFlags where
  "no_flags = \<lparr>sf_ShiftConfigMissing = False, sf_OpenIntervalClipped = False, sf_NoData = False\<rparr>"

text \<open>The snapshot of one machine, from its data and its planned time.\<close>

definition snapshot_of :: "string \<Rightarrow> gotime \<Rightarrow> machineData \<Rightarrow> duration \<Rightarrow> AvailabilitySnapshot" where
  "snapshot_of mid now data planned =
     (let window = \<lparr>w_From = md_windowStart data, w_To = now\<rparr>;
          i = Aggregate window (close_last now (md_intervals data)) planned;
          result = Availability i
      in \<lparr>sn_MachineID = mid, sn_WindowFrom = md_windowStart data, sn_WindowTo = now,
          sn_Availability = rs_Availability result, sn_PlannedTime = rs_PlannedTime result, sn_RunTime = rs_RunTime result,
          sn_PlannedDowntime = rs_PlannedDowntime result, sn_UnplannedDowntime = rs_UnplannedDowntime result,
          sn_IntervalCount = in_IntervalCount i, sn_HasData = rs_HasData result, sn_ComputedAt = now,
          sn_Flags = (if rs_HasData result then no_flags else no_flags\<lparr>sf_NoData := True\<rparr>)\<rparr>)"

text \<open>The sink's state is threaded through \<open>update\<close>; an error of the sink is only logged.\<close>

fun tick :: "'e shift_reader \<Rightarrow> ('k \<Rightarrow> AvailabilitySnapshot \<Rightarrow> 'e2 option \<times> 'k) \<Rightarrow> machines \<Rightarrow> gotime \<Rightarrow> string list \<Rightarrow> 'k \<Rightarrow> 'k option" where
  "tick shifts update machines now [] sink = Some sink"
| "tick shifts update machines now (mid # order) sink =
     (case machines mid of
        None \<Rightarrow> tick shifts update machines now order sink
      | Some data \<Rightarrow>
          (case shifts mid \<lparr>w_From = md_windowStart data, w_To = now\<rparr> of
             None \<Rightarrow> None
           | Some (Inl err) \<Rightarrow> tick shifts update machines now order sink
           | Some (Inr (planned, found)) \<Rightarrow>
               tick shifts update machines now order (snd (update sink (snapshot_of mid now data planned)))))"

subsection \<open>The engine follows the store\<close>

lemma close_last_snoc: "close_last ts (xs @ [x]) = xs @ [end_at ts x]"
  by (simp add: close_last_def end_at_def list_update_append)

lemma close_last_end_at: "latest_open ivs \<Longrightarrow> close_last ts ivs = map (end_at ts) ivs"
  by (cases ivs rule: rev_cases)
    (simp_all add: close_last_snoc latest_open_def map_end_at_closed, simp add: close_last_def)

definition engine_intervals :: "machines \<Rightarrow> string \<Rightarrow> StateInterval list" where
  "engine_intervals ms m = (case ms m of None \<Rightarrow> [] | Some data \<Rightarrow> md_intervals data)"

lemma engine_intervals_Apply:
  "engine_intervals (Engine_Apply ms t) m =
     (if m = tr_MachineID t then close_last (tr_Timestamp t) (engine_intervals ms m) @ [opened t] else engine_intervals ms m)"
  by (simp add: engine_intervals_def Engine_Apply_def Let_def opened_def open_at_def split: option.splits)

text \<open>The engine mirrors a store: the same intervals per machine, the window from the first start.\<close>

definition mirrors :: "machines \<Rightarrow> (string \<Rightarrow> StateInterval list) \<Rightarrow> bool" where
  "mirrors ms h \<longleftrightarrow> (\<forall>m. engine_intervals ms m = h m) \<and>
     (\<forall>m data. ms m = Some data \<longrightarrow> h m \<noteq> [] \<and> md_windowStart data = iv_StartedAt (hd (h m)))"

lemma mirrors_empty: "mirrors Map.empty (\<lambda>m. [])"
  by (simp add: mirrors_def engine_intervals_def)

lemma mirrors_Apply:
  assumes "mirrors ms h" "latest_open (h (tr_MachineID t))" "\<not> ignored t (h (tr_MachineID t))"
  shows "mirrors (Engine_Apply ms t) (h(tr_MachineID t := advance t (h (tr_MachineID t))))"
proof -
  let ?m = "tr_MachineID t"
  have ivs: "engine_intervals (Engine_Apply ms t) m = (h(?m := advance t (h ?m))) m" for m
    using assms by (simp add: engine_intervals_Apply mirrors_def advance_def close_last_end_at)
  have "md_windowStart data = iv_StartedAt (hd (advance t (h ?m)))" if "Engine_Apply ms t ?m = Some data" for data
  proof (cases "ms ?m")
    case None
    then have "h ?m = []" using assms(1) by (simp add: mirrors_def engine_intervals_def) (metis option.simps(4))
    with None that show ?thesis by (auto simp: Engine_Apply_def Let_def advance_def ignored_def running_open_def opened_def open_at_def)
  next
    case (Some d)
    then have "h ?m \<noteq> []" "md_windowStart d = iv_StartedAt (hd (h ?m))" using assms(1) by (auto simp: mirrors_def)
    with Some that assms(3) show ?thesis by (auto simp: Engine_Apply_def Let_def advance_def hd_append hd_map)
  qed
  moreover have "Engine_Apply ms t m = ms m" if "m \<noteq> ?m" for m using that by (simp add: Engine_Apply_def Let_def)
  ultimately show ?thesis
    using assms(1,3) ivs unfolding mirrors_def by (auto simp: advance_def)
qed

context interval_store
begin

lemma run_mirrored:
  "sound s \<Longrightarrow> mirrors ms (hist s) \<Longrightarrow> list_all (\<lambda>(f, t). faultless f \<and> time_ok (tr_Timestamp t)) ts \<Longrightarrow>
   apply_run (apply_to Engine_Apply) s ms ts = (s', ms') \<Longrightarrow> sound s' \<and> mirrors ms' (hist s')"
proof (induction ts arbitrary: s ms)
  case (Cons ft ts)
  obtain f t where ft: "ft = (f, t)" by (cases ft)
  let ?h = "hist s (tr_MachineID t)"
  obtain s1 ms1 where a: "apply_to Engine_Apply f s ms t = (None, s1, ms1)" "sound s1"
    "hist s1 = (hist s)(tr_MachineID t := advance t ?h)" "ms1 = (if ignored t ?h then ms else Engine_Apply ms t)"
    by (rule Apply_faultless [OF Cons.prems(1), of t f Engine_Apply ms]) (use Cons.prems(3) ft in auto)
  have "latest_open ?h" using Cons.prems(1) by (simp add: sound_def)
  then have "mirrors ms1 (hist s1)"
    using mirrors_Apply [OF Cons.prems(2)] Cons.prems(2) a(3,4) by (auto simp: advance_def)
  then show ?case using Cons.IH [OF a(2)] Cons.prems(3,4) a(1) ft by simp
qed simp

end

subsection \<open>Clipping the open interval\<close>

lemma covered_end_at: "covered w (end_at (w_To w) iv) = covered w iv"
  by (auto simp: covered_iff end_at_def IsOpen_def split: option.splits)

lemma spent_end_at: "spent P w (map (end_at (w_To w)) ivs) = spent P w ivs"
  by (induction ivs) (simp_all add: spent_Cons covered_end_at, auto simp: end_at_def)

lemma chained_end_at:
  assumes "chained ivs" "latest_open ivs"
  shows "chained (map (end_at ts) ivs)"
proof -
  have "sorted_wrt (\<lambda>a b. ends_before (end_at ts a) (end_at ts b)) ivs"
    using assms(1) unfolding chained_def
    by (rule sorted_wrt_mono_rel [rotated]) (auto simp: ends_before_def end_at_def IsOpen_def split: option.splits)
  then show ?thesis by (simp add: chained_def sorted_wrt_map)
qed

lemma snapshot_of_spent:
  assumes "chained ivs" "latest_open ivs" "fits64 (tm_ns now - tm_ns from)"
  shows "snapshot_of m now \<lparr>md_intervals = ivs, md_windowStart = from\<rparr> planned =
    (let w = \<lparr>w_From = from, w_To = now\<rparr>;
         i = \<lparr>in_PlannedProductionTime = planned, in_PlannedDowntime = int (card (spent IsPlannedStop w ivs)),
              in_UnplannedDowntime = int (card (spent unplanned_stop w ivs)),
              in_IntervalCount = int (length (filter (\<lambda>iv. covered w iv \<noteq> {}) ivs))\<rparr>;
         r = Availability i
     in \<lparr>sn_MachineID = m, sn_WindowFrom = from, sn_WindowTo = now,
          sn_Availability = rs_Availability r, sn_PlannedTime = rs_PlannedTime r, sn_RunTime = rs_RunTime r,
          sn_PlannedDowntime = rs_PlannedDowntime r, sn_UnplannedDowntime = rs_UnplannedDowntime r,
          sn_IntervalCount = in_IntervalCount i, sn_HasData = rs_HasData r, sn_ComputedAt = now,
          sn_Flags = (if rs_HasData r then no_flags else no_flags\<lparr>sf_NoData := True\<rparr>)\<rparr>)"
proof -
  let ?w = "\<lparr>w_From = from, w_To = now\<rparr>"
  have "Aggregate ?w (close_last now ivs) planned = Aggregate ?w (map (end_at (w_To ?w)) ivs) planned"
    by (simp add: close_last_end_at [OF assms(2)])
  also have "\<dots> = \<lparr>in_PlannedProductionTime = planned, in_PlannedDowntime = int (card (spent IsPlannedStop ?w ivs)),
      in_UnplannedDowntime = int (card (spent unplanned_stop ?w ivs)),
      in_IntervalCount = int (length (filter (\<lambda>iv. covered ?w iv \<noteq> {}) ivs))\<rparr>"
    unfolding Aggregate_spent [OF chained_end_at [OF assms(1,2)], of ?w, simplified, OF assms(3)]
    using spent_end_at [of _ ?w ivs] covered_end_at [of ?w] by (simp add: filter_map comp_def)
  finally show ?thesis by (simp add: snapshot_of_def Let_def)
qed

lemma rehydrate_eq:
  "rehydrate lastOpen ms ids m =
     (if ms m \<noteq> None then ms m
      else if m \<in> set ids then
        (case lastOpen m of Inr (Some iv) \<Rightarrow> Some \<lparr>md_intervals = [iv], md_windowStart = iv_StartedAt iv\<rparr> | _ \<Rightarrow> None)
      else None)"
proof (induction ids arbitrary: ms m)
  case (Cons mid ids)
  show ?case
  proof (cases "ms mid")
    case None
    then show ?thesis
      by (cases "lastOpen mid"; cases "m = mid") (auto simp: Cons.IH split: sum.splits option.splits)
  qed (auto simp: Cons.IH)
qed simp

subsection \<open>Claims\<close>

text \<open>C21. Without failures the engine's memory mirrors the table: after any sequence of transitions
  it holds for every machine exactly the intervals the table holds, and its window starts where the
  machine's first interval does.\<close>

theorem live_engine_mirrors_store:
  assumes "list_all (\<lambda>t. formattable (tr_Timestamp t)) ts"
    "apply_run (repo_Apply Engine_Apply) [] Map.empty (map (Pair no_faults) ts) = (db, ms)"
  shows "engine_intervals ms m = history db m \<and>
    map_option md_windowStart (ms m) = (if history db m = [] then None else Some (iv_StartedAt (hd (history db m))))"
proof -
  have ok: "list_all (\<lambda>(f, t). repo.faultless f \<and> formattable (tr_Timestamp t)) (map (Pair no_faults) ts)"
    using assms(1) by (simp add: list_all_iff repo.faultless_def)
  have empty: "mirrors Map.empty (history [])" using mirrors_empty by (simp add: history_def [abs_def])
  have "mirrors ms (history db)"
    using repo.run_mirrored [OF well_kept_Nil [unfolded well_kept_sound] empty ok assms(2) [unfolded repo_Apply_def]] by simp
  then have "engine_intervals ms m = history db m"
    "ms m = Some data \<Longrightarrow> history db m \<noteq> [] \<and> md_windowStart data = iv_StartedAt (hd (history db m))" for data
    by (simp_all add: mirrors_def)
  then show ?thesis by (cases "ms m") (auto simp: engine_intervals_def)
qed

theorem live_engine_mirrors_store_witness:
  "engine_intervals (snd (apply_run (repo_Apply Engine_Apply) [] Map.empty
      (map (Pair no_faults) [tr_demo Running (utc_day 2026 6 1), tr_demo Stopped (utc_day 2026 6 5)]))) ''m1'' =
   history (fst (apply_run (repo_Apply Engine_Apply) [] Map.empty
      (map (Pair no_faults) [tr_demo Running (utc_day 2026 6 1), tr_demo Stopped (utc_day 2026 6 5)]))) ''m1''"
  using live_engine_mirrors_store [OF _ prod.collapse [symmetric],
      of "[tr_demo Running (utc_day 2026 6 1), tr_demo Stopped (utc_day 2026 6 5)]" "''m1''"]
  by (simp add: tr_demo_def formattable_days)

text \<open>C25. A snapshot counts what the machine spent: for a machine's timeline the downtime it reports
  is the number of nanoseconds from the window's start to now that the machine spent in downtime,
  with the open interval counted up to now, and with planned time the availability is between 0
  and 1 and within \<open>2 powi (-51)\<close> of run time over planned time.\<close>

theorem snapshot_counts_downtime:
  fixes m :: string
  assumes "timeline ivs" "fits64 (tm_ns now - tm_ns from)" "0 < planned" "fits64 planned"
  defines "w \<equiv> \<lparr>w_From = from, w_To = now\<rparr>"
    and "s \<equiv> snapshot_of m now \<lparr>md_intervals = ivs, md_windowStart = from\<rparr> planned"
  shows "sn_PlannedDowntime s + sn_UnplannedDowntime s = int (card (spent IsDowntime w ivs)) \<and>
    sn_RunTime s = max (planned - int (card (spent IsDowntime w ivs))) 0 \<and>
    0 \<le> sn_Availability s \<and> sn_Availability s \<le> 1 \<and>
    \<bar>sn_Availability s - of_int (sn_RunTime s) / of_int planned\<bar> \<le> 1 / 2 ^ 51 \<and>
    sn_HasData s \<and> \<not> sf_NoData (sn_Flags s)"
proof -
  have c: "chained ivs" "latest_open ivs" using assms(1) by (simp_all add: timeline_def)
  define i where "i = \<lparr>in_PlannedProductionTime = planned, in_PlannedDowntime = int (card (spent IsPlannedStop w ivs)),
      in_UnplannedDowntime = int (card (spent unplanned_stop w ivs)),
      in_IntervalCount = int (length (filter (\<lambda>iv. covered w iv \<noteq> {}) ivs))\<rparr>"
  have down: "in_PlannedDowntime i + in_UnplannedDowntime i = int (card (spent IsDowntime w ivs))"
    using card_downtime [OF c(1), of w] by (simp add: i_def)
  have fits: "fits64 (int (card (spent IsDowntime w ivs)))"
    by (rule fits64_window_card [OF _ spent_sub]) (simp add: w_def assms(2))
  have hyps: "0 < in_PlannedProductionTime i" "fits64 (in_PlannedProductionTime i)" "0 \<le> in_PlannedDowntime i"
    "0 \<le> in_UnplannedDowntime i" "fits64 (in_PlannedDowntime i + in_UnplannedDowntime i)"
    using assms(3,4) fits down by (simp_all add: i_def)
  have s: "sn_PlannedDowntime s = in_PlannedDowntime i" "sn_UnplannedDowntime s = in_UnplannedDowntime i"
    "sn_RunTime s = rs_RunTime (Availability i)" "sn_Availability s = rs_Availability (Availability i)" "sn_HasData s"
    "\<not> sf_NoData (sn_Flags s)"
    using snapshot_of_spent [OF c assms(2), of m planned, folded w_def] assms(3)
    by (simp_all add: s_def i_def Let_def Availability_def no_flags_def)
  have r: "rs_RunTime (Availability i) = max (planned - int (card (spent IsDowntime w ivs))) 0"
    using Availability_ratio [OF hyps] down by (simp add: i_def)
  note b = Availability_in_range [OF hyps(1)]
  show ?thesis using Availability_err [OF hyps] s r down b by (simp add: i_def)
qed

definition demo_timeline :: "StateInterval list" where
  "demo_timeline =
     [(open_at ''m1'' Running (at_min 0))\<lparr>iv_EndedAt := Some (at_min 60)\<rparr>, open_at ''m1'' Stopped (at_min 60)]"

theorem snapshot_counts_downtime_witness:
  "sn_RunTime (snapshot_of ''m1'' (at_min 90) \<lparr>md_intervals = demo_timeline, md_windowStart = at_min 0\<rparr> (90 * minute)) =
     max (90 * minute - int (card (spent IsDowntime \<lparr>w_From = at_min 0, w_To = at_min 90\<rparr> demo_timeline))) 0"
  using snapshot_counts_downtime [of demo_timeline "at_min 90" "at_min 0" "90 * minute" "''m1''"]
  by (simp add: demo_timeline_def timeline_def chained_def latest_open_def running_open_def ends_before_def proper_def open_at_def
      IsOpen_def at_min_def minute_def second_def fits64_def)

text \<open>Seeding the engine from the store gives every listed machine that it does not track yet
  its open interval as the start of a new window, leaves tracked machines alone, and skips machines
  whose read fails or finds nothing.\<close>

theorem rehydrate_seeds_open_intervals:
  "rehydrate lastOpen ms ids m =
     (if ms m \<noteq> None then ms m
      else if m \<in> set ids then
        (case lastOpen m of Inr (Some iv) \<Rightarrow> Some \<lparr>md_intervals = [iv], md_windowStart = iv_StartedAt iv\<rparr> | _ \<Rightarrow> None)
      else None)"
  by (rule rehydrate_eq)

text \<open>When the shift reader finds no configuration it reports planned time 0, and the engine,
  which ignores that nothing was found, emits a snapshot without data: availability 0 and no flag
  for the missing configuration.\<close>

theorem live_without_shift_has_no_data:
  "tick (\<lambda>m w. Some (Inr (0, False))) (\<lambda>sent s. (None :: unit option, sent @ [s])) [m \<mapsto> data] now [m] [] =
     Some [\<lparr>sn_MachineID = m, sn_WindowFrom = md_windowStart data, sn_WindowTo = now, sn_Availability = 0,
       sn_PlannedTime = 0, sn_RunTime = 0, sn_PlannedDowntime = 0, sn_UnplannedDowntime = 0,
       sn_IntervalCount = in_IntervalCount (Aggregate \<lparr>w_From = md_windowStart data, w_To = now\<rparr> (close_last now (md_intervals data)) 0),
       sn_HasData = False, sn_ComputedAt = now,
       sn_Flags = \<lparr>sf_ShiftConfigMissing = False, sf_OpenIntervalClipped = False, sf_NoData = True\<rparr>\<rparr>]"
  by (simp add: snapshot_of_def Let_def Availability_def Aggregate_def no_flags_def split: prod.splits)

end
