(* ===== verification/Live_Sinks.thy ===== *)
theory Live_Sinks
  imports Live_Engine "HOL-Library.Sublist"
begin

section \<open>Where live snapshots go (live/adapters)\<close>

text \<open>
  The sinks of the live engine: the log sink keeps the latest snapshot of each machine
  (\<open>logsink/sink.go\<close>), the websocket hub broadcasts to the connections of a machine
  (\<open>websocket/sink.go\<close>, \<open>http_handler/handler.go\<close>), and the composite sink decouples the engine from
  both (\<open>composite/sink.go\<close>). A websocket connection is a third-party object: the hub only compares,
  writes to and closes it, so it is an identifier, and whether a write fails is an argument.
\<close>

subsection \<open>The log sink\<close>

type_synonym LogSink = "string \<rightharpoonup> AvailabilitySnapshot"

definition LogSink_Update :: "LogSink \<Rightarrow> AvailabilitySnapshot \<Rightarrow> unit option \<times> LogSink" where
  "LogSink_Update s snap = (None, s(sn_MachineID snap \<mapsto> snap))"

definition Latest :: "LogSink \<Rightarrow> string \<Rightarrow> AvailabilitySnapshot option" where
  "Latest s machineID = s machineID"

lemma Latest_updates:
  "Latest (foldl (\<lambda>s snap. snd (LogSink_Update s snap)) Map.empty snaps) m =
     (case filter (\<lambda>snap. sn_MachineID snap = m) snaps of [] \<Rightarrow> None | xs \<Rightarrow> Some (last xs))"
proof (induction snaps rule: rev_induct)
  case (snoc x xs)
  then show ?case by (auto simp: Latest_def LogSink_Update_def split: list.splits)
qed (simp add: Latest_def)

subsection \<open>The websocket hub\<close>

type_synonym ws_conn = nat

record Hub =
  hb_conns :: "string \<Rightarrow> ws_conn list"
  hb_closed :: "ws_conn set"

definition NewHub :: Hub where
  "NewHub = \<lparr>hb_conns = (\<lambda>_. []), hb_closed = {}\<rparr>"

definition Register :: "Hub \<Rightarrow> string \<Rightarrow> ws_conn \<Rightarrow> Hub" where
  "Register h machineID c = h\<lparr>hb_conns := (hb_conns h)(machineID := hb_conns h machineID @ [c])\<rparr>"

definition removeUnsafe :: "Hub \<Rightarrow> string \<Rightarrow> ws_conn \<Rightarrow> Hub" where
  "removeUnsafe h machineID c = h\<lparr>hb_conns := (hb_conns h)(machineID := remove1 c (hb_conns h machineID))\<rparr>"

definition Unregister :: "Hub \<Rightarrow> string \<Rightarrow> ws_conn \<Rightarrow> Hub" where
  "Unregister h machineID c = (removeUnsafe h machineID c)\<lparr>hb_closed := insert c (hb_closed h)\<rparr>"

definition ConnCount :: "Hub \<Rightarrow> string \<Rightarrow> nat" where
  "ConnCount h machineID = length (hb_conns h machineID)"

text \<open>
  \<open>Broadcast\<close> copies the list of connections under the lock, writes without the lock, and then
  unregisters the dead ones. \<open>others\<close> is what other goroutines do to the hub between the two locked
  parts. The result has the hub and the writes, in order.
\<close>

definition Broadcast :: "(ws_conn \<Rightarrow> bool) \<Rightarrow> (Hub \<Rightarrow> Hub) \<Rightarrow> Hub \<Rightarrow> string \<Rightarrow> bytes \<Rightarrow> Hub \<times> (ws_conn \<times> bytes) list" where
  "Broadcast write_fails others h machineID payload =
     (let conns = hb_conns h machineID;
          dead = filter write_fails conns
      in (foldl (\<lambda>h c. Unregister h machineID c) (others h) dead, map (\<lambda>c. (c, payload)) conns))"

definition WebsocketSink_Update ::
  "(AvailabilitySnapshot \<Rightarrow> string + bytes) \<Rightarrow> (ws_conn \<Rightarrow> bool) \<Rightarrow> (Hub \<Rightarrow> Hub) \<Rightarrow> Hub \<Rightarrow> AvailabilitySnapshot \<Rightarrow>
   string option \<times> Hub \<times> (ws_conn \<times> bytes) list"
where
  "WebsocketSink_Update marshal write_fails others h snap =
     (case marshal snap of
        Inl err \<Rightarrow> (Some (''ws sink: marshal: '' @ err), h, [])
      | Inr payload \<Rightarrow> (None, Broadcast write_fails others h (sn_MachineID snap) payload))"

text \<open>The endpoint: a successful upgrade registers the connection; the read loop, which discards
  what it reads, unregisters it at the first error.\<close>

definition serveWS :: "(unit + ws_conn) \<Rightarrow> Hub \<Rightarrow> string \<Rightarrow> Hub" where
  "serveWS upgrade h machineID = (case upgrade of Inl err \<Rightarrow> h | Inr c \<Rightarrow> Register h machineID c)"

fun readLoop :: "('a + bytes) list \<Rightarrow> Hub \<Rightarrow> string \<Rightarrow> ws_conn \<Rightarrow> Hub option" where
  "readLoop [] h machineID c = None"
| "readLoop (Inr frame # reads) h machineID c = readLoop reads h machineID c"
| "readLoop (Inl err # reads) h machineID c = Some (Unregister h machineID c)"

lemma hb_conns_Unregister: "hb_conns (Unregister h m c) = (hb_conns h)(m := remove1 c (hb_conns h m))"
  by (simp add: Unregister_def removeUnsafe_def)

lemma hb_closed_Unregister: "hb_closed (Unregister h m c) = insert c (hb_closed h)"
  by (simp add: Unregister_def removeUnsafe_def)

lemma foldl_Unregister:
  "hb_conns (foldl (\<lambda>h c. Unregister h m c) h cs) = (hb_conns h)(m := foldl (\<lambda>l c. remove1 c l) (hb_conns h m) cs)"
  "hb_closed (foldl (\<lambda>h c. Unregister h m c) h cs) = hb_closed h \<union> set cs"
  by (induction cs arbitrary: h) (auto simp: hb_conns_Unregister hb_closed_Unregister)

lemma foldl_remove1: "distinct l \<Longrightarrow> foldl (\<lambda>l c. remove1 c l) l cs = filter (\<lambda>c. c \<notin> set cs) l"
proof (induction cs arbitrary: l)
  case (Cons c cs)
  then have "foldl (\<lambda>l c. remove1 c l) (remove1 c l) cs = filter (\<lambda>x. x \<notin> set cs) (remove1 c l)" by (simp add: distinct_remove1)
  also have "\<dots> = filter (\<lambda>x. x \<notin> set (c # cs)) l" using Cons.prems
    by (auto simp: distinct_remove1_removeAll removeAll_filter_not_eq intro: filter_cong)
  finally show ?case by simp
qed simp

lemma Broadcast_eq:
  assumes "Broadcast write_fails others h m payload = (h', sent)" "distinct (hb_conns (others h) m)"
  shows "sent = map (\<lambda>c. (c, payload)) (hb_conns h m)"
    "hb_conns h' m = filter (\<lambda>c. \<not> (c \<in> set (hb_conns h m) \<and> write_fails c)) (hb_conns (others h) m)"
    "m' \<noteq> m \<Longrightarrow> hb_conns h' m' = hb_conns (others h) m'"
    "hb_closed h' = hb_closed (others h) \<union> {c \<in> set (hb_conns h m). write_fails c}"
  using assms by (auto simp: Broadcast_def Let_def foldl_Unregister foldl_remove1)

subsection \<open>The composite sink\<close>

text \<open>
  One channel of capacity 1 and one drain goroutine per sink. \<open>cs_updates\<close> and \<open>cs_delivered\<close> are
  ghosts: what was handed to the composite sink, and what each sink has been given.
\<close>

record CompositeSink =
  cs_chans :: "AvailabilitySnapshot chan list"
  cs_cancelled :: bool
  cs_running :: "nat set"
  cs_updates :: "AvailabilitySnapshot list"
  cs_delivered :: "nat \<Rightarrow> AvailabilitySnapshot list"

definition NewCompositeSink :: "nat \<Rightarrow> CompositeSink" where
  "NewCompositeSink n =
     \<lparr>cs_chans = replicate n (make_chan 1), cs_cancelled = False, cs_running = {..<n}, cs_updates = [], cs_delivered = (\<lambda>_. [])\<rparr>"

text \<open>A send that does not block: a full channel is skipped.\<close>

definition try_send :: "'a \<Rightarrow> 'a chan \<Rightarrow> 'a chan" where
  "try_send x c = (case chan_send c x of Some c' \<Rightarrow> c' | None \<Rightarrow> c)"

definition Composite_Update :: "CompositeSink \<Rightarrow> AvailabilitySnapshot \<Rightarrow> CompositeSink" where
  "Composite_Update c s = c\<lparr>cs_chans := map (try_send s) (cs_chans c), cs_updates := cs_updates c @ [s]\<rparr>"

inductive composite_step :: "CompositeSink \<Rightarrow> CompositeSink \<Rightarrow> bool" where
  cs_update: "composite_step c (Composite_Update c s)"
| cs_close: "composite_step c (c\<lparr>cs_cancelled := True\<rparr>)"
| cs_drain: "i \<in> cs_running c \<Longrightarrow> i < length (cs_chans c) \<Longrightarrow> chan_recv (cs_chans c ! i) = Some (s, ch) \<Longrightarrow>
    composite_step c (c\<lparr>cs_chans := (cs_chans c)[i := ch], cs_delivered := (cs_delivered c)(i := cs_delivered c i @ [s])\<rparr>)"
| cs_stop: "i \<in> cs_running c \<Longrightarrow> cs_cancelled c \<Longrightarrow> composite_step c (c\<lparr>cs_running := cs_running c - {i}\<rparr>)"

definition composite_inv :: "nat \<Rightarrow> CompositeSink \<Rightarrow> bool" where
  "composite_inv n c \<longleftrightarrow> length (cs_chans c) = n \<and>
     (\<forall>i<n. ch_cap (cs_chans c ! i) = 1 \<and> length (ch_buf (cs_chans c ! i)) \<le> 1 \<and>
        subseq (cs_delivered c i @ ch_buf (cs_chans c ! i)) (cs_updates c))"

lemma try_send_cases:
  "try_send x c = c \<and> ch_cap c \<le> length (ch_buf c) \<or> try_send x c = c\<lparr>ch_buf := ch_buf c @ [x]\<rparr> \<and> length (ch_buf c) < ch_cap c"
  by (auto simp: try_send_def chan_send_def)

lemma composite_inv_step:
  assumes "composite_inv n c" "composite_step c c'"
  shows "composite_inv n c'"
  using assms(2)
proof cases
  case (cs_update s)
  have "ch_cap (try_send s ch) = 1 \<and> length (ch_buf (try_send s ch)) \<le> 1 \<and> subseq (d @ ch_buf (try_send s ch)) (u @ [s])"
    if "ch_cap ch = 1" "length (ch_buf ch) \<le> 1" "subseq (d @ ch_buf ch) u" for ch d u
  proof -
    have "subseq (d @ ch_buf ch) (u @ [s])" "subseq ((d @ ch_buf ch) @ [s]) (u @ [s])"
      using that(3) by (auto intro: list_emb_prefix list_emb_append_mono simp del: append_assoc)
    then show ?thesis using try_send_cases [of s ch] that(1,2) by auto
  qed
  then show ?thesis using assms(1) cs_update by (auto simp: composite_inv_def Composite_Update_def)
next
  case (cs_drain i s ch)
  have b: "ch_buf (cs_chans c ! i) = s # ch_buf ch" "ch_cap ch = ch_cap (cs_chans c ! i)" using chan_recv_Some [OF cs_drain(4)] by simp_all
  show ?thesis using assms(1) cs_drain b by (auto simp: composite_inv_def nth_list_update)
qed (use assms(1) in \<open>auto simp: composite_inv_def\<close>)

interpretation composite: invariant_system "\<lambda>c. c = NewCompositeSink n" composite_step "composite_inv n" for n
proof unfold_locales
  show "composite_inv n c" if "c = NewCompositeSink n" for c
    using that by (simp add: composite_inv_def NewCompositeSink_def)
qed (rule composite_inv_step)

subsection \<open>Claims\<close>

text \<open>The composite sink never holds the engine up, and for every sink: what it has been given,
  followed by what waits in its channel, is a subsequence of the updates in their order, nothing is
  invented, duplicated or reordered, and at most one snapshot waits. A sink whose channel is empty
  when an update comes gets it.\<close>

theorem composite_delivers_subsequence:
  assumes "reachable (\<lambda>c. c = NewCompositeSink n) composite_step c" "i < n"
  shows "subseq (cs_delivered c i @ ch_buf (cs_chans c ! i)) (cs_updates c) \<and> length (ch_buf (cs_chans c ! i)) \<le> 1 \<and>
    (ch_buf (cs_chans c ! i) = [] \<longrightarrow> ch_buf (cs_chans (Composite_Update c s) ! i) = [s])"
proof -
  have inv: "composite_inv n c" by (rule composite.reachable_inv [OF assms(1)])
  then have "ch_buf (cs_chans c ! i) = [] \<Longrightarrow> ch_buf (cs_chans (Composite_Update c s) ! i) = [s]"
    using assms(2) try_send_cases [of s "cs_chans c ! i"] by (auto simp: composite_inv_def Composite_Update_def)
  with inv assms(2) show ?thesis by (simp add: composite_inv_def)
qed

definition demo_snapshot :: "int \<Rightarrow> AvailabilitySnapshot" where
  "demo_snapshot n = snapshot_of ''m1'' (at_min n) \<lparr>md_intervals = [open_at ''m1'' Running (at_min 0)], md_windowStart = at_min 0\<rparr> 0"

theorem composite_delivers_subsequence_witness:
  "subseq (cs_delivered (Composite_Update (Composite_Update (NewCompositeSink 2) (demo_snapshot 1)) (demo_snapshot 2)) 1 @
     ch_buf (cs_chans (Composite_Update (Composite_Update (NewCompositeSink 2) (demo_snapshot 1)) (demo_snapshot 2)) ! 1))
     [demo_snapshot 1, demo_snapshot 2]"
proof -
  have r: "reachable (\<lambda>c. c = NewCompositeSink 2) composite_step
      (Composite_Update (Composite_Update (NewCompositeSink 2) (demo_snapshot 1)) (demo_snapshot 2))"
    by (rule reachable_step, rule reachable_step, rule reachable_init) (rule refl cs_update)+
  show ?thesis
    using composite_delivers_subsequence [OF r, of 1] by (simp add: Composite_Update_def NewCompositeSink_def)
qed

text \<open>A broadcast writes the payload once to every connection that was registered for the machine
  when it began, removes and closes exactly those whose write failed, keeps every connection that
  others registered meanwhile, and leaves other machines alone.\<close>

theorem broadcast_reaches_every_connection:
  assumes "Broadcast write_fails others h m payload = (h', sent)" "distinct (hb_conns (others h) m)"
  shows "sent = map (\<lambda>c. (c, payload)) (hb_conns h m) \<and>
    hb_conns h' m = filter (\<lambda>c. \<not> (c \<in> set (hb_conns h m) \<and> write_fails c)) (hb_conns (others h) m) \<and>
    (\<forall>m'. m' \<noteq> m \<longrightarrow> hb_conns h' m' = hb_conns (others h) m') \<and>
    hb_closed h' = hb_closed (others h) \<union> {c \<in> set (hb_conns h m). write_fails c}"
  using Broadcast_eq [OF assms] by blast

theorem broadcast_reaches_every_connection_witness:
  "hb_conns (fst (Broadcast (\<lambda>c. c = 1) (\<lambda>h. Register h ''m1'' 3) (Register (Register NewHub ''m1'' 1) ''m1'' 2) ''m1'' [])) ''m1'' = [2, 3]"
  using broadcast_reaches_every_connection [of "\<lambda>c. c = 1" "\<lambda>h. Register h ''m1'' 3" "Register (Register NewHub ''m1'' 1) ''m1'' 2" "''m1''" "[]"
      "fst (Broadcast (\<lambda>c. c = 1) (\<lambda>h. Register h ''m1'' 3) (Register (Register NewHub ''m1'' 1) ''m1'' 2) ''m1'' [])"
      "snd (Broadcast (\<lambda>c. c = 1) (\<lambda>h. Register h ''m1'' 3) (Register (Register NewHub ''m1'' 1) ''m1'' 2) ''m1'' [])"]
  by (simp add: Register_def NewHub_def)

end
