(* ===== verification/Text_Order.thy ===== *)
theory Text_Order
  imports Go_Calendar "HOL-Library.List_Lexorder" "HOL-Library.Char_ord"
begin

section \<open>When the text order of times is their order\<close>

text \<open>
  The repositories compare times as text. For times in UTC with whole seconds and four-digit years
  the texts have the same shape, and their lexicographic order is the order of the instants.
\<close>

lemma append_less:
  fixes a b :: "'a :: linorder list"
  shows "length a = length b \<Longrightarrow> a @ s < b @ t \<longleftrightarrow> a < b \<or> a = b \<and> s < t"
  by (induction a b rule: list_induct2) auto

lemma digit_less: "0 \<le> d \<Longrightarrow> d < 10 \<Longrightarrow> 0 \<le> e \<Longrightarrow> e < 10 \<Longrightarrow> digit d < digit e \<longleftrightarrow> d < e"
  by (auto simp: digit_def less_char_def)

lemma fixed_inj: "0 \<le> a \<Longrightarrow> a < 10 ^ k \<Longrightarrow> 0 \<le> b \<Longrightarrow> b < 10 ^ k \<Longrightarrow> fixed k a = fixed k b \<longleftrightarrow> a = b"
  using number_fixed [of a k] number_fixed [of b k] by metis

lemma div_mod_less:
  fixes a b n :: int
  assumes "0 < n"
  shows "a < b \<longleftrightarrow> a div n < b div n \<or> a div n = b div n \<and> a mod n < b mod n"
proof (cases "a div n = b div n")
  case True
  have "a = a div n * n + a mod n" "b = a div n * n + b mod n" by (simp, simp add: True)
  then have "a < b \<longleftrightarrow> a mod n < b mod n" by linarith
  with True show ?thesis by simp
next
  case False
  with zdiv_mono1 [OF _ assms, of a b] zdiv_mono1 [OF _ assms, of b a] show ?thesis by linarith
qed

lemma fixed_less:
  "0 \<le> a \<Longrightarrow> a < 10 ^ k \<Longrightarrow> 0 \<le> b \<Longrightarrow> b < 10 ^ k \<Longrightarrow> fixed k a < fixed k b \<longleftrightarrow> a < b"
proof (induction k arbitrary: a b)
  case (Suc k)
  have d: "a div 10 < 10 ^ k" "b div 10 < 10 ^ k" using Suc.prems by (simp_all add: div_less_iff_less_mult mult.commute)
  have "fixed (Suc k) a < fixed (Suc k) b \<longleftrightarrow> a div 10 < b div 10 \<or> a div 10 = b div 10 \<and> a mod 10 < b mod 10"
    using Suc.IH [of "a div 10" "b div 10"] d Suc.prems
    by (simp add: append_less digit_less fixed_inj)
  also have "\<dots> \<longleftrightarrow> a < b" using div_mod_less [of 10 a b] by simp
  finally show ?case .
qed simp

definition date_text :: "int \<Rightarrow> int \<Rightarrow> int \<Rightarrow> int \<Rightarrow> string" where
  "date_text y m d sod =
     fixed 4 y @ CHR ''-'' # fixed 2 m @ CHR ''-'' # fixed 2 d @ CHR ''T'' # fixed 2 (sod div 3600) @ CHR '':'' #
     fixed 2 (sod div 60 mod 60) @ CHR '':'' # fixed 2 (sod mod 60) @ ''Z''"

lemma sod_less:
  fixes a b :: int
  shows "a < b \<longleftrightarrow> a div 3600 < b div 3600 \<or> a div 3600 = b div 3600 \<and> (a div 60 mod 60 < b div 60 mod 60 \<or>
    a div 60 mod 60 = b div 60 mod 60 \<and> a mod 60 < b mod 60)"
proof -
  have "x div 3600 = x div 60 div 60" for x :: int by (simp add: zdiv_zmult2_eq [symmetric])
  moreover have "a div 60 = b div 60 \<longleftrightarrow> a div 60 div 60 = b div 60 div 60 \<and> a div 60 mod 60 = b div 60 mod 60"
    by (metis div_mult_mod_eq)
  ultimately show ?thesis
    using div_mod_less [of 60 a b] div_mod_less [of 60 "a div 60" "b div 60"] by auto
qed

lemma fixed2_less: "0 \<le> a \<Longrightarrow> a < 100 \<Longrightarrow> 0 \<le> b \<Longrightarrow> b < 100 \<Longrightarrow>
    fixed 2 a @ s < fixed 2 b @ t \<longleftrightarrow> a < b \<or> a = b \<and> s < t"
  using fixed_less [of a 2 b] fixed_inj [of a 2 b] by (simp add: append_less)

lemma fixed4_less: "0 \<le> a \<Longrightarrow> a < 10000 \<Longrightarrow> 0 \<le> b \<Longrightarrow> b < 10000 \<Longrightarrow>
    fixed 4 a @ s < fixed 4 b @ t \<longleftrightarrow> a < b \<or> a = b \<and> s < t"
  using fixed_less [of a 4 b] fixed_inj [of a 4 b] by (simp add: append_less)

lemma date_text_less:
  assumes "0 \<le> y" "y < 10000" "0 \<le> y'" "y' < 10000" "1 \<le> m" "m \<le> 12" "1 \<le> m'" "m' \<le> 12" "1 \<le> d" "d \<le> 31" "1 \<le> d'" "d' \<le> 31"
    "0 \<le> s" "s < 86400" "0 \<le> s'" "s' < 86400"
  shows "date_text y m d s < date_text y' m' d' s' \<longleftrightarrow>
    y < y' \<or> y = y' \<and> (m < m' \<or> m = m' \<and> (d < d' \<or> d = d' \<and> s < s'))"
proof -
  have h: "0 \<le> s div 3600" "s div 3600 < 100" "0 \<le> s' div 3600" "s' div 3600 < 100"
    using assms by (simp_all add: div_less_iff_less_mult pos_imp_zdiv_nonneg_iff)
  have ms: "0 \<le> x mod 60" "x mod 60 < 100" for x :: int by (simp_all add: order.strict_trans [of _ 60])
  show ?thesis
    unfolding date_text_def sod_less [of s s'] using assms h ms
    by (simp add: fixed4_less fixed2_less del: fixed.simps)
qed

subsection \<open>The calendar is monotone\<close>

lemma months:
  fixes m :: int
  assumes "1 \<le> m" "m \<le> 12"
  shows "m = 1 \<or> m = 2 \<or> m = 3 \<or> m = 4 \<or> m = 5 \<or> m = 6 \<or> m = 7 \<or> m = 8 \<or> m = 9 \<or> m = 10 \<or> m = 11 \<or> m = 12"
  using assms by presburger

lemma leap_day_01: "leap_day y = 0 \<or> leap_day y = 1"
  by (simp add: leap_day_def)

lemma month_next:
  assumes "1 \<le> m" "m \<le> 11"
  shows "days_before_month (leap_day y) m + days_in y m = days_before_month (leap_day y) (m + 1)"
proof -
  have "m = 1 \<or> m = 2 \<or> m = 3 \<or> m = 4 \<or> m = 5 \<or> m = 6 \<or> m = 7 \<or> m = 8 \<or> m = 9 \<or> m = 10 \<or> m = 11" using assms by presburger
  then show ?thesis by (elim disjE) (simp_all add: days_before_month_def days_in_def)
qed

lemma month_end:
  assumes "1 \<le> m" "m \<le> 12"
  shows "days_before_month (leap_day y) m + days_in y m \<le> 365 + leap_day y"
  using months [OF assms] leap_day_01 [of y] by (elim disjE) (simp_all add: days_before_month_def days_in_def)

lemma days_before_month_nonneg: "0 \<le> days_before_month (leap_day y) m"
  using leap_day_01 [of y] by (auto simp: days_before_month_def)

lemma month_mono: "1 \<le> m' \<Longrightarrow> m' < m \<Longrightarrow> m \<le> 12 \<Longrightarrow> days_before_month (leap_day y) m' + days_in y m' \<le> days_before_month (leap_day y) m"
proof (induction "nat (m - m')" arbitrary: m')
  case (Suc n)
  show ?case
  proof (cases "m = m' + 1")
    case True then show ?thesis using month_next [of m' y] Suc.prems by simp
  next
    case False
    have "days_before_month (leap_day y) (m' + 1) + days_in y (m' + 1) \<le> days_before_month (leap_day y) m"
      using False Suc.hyps(2) Suc.prems by (intro Suc.hyps(1)) auto
    moreover have "0 \<le> days_in y (m' + 1)" using leap_day_01 [of y] by (auto simp: days_in_def)
    ultimately show ?thesis using month_next [of m' y] Suc.prems False by linarith
  qed
qed simp

lemma Suc_div:
  fixes n k :: int
  assumes "0 < k"
  shows "(n + 1) div k = n div k + (if (n + 1) mod k = 0 then 1 else 0)"
proof (cases "n mod k = k - 1")
  case True
  have "n = n div k * k + n mod k" by simp
  then have "n + 1 = (n div k + 1) * k" using True by (simp add: algebra_simps)
  then show ?thesis using assms by simp
next
  case False
  have r: "0 \<le> n mod k" "n mod k < k" using assms by simp_all
  have "n + 1 = n div k * k + (n mod k + 1)" by simp
  moreover have "0 < n mod k + 1" "n mod k + 1 < k" using False r by linarith+
  ultimately have "(n + 1) div k = n div k" "(n + 1) mod k = n mod k + 1"
    by (metis add.commute div_mult_self3 div_pos_pos_trivial less_imp_le add_0 assms less_irrefl,
        metis add.commute mod_mult_self1 mod_pos_pos_trivial less_imp_le)
  then show ?thesis using \<open>0 < n mod k + 1\<close> by simp
qed

lemma days_before_year_Suc: "days_before_year (y + 1) = days_before_year y + 365 + leap_day y"
proof -
  have d: "y div k = (y - 1) div k + (if y mod k = 0 then 1 else 0)" if "0 < k" for k :: int
    using Suc_div [OF that, of "y - 1"] by simp
  have m: "y mod 4 = 0" if "y mod 100 = 0"
    using that mod_mod_cancel [of 4 100 y] by simp
  have m': "y mod 100 = 0" if "y mod 400 = 0"
    using that mod_mod_cancel [of 100 400 y] by simp
  define b :: "int \<Rightarrow> int" where "b k = (if y mod k = 0 then 1 else 0)" for k
  have "leap_day y = b 4 - b 100 + b 400"
    using m m' by (cases "y mod 4 = 0"; cases "y mod 100 = 0"; cases "y mod 400 = 0") (simp_all add: leap_day_def is_leap_def b_def)
  moreover have "days_before_year (y + 1) =
      365 * y + ((y - 1) div 4 + b 4) - ((y - 1) div 100 + b 100) + ((y - 1) div 400 + b 400)"
    unfolding days_before_year_def add_diff_cancel_right' b_def using d [of 4] d [of 100] d [of 400] by (simp only: zero_less_numeral simp_thms)
  ultimately show ?thesis by (simp add: days_before_year_def algebra_simps)
qed

lemma days_before_year_mono: "y \<le> y' \<Longrightarrow> days_before_year y \<le> days_before_year y'"
proof (induction y' rule: int_ge_induct)
  case (step i)
  then show ?case using leap_day_01 [of i] days_before_year_Suc [of i] by auto
qed simp

text \<open>A date before another one, year first, is earlier.\<close>

lemma civil_less:
  assumes "1 \<le> m" "m \<le> 12" "1 \<le> d" "d \<le> days_in y m" "1 \<le> m'" "m' \<le> 12" "1 \<le> d'"
    and lex: "y < y' \<or> y = y' \<and> (m < m' \<or> m = m' \<and> d < d')"
  shows "days_of_civil y m d < days_of_civil y' m' d'"
proof -
  consider "y + 1 \<le> y'" | "y = y'" "m < m'" | "y = y'" "m = m'" "d < d'" using lex by linarith
  then show ?thesis
  proof cases
    case 1
    have "days_of_civil y m d < days_before_year (y + 1)"
      using month_end [OF assms(1,2), of y] assms(4) by (simp add: days_of_civil_def days_before_year_Suc)
    also have "\<dots> \<le> days_before_year y'" by (rule days_before_year_mono [OF 1])
    also have "\<dots> \<le> days_of_civil y' m' d'" using days_before_month_nonneg [of y' m'] assms(7) by (simp add: days_of_civil_def)
    finally show ?thesis .
  next
    case 2
    then show ?thesis using month_mono [OF assms(1) 2(2) assms(6), of y] assms(4,7) by (simp add: days_of_civil_def)
  qed (simp add: days_of_civil_def)
qed

lemma civil_of_days_mono:
  assumes "n < n'" "civil_of_days n = (y, m, d)" "civil_of_days n' = (y', m', d')"
  shows "y < y' \<or> y = y' \<and> (m < m' \<or> m = m' \<and> d < d')"
proof (rule ccontr)
  assume neg: "\<not> ?thesis"
  note c = civil_of_days_correct [OF assms(2)] and c' = civil_of_days_correct [OF assms(3)]
  have "(y', m', d') = (y, m, d) \<or> (y' < y \<or> y' = y \<and> (m' < m \<or> m' = m \<and> d' < d))" using neg by auto
  then have "days_of_civil y' m' d' \<le> days_of_civil y m d"
    using civil_less [of m' d' y' m d y] c c' by auto
  with assms(1) c c' show False by simp
qed

lemma civil_of_days_of_civil:
  assumes "1 \<le> m" "m \<le> 12" "1 \<le> d" "d \<le> days_in y m"
  shows "civil_of_days (days_of_civil y m d) = (y, m, d)"
proof -
  obtain y' m' d' where c: "civil_of_days (days_of_civil y m d) = (y', m', d')" by (cases "civil_of_days (days_of_civil y m d)")
  note c' = civil_of_days_correct [OF c]
  have "\<not> (y < y' \<or> y = y' \<and> (m < m' \<or> m = m' \<and> d < d'))" using civil_less [OF assms, of m' d' y'] c' by auto
  moreover have "\<not> (y' < y \<or> y' = y \<and> (m' < m \<or> m' = m \<and> d' < d))" using civil_less [of m' d' y' m d y] c' assms by auto
  ultimately show ?thesis using c by auto
qed

subsection \<open>What a parsed time looks like\<close>

lemma number_range: "list_all is_digit s \<Longrightarrow> 0 \<le> number s \<and> number s < 10 ^ length s"
proof (induction s rule: rev_induct)
  case (snoc c s)
  then have "0 \<le> digit_value c" "digit_value c \<le> 9" by (auto simp: is_digit_def digit_value_def)
  with snoc show ?case by (simp add: list_all_iff)
qed simp

lemma read_num_range: "read_num k s = Some (n, r) \<Longrightarrow> 0 \<le> n \<and> n < 10 ^ k"
  using number_range [of "take k s"] by (auto simp: read_num_def split: if_splits)

lemma read_hour_nonneg: "read_hour s = Some (n, r) \<Longrightarrow> 0 \<le> n"
  by (auto simp: read_hour_def dest: read_num_range split: option.splits)

lemma read_fraction_range:
  assumes "read_fraction s = Some (n, r)"
  shows "0 \<le> n \<and> n < 1000000000"
proof -
  have "list_all is_digit (take 9 (takeWhile is_digit u @ replicate 9 (CHR ''0'')))" for u
    by (auto simp: list_all_iff dest!: in_set_takeD set_takeWhileD) (simp add: is_digit_def)
  moreover have "length (take 9 (takeWhile is_digit u @ replicate 9 (CHR ''0''))) = 9" for u by simp
  ultimately have "0 \<le> number (take 9 (takeWhile is_digit u @ replicate 9 (CHR ''0''))) \<and>
      number (take 9 (takeWhile is_digit u @ replicate 9 (CHR ''0''))) < 1000000000" for u
    using number_range [of "take 9 (takeWhile is_digit u @ replicate 9 (CHR ''0''))"] by (simp del: take_append)
  then show ?thesis using assms
    by (auto simp: read_fraction_def Let_def simp del: take_append split: list.splits if_splits)
qed

lemma read_zone_range: "read_zone s = Some off \<Longrightarrow> off mod 60 = 0 \<and> \<bar>off\<bar> \<le> 90000"
  by (auto simp: read_zone_def bind_eq_Some_conv split: if_splits list.splits dest!: read_num_range)

lemma ParseRFC3339_year:
  assumes "ParseRFC3339 s = Some t"
  shows "four_digit_year t \<and> tm_off t mod 60 = 0 \<and> \<bar>tm_off t\<bar> \<le> 90000"
proof -
  obtain y m d hh mi ss nanos off u v w x q where
    y: "read_num 4 s = Some (y, u)" and mi: "read_num 2 v = Some (mi, w)" and ss: "read_num 2 x = Some (ss, q)"
    and hh: "0 \<le> hh" "hh \<le> 23" and n: "0 \<le> nanos" "nanos < 1000000000" and off: "off mod 60 = 0" "\<bar>off\<bar> \<le> 90000"
    and ok: "1 \<le> m" "m \<le> 12" "1 \<le> d" "d \<le> days_in y m" "mi \<le> 59" "ss \<le> 59"
    and t: "t = \<lparr>tm_ns = (days_of_civil y m d * 86400 + hh * 3600 + mi * 60 + ss - off) * 1000000000 + nanos, tm_off = off\<rparr>"
    using assms unfolding ParseRFC3339_def
    by (auto simp: bind_eq_Some_conv split: if_splits dest!: read_hour_nonneg read_fraction_range read_zone_range)
  have b: "0 \<le> y" "y < 10000" "0 \<le> mi" "0 \<le> ss" using read_num_range [OF y] read_num_range [OF mi] read_num_range [OF ss] by simp_all
  define e where "e = hh * 3600 + mi * 60 + ss"
  have e: "0 \<le> e" "e < 86400" using hh ok(5,6) b by (auto simp: e_def)
  have "tm_ns t div 1000000000 = days_of_civil y m d * 86400 + e - off" using n by (simp add: t e_def)
  then have "(tm_ns t div 1000000000 + tm_off t) div 86400 = days_of_civil y m d" using e by (simp add: t)
  then show ?thesis using civil_of_days_of_civil [OF ok(1-4)] b off by (auto simp: four_digit_year_def t)
qed

lemma ParseRFC3339_formattable: "ParseRFC3339 s = Some t \<Longrightarrow> formattable t \<or> \<bar>tm_off t\<bar> = 90000"
  by (drule ParseRFC3339_year) (auto simp: formattable_def)

subsection \<open>Times in UTC with whole seconds\<close>

definition utc_seconds :: "gotime \<Rightarrow> bool" where
  "utc_seconds t \<longleftrightarrow> formattable t \<and> tm_off t = 0 \<and> tm_ns t mod 1000000000 = 0"

lemma Format_utc_seconds:
  assumes "utc_seconds t" "civil_of_days (tm_ns t div 1000000000 div 86400) = (y, m, d)"
  shows "FormatRFC3339Nano t = date_text y m d (tm_ns t div 1000000000 mod 86400) \<and> 0 \<le> y \<and> y < 10000"
proof -
  define sod where "sod = tm_ns t div 1000000000 mod 86400"
  note civ = civil_of_days_correct [OF assms(2)]
  have y: "0 \<le> y" "y < 10000" using assms by (auto simp: utc_seconds_def formattable_def four_digit_year_def)
  have "0 \<le> sod" "sod < 86400" by (simp_all add: sod_def)
  then have h: "0 \<le> sod div 3600" "sod div 3600 < 100" by (simp_all add: div_less_iff_less_mult pos_imp_zdiv_nonneg_iff)
  have ms: "0 \<le> x mod 60" "x mod 60 < 100" for x :: int by (simp_all add: order.strict_trans [of _ 60])
  show ?thesis
    using assms y civ h ms
    by (simp add: FormatRFC3339Nano_def date_text_def utc_seconds_def Let_def append_int_fixed sod_def [symmetric]
        format_fraction_def format_zone_def del: fixed.simps)
qed

lemma Format_less_if:
  assumes "utc_seconds t" "utc_seconds u" "tm_ns t < tm_ns u"
  shows "FormatRFC3339Nano t < FormatRFC3339Nano u"
proof -
  define a b where "a = tm_ns t div 1000000000" and "b = tm_ns u div 1000000000"
  obtain y m d where t: "civil_of_days (a div 86400) = (y, m, d)" by (cases "civil_of_days (a div 86400)")
  obtain y' m' d' where u: "civil_of_days (b div 86400) = (y', m', d')" by (cases "civil_of_days (b div 86400)")
  note ct = civil_of_days_correct [OF t] and cu = civil_of_days_correct [OF u]
  have ft: "FormatRFC3339Nano t = date_text y m d (a mod 86400)" "0 \<le> y" "y < 10000"
    using Format_utc_seconds [OF assms(1), folded a_def, OF t] by blast+
  have fu: "FormatRFC3339Nano u = date_text y' m' d' (b mod 86400)" "0 \<le> y'" "y' < 10000"
    using Format_utc_seconds [OF assms(2), folded b_def, OF u] by blast+
  have "a < b"
    using div_mod_less [of 1000000000 "tm_ns t" "tm_ns u"] assms by (simp add: utc_seconds_def a_def b_def)
  then have "a div 86400 < b div 86400 \<or> a div 86400 = b div 86400 \<and> a mod 86400 < b mod 86400"
    using div_mod_less [of 86400 a b] by simp
  then have "y < y' \<or> y = y' \<and> (m < m' \<or> m = m' \<and> (d < d' \<or> d = d' \<and> a mod 86400 < b mod 86400))"
    using civil_of_days_mono [OF _ t u] t u by auto
  then show ?thesis unfolding ft(1) fu(1) using ft fu ct cu by (subst date_text_less) auto
qed

lemma Format_less_iff:
  assumes "utc_seconds t" "utc_seconds u"
  shows "FormatRFC3339Nano t < FormatRFC3339Nano u \<longleftrightarrow> tm_ns t < tm_ns u"
proof -
  have "FormatRFC3339Nano t = FormatRFC3339Nano u" if "tm_ns t = tm_ns u"
    using that assms by (simp add: utc_seconds_def FormatRFC3339Nano_def)
  then show ?thesis
    using Format_less_if [OF assms] Format_less_if [OF assms(2,1)] by (metis less_irrefl less_asym linorder_neqE)
qed

end
