(* ===== verification/Avail_Query.thy ===== *)
theory Avail_Query
  imports Live_Engine Text_Order
begin

section \<open>Availability on demand (oee/availability/features/query)\<close>

text \<open>
  The reader of intervals (\<open>adapters/outbound/database/repository.go\<close>), the use case
  (\<open>application/usecase.go\<close>) and the HTTP handler. The reader selects and orders rows by comparing
  times as text. The planned time comes from a shift reader, as in the live engine, whose
  computation may not end (\<open>None\<close>).
\<close>

subsection \<open>The reader (repository.go)\<close>

datatype range_error = RgQuery | RgParseStarted | RgParseEnded

definition range_rows :: "interval_table \<Rightarrow> string \<Rightarrow> string \<Rightarrow> string \<Rightarrow> interval_row list" where
  "range_rows db machineID toText fromText =
     sort_key ir_started_at
       (filter (\<lambda>r. ir_machine_id r = machineID \<and> ir_started_at r < toText \<and>
          (case ir_ended_at r of None \<Rightarrow> True | Some e \<Rightarrow> e > fromText)) db)"

fun scan_intervals :: "string \<Rightarrow> interval_row list \<Rightarrow> range_error + StateInterval list" where
  "scan_intervals machineID [] = Inr []"
| "scan_intervals machineID (r # rows) =
     (case ParseRFC3339 (ir_started_at r) of
        None \<Rightarrow> Inl RgParseStarted
      | Some ts \<Rightarrow>
          (case parse_end (ir_ended_at r) of
             None \<Rightarrow> Inl RgParseEnded
           | Some endedAt \<Rightarrow>
               (case scan_intervals machineID rows of
                  Inl err \<Rightarrow> Inl err
                | Inr intervals \<Rightarrow>
                    Inr (\<lparr>iv_MachineID = machineID, iv_State = ir_state r, iv_StartedAt = to_utc ts,
                          iv_EndedAt = endedAt, iv_Reason = ir_reason r\<rparr> # intervals))))"

definition ByMachineRange :: "query_fault \<Rightarrow> interval_table \<Rightarrow> string \<Rightarrow> gotime \<Rightarrow> gotime \<Rightarrow> range_error + StateInterval list" where
  "ByMachineRange fault db machineID from until =
     (if fault = QueryFails then Inl RgQuery
      else scan_intervals machineID
        (range_rows db machineID (FormatRFC3339Nano (to_utc until)) (FormatRFC3339Nano (to_utc from))))"

subsection \<open>The use case (usecase.go)\<close>

record OutputFlags =
  fl_ShiftConfigMissing :: bool
  fl_OpenIntervalClipped :: bool
  fl_NoData :: bool

record Output =
  ou_MachineID :: string
  ou_WindowFrom :: gotime
  ou_WindowTo :: gotime
  ou_Availability :: float64
  ou_PlannedTime :: duration
  ou_RunTime :: duration
  ou_PlannedDowntime :: duration
  ou_UnplannedDowntime :: duration
  ou_IntervalCount :: int
  ou_HasData :: bool
  ou_Flags :: OutputFlags

datatype 'e execute_error = ReadIntervals range_error | ReadShift 'e

definition Execute ::
  "(string \<Rightarrow> gotime \<Rightarrow> gotime \<Rightarrow> range_error + StateInterval list) \<Rightarrow> 'e shift_reader \<Rightarrow> string \<Rightarrow> Window \<Rightarrow>
   ('e execute_error + Output) option"
where
  "Execute byMachineRange forMachineWindow machineID w =
     (case byMachineRange machineID (w_From w) (w_To w) of
        Inl err \<Rightarrow> Some (Inl (ReadIntervals err))
      | Inr intervals \<Rightarrow>
          (case forMachineWindow machineID w of
             None \<Rightarrow> None
           | Some (Inl err) \<Rightarrow> Some (Inl (ReadShift err))
           | Some (Inr (planned, found)) \<Rightarrow>
               let planned = (if found then planned else time_sub (w_To w) (w_From w));
                   clipped = map (\<lambda>iv. if IsOpen iv then iv\<lparr>iv_EndedAt := Some (w_To w)\<rparr> else iv) intervals;
                   i = Aggregate w clipped planned;
                   result = Availability i;
                   hasData = (rs_HasData result \<and> in_IntervalCount i > 0)
               in Some (Inr
                    \<lparr>ou_MachineID = machineID, ou_WindowFrom = w_From w, ou_WindowTo = w_To w,
                     ou_Availability = (if hasData then rs_Availability result else 0),
                     ou_PlannedTime = rs_PlannedTime result, ou_RunTime = rs_RunTime result,
                     ou_PlannedDowntime = rs_PlannedDowntime result, ou_UnplannedDowntime = rs_UnplannedDowntime result,
                     ou_IntervalCount = in_IntervalCount i, ou_HasData = hasData,
                     ou_Flags = \<lparr>fl_ShiftConfigMissing = \<not> found, fl_OpenIntervalClipped = list_ex IsOpen intervals,
                       fl_NoData = \<not> hasData\<rparr>\<rparr>)))"

subsection \<open>The HTTP handler (handler.go)\<close>

text \<open>The path value and the query parameters are strings, empty where absent.\<close>

definition getAvailability ::
  "(string \<Rightarrow> Window \<Rightarrow> ('e execute_error + Output) option) \<Rightarrow> string \<Rightarrow> string \<Rightarrow> string \<Rightarrow> Output http_response option"
where
  "getAvailability execute machineID fromStr toStr =
     (if fromStr = [] \<or> toStr = [] then Some (HTTP_BadRequest ''{\"error\":\"from and to are required\"}'')
      else case ParseRFC3339 fromStr of
        None \<Rightarrow> Some (HTTP_BadRequest ''{\"error\":\"invalid from timestamp\"}'')
      | Some from \<Rightarrow>
          (case ParseRFC3339 toStr of
             None \<Rightarrow> Some (HTTP_BadRequest ''{\"error\":\"invalid to timestamp\"}'')
           | Some until \<Rightarrow>
               if \<not> Before from until then Some (HTTP_BadRequest ''{\"error\":\"from must be before to\"}'')
               else (case execute machineID \<lparr>w_From = from, w_To = until\<rparr> of
                       None \<Rightarrow> None
                     | Some (Inl err) \<Rightarrow> Some (HTTP_InternalServerError ''{\"error\":\"internal server error\"}'')
                     | Some (Inr output) \<Rightarrow> Some (HTTP_OK output))))"

subsection \<open>Tables whose times are in UTC with whole seconds\<close>

definition utc_text :: "string \<Rightarrow> bool" where
  "utc_text s \<longleftrightarrow> (\<exists>ts. utc_seconds ts \<and> s = FormatRFC3339Nano ts)"

definition utc_row :: "interval_row \<Rightarrow> bool" where
  "utc_row r \<longleftrightarrow> utc_text (ir_started_at r) \<and> (case ir_ended_at r of None \<Rightarrow> True | Some e \<Rightarrow> utc_text e)"

definition utc_table :: "interval_table \<Rightarrow> bool" where
  "utc_table db \<longleftrightarrow> table_ok db \<and> list_all utc_row db"

lemma utc_seconds_formattable: "utc_seconds t \<Longrightarrow> formattable t"
  by (simp add: utc_seconds_def)

lemma utc_table_open: "list_all utc_row db \<Longrightarrow> utc_seconds ts \<Longrightarrow> list_all utc_row (snd (OpenInterval NoFault db m st ts))"
  by (auto simp: OpenInterval_def Let_def utc_row_def utc_text_def)

lemma utc_table_close: "list_all utc_row db \<Longrightarrow> utc_seconds ts \<Longrightarrow> list_all utc_row (snd (CloseOpen NoFault db m ts))"
  by (auto simp: CloseOpen_def Let_def utc_row_def utc_text_def close_row_def list_all_iff)

text \<open>The same repository as a store of such times.\<close>

interpretation utc_repo: interval_store utc_table history "\<lambda>f. f = NoFault" "\<lambda>r. r = QueryOk" utc_seconds LastOpen CloseOpen OpenInterval
proof unfold_locales
  show "fst (OpenInterval f s m st ts) = None \<and> utc_table (snd (OpenInterval f s m st ts)) \<and>
      history (snd (OpenInterval f s m st ts)) = (history s)(m := history s m @ [open_at m st ts])"
    if "utc_table s" "utc_seconds ts" "f = NoFault" for s ts f m st
    using that OpenInterval_ok [of s ts m st] utc_table_open [of s ts m st] by (simp add: utc_table_def utc_seconds_formattable)
  show "fst (CloseOpen f s m ts) = None \<and> utc_table (snd (CloseOpen f s m ts)) \<and>
      history (snd (CloseOpen f s m ts)) = (history s)(m := map (end_at ts) (history s m))"
    if "utc_table s" "utc_seconds ts" "f = NoFault" for s ts f m
    using that CloseOpen_ok [of s ts m] utc_table_close [of s ts m] by (simp add: utc_table_def utc_seconds_formattable)
qed (simp_all add: repo.open_fail repo.close_fail repo.last_fail LastOpen_history utc_table_def)

lemma utc_table_Nil: "utc_repo.sound []"
  by (simp add: utc_repo.sound_def utc_table_def table_ok_def history_def)

text \<open>On such a table text comparisons are comparisons of instants.\<close>

definition in_range :: "gotime \<Rightarrow> gotime \<Rightarrow> StateInterval \<Rightarrow> bool" where
  "in_range from until iv \<longleftrightarrow> tm_ns (iv_StartedAt iv) < tm_ns until \<and>
     (case iv_EndedAt iv of None \<Rightarrow> True | Some e \<Rightarrow> tm_ns from < tm_ns e)"

lemma utc_rowE:
  assumes "utc_row r"
  obtains ts e where "utc_seconds ts" "ir_started_at r = FormatRFC3339Nano ts" "ParseRFC3339 (ir_started_at r) = Some ts"
    "parse_end (ir_ended_at r) = Some e" "ir_ended_at r = map_option FormatRFC3339Nano e"
    "case e of None \<Rightarrow> True | Some x \<Rightarrow> utc_seconds x"
    "row_interval r = \<lparr>iv_MachineID = ir_machine_id r, iv_State = ir_state r, iv_StartedAt = ts, iv_EndedAt = e, iv_Reason = ir_reason r\<rparr>"
proof -
  obtain ts where ts: "utc_seconds ts" "ir_started_at r = FormatRFC3339Nano ts" using assms by (auto simp: utc_row_def utc_text_def)
  have pts: "ParseRFC3339 (ir_started_at r) = Some ts" using ts by (simp add: ParseRFC3339_Format utc_seconds_formattable)
  show thesis
  proof (cases "ir_ended_at r")
    case None
    show thesis by (rule that [OF ts pts, of None]) (simp_all add: None parse_end_def row_interval_def interval_of_row_def pts)
  next
    case (Some s)
    then obtain e where e: "utc_seconds e" "s = FormatRFC3339Nano e" using assms by (auto simp: utc_row_def utc_text_def)
    have "ParseRFC3339 s = Some e" using e by (simp add: ParseRFC3339_Format utc_seconds_formattable)
    then show thesis
      by (intro that [OF ts pts, of "Some e"]) (simp_all add: Some e parse_end_def row_interval_def interval_of_row_def pts)
  qed
qed

lemma utc_row_range:
  assumes "utc_row r" "utc_seconds from" "utc_seconds until"
  shows "(ir_started_at r < FormatRFC3339Nano until \<and> (case ir_ended_at r of None \<Rightarrow> True | Some e \<Rightarrow> e > FormatRFC3339Nano from)) \<longleftrightarrow>
    in_range from until (row_interval r)"
  using assms(1) by (rule utc_rowE) (use assms(2,3) in \<open>auto simp: in_range_def Format_less_iff split: option.splits\<close>)

lemma to_utc_id: "utc_seconds t \<Longrightarrow> to_utc t = t"
  by (simp add: utc_seconds_def to_utc_def)

lemma scan_intervals_utc:
  "list_all utc_row rows \<Longrightarrow> list_all (\<lambda>r. ir_machine_id r = m) rows \<Longrightarrow> scan_intervals m rows = Inr (map row_interval rows)"
proof (induction rows)
  case (Cons r rows)
  have "utc_row r" using Cons.prems by simp
  then show ?case by (rule utc_rowE) (use Cons in \<open>simp add: to_utc_id\<close>)
qed simp

lemma sorted_starts:
  assumes "list_all utc_row rows" "chained (map row_interval rows)" "list_all proper (map row_interval rows)"
  shows "sorted (map ir_started_at rows)"
  using assms
proof (induction rows)
  case (Cons r rows)
  have "ir_started_at r \<le> ir_started_at r'" if "r' \<in> set rows" for r'
  proof -
    have u: "utc_row r" "utc_row r'" using Cons.prems(1) that by (auto simp: list_all_iff)
    have e: "ends_before (row_interval r) (row_interval r')" using Cons.prems(2) that by (simp add: chained_def)
    have p: "proper (row_interval r)" using Cons.prems(3) by simp
    obtain ts x where r: "utc_seconds ts" "ir_started_at r = FormatRFC3339Nano ts"
      "row_interval r = \<lparr>iv_MachineID = ir_machine_id r, iv_State = ir_state r, iv_StartedAt = ts, iv_EndedAt = x, iv_Reason = ir_reason r\<rparr>"
      using u(1) by (rule utc_rowE)
    obtain ts' x' where r': "utc_seconds ts'" "ir_started_at r' = FormatRFC3339Nano ts'"
      "row_interval r' = \<lparr>iv_MachineID = ir_machine_id r', iv_State = ir_state r', iv_StartedAt = ts', iv_EndedAt = x', iv_Reason = ir_reason r'\<rparr>"
      using u(2) by (rule utc_rowE)
    have "tm_ns ts < tm_ns ts'" using e p r(3) r'(3) by (auto simp: ends_before_def proper_def split: option.splits)
    then show ?thesis using r r' by (simp add: Format_less_if less_imp_le)
  qed
  with Cons show ?case by (simp add: chained_def)
qed simp

lemma ByMachineRange_exact:
  assumes "utc_table db" "chained (history db m)" "latest_open (history db m)" "utc_seconds from" "utc_seconds until"
  shows "ByMachineRange QueryOk db m from until = Inr (filter (in_range from until) (history db m))"
proof -
  let ?mine = "filter (\<lambda>r. ir_machine_id r = m) db"
  let ?rows = "filter (\<lambda>r. in_range from until (row_interval r)) ?mine"
  have u: "list_all utc_row db" using assms(1) by (simp add: utc_table_def)
  have "range_rows db m (FormatRFC3339Nano until) (FormatRFC3339Nano from) = sort_key ir_started_at ?rows"
    using u utc_row_range [OF _ assms(4,5)]
    by (auto simp: range_rows_def filter_filter list_all_iff intro!: arg_cong [where f = "sort_key ir_started_at"] filter_cong)
  moreover have "sorted (map ir_started_at ?mine)"
    using u assms(2,3) by (intro sorted_starts) (auto simp: history_def latest_open_def list_all_iff)
  then have "sorted (map ir_started_at ?rows)" by (rule sorted_filter)
  moreover have "scan_intervals m ?rows = Inr (map row_interval ?rows)"
    using u by (intro scan_intervals_utc) (auto simp: list_all_iff)
  ultimately show ?thesis
    using assms(4,5) by (simp add: ByMachineRange_def to_utc_id sort_key_id_if_sorted history_def filter_map comp_def)
qed

subsection \<open>The two paths compute the same\<close>

lemma clip_is_end_at: "(\<lambda>iv. if IsOpen iv then iv\<lparr>iv_EndedAt := Some ts\<rparr> else iv) = end_at ts"
  by (simp add: end_at_def fun_eq_iff)

lemma covered_in_range: "covered w iv \<noteq> {} \<Longrightarrow> in_range (w_From w) (w_To w) iv"
  by (auto simp: covered_iff in_range_def split: option.splits)

lemma spent_in_range: "spent P w (filter (in_range (w_From w) (w_To w)) ivs) = spent P w ivs"
  using covered_in_range [of w] by (fastforce simp: spent_def)

lemma filter_covered_in_range:
  "filter (\<lambda>iv. covered w iv \<noteq> {}) (filter (in_range (w_From w) (w_To w)) ivs) = filter (\<lambda>iv. covered w iv \<noteq> {}) ivs"
  using covered_in_range [of w] by (induction ivs) auto

lemma chained_filter: "chained ivs \<Longrightarrow> chained (filter P ivs)"
  by (simp add: chained_def sorted_wrt_filter)

lemma latest_open_filter: "latest_open ivs \<Longrightarrow> latest_open (filter P ivs)"
  by (cases ivs rule: rev_cases)
    (auto simp: latest_open_def butlast_append list_all_iff dest: in_set_butlastD)

text \<open>Selecting the rows of the window does not change what is aggregated.\<close>

lemma Aggregate_in_range:
  assumes "chained ivs" "latest_open ivs" "fits64 (tm_ns (w_To w) - tm_ns (w_From w))"
  shows "Aggregate w (map (end_at (w_To w)) (filter (in_range (w_From w) (w_To w)) ivs)) planned = Aggregate w (map (end_at (w_To w)) ivs) planned"
proof -
  let ?f = "filter (in_range (w_From w) (w_To w)) ivs"
  have c: "chained (map (end_at (w_To w)) ?f)" "chained (map (end_at (w_To w)) ivs)"
    using assms by (auto intro: chained_end_at chained_filter latest_open_filter)
  have count: "length (filter (\<lambda>iv. covered w iv \<noteq> {}) (map (end_at (w_To w)) xs)) = length (filter (\<lambda>iv. covered w iv \<noteq> {}) xs)" for xs
    by (simp add: filter_map comp_def covered_end_at)
  show ?thesis
    unfolding Aggregate_spent [OF c(1) assms(3)] Aggregate_spent [OF c(2) assms(3)] spent_end_at count spent_in_range filter_covered_in_range ..
qed

text \<open>What a query returns for a stored timeline, if the shift reader finds a configuration.\<close>

lemma Execute_timeline:
  assumes "utc_table db" "chained (history db m)" "latest_open (history db m)" "utc_seconds (w_From w)" "utc_seconds (w_To w)"
    "fits64 (tm_ns (w_To w) - tm_ns (w_From w))" "forMachineWindow m w = Some (Inr (planned, True))"
  defines "i \<equiv> Aggregate w (map (end_at (w_To w)) (history db m)) planned"
  defines "has \<equiv> rs_HasData (Availability i) \<and> in_IntervalCount i > 0"
  shows "Execute (ByMachineRange QueryOk db) forMachineWindow m w =
    Some (Inr \<lparr>ou_MachineID = m, ou_WindowFrom = w_From w, ou_WindowTo = w_To w,
      ou_Availability = (if has then rs_Availability (Availability i) else 0),
      ou_PlannedTime = rs_PlannedTime (Availability i), ou_RunTime = rs_RunTime (Availability i),
      ou_PlannedDowntime = rs_PlannedDowntime (Availability i), ou_UnplannedDowntime = rs_UnplannedDowntime (Availability i),
      ou_IntervalCount = in_IntervalCount i, ou_HasData = has,
      ou_Flags = \<lparr>fl_ShiftConfigMissing = False, fl_OpenIntervalClipped = list_ex IsOpen (filter (in_range (w_From w) (w_To w)) (history db m)),
        fl_NoData = \<not> has\<rparr>\<rparr>)"
  using ByMachineRange_exact [OF assms(1-5)] Aggregate_in_range [OF assms(2,3,6), of planned] assms(7)
  by (simp add: Execute_def clip_is_end_at i_def has_def Let_def)

lemma count_positive:
  assumes "chained ivs" "latest_open ivs" "ivs \<noteq> []" "w_From w = iv_StartedAt (hd ivs)" "After (w_To w) (w_From w)"
    "fits64 (tm_ns (w_To w) - tm_ns (w_From w))"
  shows "0 < in_IntervalCount (Aggregate w (map (end_at (w_To w)) ivs) planned)"
proof -
  obtain iv rest where ivs: "ivs = iv # rest" using assms(3) by (cases ivs) auto
  have "proper iv" using assms(2) ivs by (simp add: latest_open_def)
  then have "tm_ns (w_From w) \<in> covered w iv"
    using assms(4,5) ivs by (auto simp: covered_iff proper_def After_def split: option.splits)
  then have "filter (\<lambda>iv. covered w iv \<noteq> {}) ivs \<noteq> []" using ivs by auto
  then show ?thesis
    unfolding Aggregate_spent [OF chained_end_at [OF assms(1,2)] assms(6)]
    by (simp add: filter_map comp_def covered_end_at)
qed

subsection \<open>Claims\<close>

definition run_utc :: "StateTransition list \<Rightarrow> interval_table \<times> machines" where
  "run_utc ts = apply_run (repo_Apply Engine_Apply) [] Map.empty (map (Pair no_faults) ts)"

lemma run_utc_facts:
  assumes "list_all (\<lambda>t. utc_seconds (tr_Timestamp t)) ts" "run_utc ts = (db, ms)"
  shows "utc_table db" "timeline (history db m)" "mirrors ms (history db)"
proof -
  have ok: "list_all (\<lambda>(f, t). utc_repo.faultless f \<and> utc_seconds (tr_Timestamp t)) (map (Pair no_faults) ts)"
    using assms(1) by (simp add: list_all_iff utc_repo.faultless_def)
  have empty: "mirrors Map.empty (history [])" using mirrors_empty by (simp add: history_def [abs_def])
  have run: "utc_repo.sound db \<and> mirrors ms (history db)"
    using utc_repo.run_mirrored [OF utc_table_Nil empty ok] assms(2) by (simp add: run_utc_def repo_Apply_def)
  then show "utc_table db" "mirrors ms (history db)" by (simp_all add: utc_repo.sound_def)
  have "history db m = fold advance (filter (\<lambda>t. tr_MachineID t = m) ts) []"
    using utc_repo.run_faultless [OF utc_table_Nil ok, of Engine_Apply Map.empty m] assms(2)
    by (simp add: run_utc_def repo_Apply_def comp_def history_def)
  then show "timeline (history db m)" by (simp add: timeline_fold_advance)
qed

text \<open>C26. For transitions in UTC with whole seconds, and without failures, the range query returns
  exactly the machine's intervals that overlap the window, oldest first, although it compares
  text.\<close>

theorem range_query_exact:
  assumes "list_all (\<lambda>t. utc_seconds (tr_Timestamp t)) ts" "utc_seconds from" "utc_seconds until"
  shows "ByMachineRange QueryOk (fst (run_utc ts)) m from until =
    Inr (filter (in_range from until) (fold advance (filter (\<lambda>t. tr_MachineID t = m) ts) []))"
proof -
  obtain db ms where r: "run_utc ts = (db, ms)" by (cases "run_utc ts")
  note f = run_utc_facts [OF assms(1) r]
  have "list_all (\<lambda>t. formattable (tr_Timestamp t)) ts" using assms(1) by (auto simp: list_all_iff utc_seconds_formattable)
  then have "list_all (\<lambda>(f, t). repo.faultless f \<and> formattable (tr_Timestamp t)) (map (Pair no_faults) ts)"
    by (simp add: list_all_iff repo.faultless_def)
  from repo.run_faultless [OF well_kept_Nil [unfolded well_kept_sound] this, of Engine_Apply Map.empty m] r
  have "history db m = fold advance (filter (\<lambda>t. tr_MachineID t = m) ts) []"
    by (simp add: run_utc_def repo_Apply_def comp_def history_def)
  then show ?thesis
    using ByMachineRange_exact [OF f(1) _ _ assms(2,3), of m] f(2) [of m] r by (simp add: timeline_def)
qed

lemma utc_days: "utc_seconds (utc_day 2026 6 1)" "utc_seconds (utc_day 2026 6 3)" "utc_seconds (utc_day 2026 6 5)" "utc_seconds (utc_day 2026 6 6)"
  by code_simp+

theorem range_query_exact_witness:
  "ByMachineRange QueryOk (fst (run_utc [tr_demo Running (utc_day 2026 6 1), tr_demo Stopped (utc_day 2026 6 3)])) ''m1''
     (utc_day 2026 6 5) (utc_day 2026 6 6) = Inr [open_at ''m1'' Stopped (utc_day 2026 6 3)]"
proof -
  have "tm_ns (utc_day 2026 6 1) < tm_ns (utc_day 2026 6 3)" "tm_ns (utc_day 2026 6 3) < tm_ns (utc_day 2026 6 5)"
    "tm_ns (utc_day 2026 6 5) < tm_ns (utc_day 2026 6 6)" by code_simp+
  then show ?thesis
    using range_query_exact [of "[tr_demo Running (utc_day 2026 6 1), tr_demo Stopped (utc_day 2026 6 3)]" "utc_day 2026 6 5" "utc_day 2026 6 6" "''m1''"]
    by (simp add: tr_demo_def utc_days advance_def ignored_def running_open_def opened_def open_at_def end_at_def IsOpen_def After_def
        in_range_def machine_states)
qed


definition demo_run :: "StateTransition list" where
  "demo_run = [tr_demo Running (utc_day 2026 6 1), tr_demo Stopped (utc_day 2026 6 3)]"

definition demo_data :: machineData where
  "demo_data = \<lparr>md_intervals = [(open_at ''m1'' Running (utc_day 2026 6 1))\<lparr>iv_EndedAt := Some (utc_day 2026 6 3)\<rparr>,
     open_at ''m1'' Stopped (utc_day 2026 6 3)], md_windowStart = utc_day 2026 6 1\<rparr>"

lemma demo_run_data: "snd (run_utc demo_run) ''m1'' = Some demo_data"
  by code_simp


text \<open>Times that are not in UTC are compared wrongly: an interval that began at ten o'clock in a
  zone three hours east, and is open, is missing from the answer for the window from eight to nine
  o'clock UTC, which it covers.\<close>

theorem range_query_misses_zoned_interval:
  "let start = \<lparr>tm_ns = tm_ns (utc_day 2026 6 1) + 7 * 60 * minute, tm_off = 10800\<rparr>;
       db = fst (apply_run (repo_Apply Engine_Apply) [] Map.empty [(no_faults, tr_demo Stopped start)]);
       w = \<lparr>w_From = time_add (utc_day 2026 6 1) (8 * 60 * minute), w_To = time_add (utc_day 2026 6 1) (9 * 60 * minute)\<rparr>
   in history db ''m1'' = [open_at ''m1'' Stopped start] \<and> tm_ns start < tm_ns (w_From w) \<and>
      ByMachineRange QueryOk db ''m1'' (w_From w) (w_To w) = Inr []"
  by code_simp

end
