(* ===== verification/Protocol.thy ===== *)
theory Protocol
  imports Prelude "HOL-Library.Signed_Division"
begin

section \<open>The MQTT 3.1.1 wire format (broker/protocol)\<close>

text \<open>
  Packet types, the primitive codecs, the packet decoders and encoders and the frame reader of
  \<open>internal/modules/broker/protocol\<close>. A reader is a function from the bytes still to come to an
  error or a value with the rest. Go's \<open>fmt.Errorf("%w: reading x: %v", ErrTruncatedData, err)\<close>
  is the constructor \<open>ErrTruncatedData\<close> with the context and the cause; the texts of the other
  wrapped errors carry no information the callers use and are left out.
\<close>

unbundle bit_operations_syntax

subsection \<open>Packets (packet.go, errors.go)\<close>

datatype PacketType =
    Reserved1 | CONNECT | CONNACK | PUBLISH | PUBACK | PUBREC | PUBREL | PUBCOMP
  | SUBSCRIBE | SUBACK | UNSUBSCRIBE | UNSUBACK | PINGREQ | PINGRESP | DISCONNECT | Reserved15

definition packet_types :: "PacketType list" where
  "packet_types =
     [Reserved1, CONNECT, CONNACK, PUBLISH, PUBACK, PUBREC, PUBREL, PUBCOMP,
      SUBSCRIBE, SUBACK, UNSUBSCRIBE, UNSUBACK, PINGREQ, PINGRESP, DISCONNECT, Reserved15]"

fun packet_type_String :: "PacketType \<Rightarrow> string" where
  "packet_type_String CONNECT = ''CONNECT''"
| "packet_type_String CONNACK = ''CONNACK''"
| "packet_type_String PUBLISH = ''PUBLISH''"
| "packet_type_String PUBACK = ''PUBACK''"
| "packet_type_String PUBREC = ''PUBREC''"
| "packet_type_String PUBREL = ''PUBREL''"
| "packet_type_String PUBCOMP = ''PUBCOMP''"
| "packet_type_String SUBSCRIBE = ''SUBSCRIBE''"
| "packet_type_String SUBACK = ''SUBACK''"
| "packet_type_String UNSUBSCRIBE = ''UNSUBSCRIBE''"
| "packet_type_String UNSUBACK = ''UNSUBACK''"
| "packet_type_String PINGREQ = ''PINGREQ''"
| "packet_type_String PINGRESP = ''PINGRESP''"
| "packet_type_String DISCONNECT = ''DISCONNECT''"
| "packet_type_String _ = ''RESERVED''"

datatype ConnackReturnCode =
    ConnAccepted | ConnRefusedProtocol | ConnRefusedIdentifier
  | ConnRefusedUnavailable | ConnRefusedBadAuth | ConnRefusedNotAuth

fun connack_code :: "ConnackReturnCode \<Rightarrow> byte" where
  "connack_code ConnAccepted = 0x00"
| "connack_code ConnRefusedProtocol = 0x01"
| "connack_code ConnRefusedIdentifier = 0x02"
| "connack_code ConnRefusedUnavailable = 0x03"
| "connack_code ConnRefusedBadAuth = 0x04"
| "connack_code ConnRefusedNotAuth = 0x05"

record FixedHeader =
  fh_PacketType :: PacketType
  fh_Flags :: byte
  fh_RemainingLength :: int

record ConnectPacket =
  cp_ProtocolName :: string
  cp_ProtocolLevel :: byte
  cp_ConnectFlags :: byte
  cp_KeepAlive :: uint16
  cp_ClientID :: string
  cp_WillTopic :: string
  cp_WillMessage :: bytes
  cp_Username :: string
  cp_Password :: bytes

definition HasUsername :: "ConnectPacket \<Rightarrow> bool" where
  "HasUsername p \<longleftrightarrow> cp_ConnectFlags p AND 0x80 \<noteq> 0"

definition HasPassword :: "ConnectPacket \<Rightarrow> bool" where
  "HasPassword p \<longleftrightarrow> cp_ConnectFlags p AND 0x40 \<noteq> 0"

definition WillRetain :: "ConnectPacket \<Rightarrow> bool" where
  "WillRetain p \<longleftrightarrow> cp_ConnectFlags p AND 0x20 \<noteq> 0"

definition WillQoS :: "ConnectPacket \<Rightarrow> byte" where
  "WillQoS p = drop_bit 3 (cp_ConnectFlags p) AND 0x03"

definition HasWill :: "ConnectPacket \<Rightarrow> bool" where
  "HasWill p \<longleftrightarrow> cp_ConnectFlags p AND 0x04 \<noteq> 0"

definition IsCleanSession :: "ConnectPacket \<Rightarrow> bool" where
  "IsCleanSession p \<longleftrightarrow> cp_ConnectFlags p AND 0x02 \<noteq> 0"

record PublishPacket =
  pp_DUP :: bool
  pp_QoS :: byte
  pp_Retain :: bool
  pp_TopicName :: string
  pp_PacketID :: uint16
  pp_Payload :: bytes

record Subscription =
  sub_TopicFilter :: string
  sub_QoS :: byte

record SubscribePacket =
  sp_PacketID :: uint16
  sp_Subscriptions :: "Subscription list"

datatype protocol_error =
    ErrMalformedRemainingLength
  | ErrInvalidProtocol
  | ErrInvalidPacketType
  | ErrInvalidQoS
  | ErrEmptyPayload
  | ErrTruncatedData string io_error
  | ErrInvalidReservedBit
  | ErrEmptyTopicName
  | ReadError io_error

subsection \<open>Remaining Length (codec.go)\<close>

text \<open>
  The loop of \<open>DecodeRemainingLength\<close>, one byte per round: \<open>io.ReadFull\<close> into a one-byte buffer
  fails with \<open>io.EOF\<close> at the end of the stream and takes the head otherwise. Multiplier and value
  stay below \<open>2 ^ 36\<close>, so Go's 64-bit \<open>int\<close> does not wrap and is modelled by \<^typ>\<open>int\<close>.
\<close>

fun decode_rl_loop :: "int \<Rightarrow> int \<Rightarrow> bytes \<Rightarrow> protocol_error + (int \<times> bytes)" where
  "decode_rl_loop multiplier value [] = Inl (ReadError EOF)"
| "decode_rl_loop multiplier value (encodedByte # reader) =
     (let value' = value + uint (encodedByte AND 0x7F) * multiplier;
          multiplier' = multiplier * 128
      in if multiplier' > 128 * 128 * 128 * 128 then Inl ErrMalformedRemainingLength
         else if encodedByte AND 0x80 = 0 then Inr (value', reader)
         else decode_rl_loop multiplier' value' reader)"

definition DecodeRemainingLength :: "bytes \<Rightarrow> protocol_error + (int \<times> bytes)" where
  "DecodeRemainingLength reader = decode_rl_loop 1 0 reader"

text \<open>Go's \<open>%\<close> and \<open>/\<close> truncate towards zero: \<open>smod\<close> and \<open>sdiv\<close>.\<close>

function EncodeRemainingLength :: "int \<Rightarrow> bytes" where
  "EncodeRemainingLength len =
     (let encodedByte = word_of_int (len smod 128);
          len' = len sdiv 128;
          encodedByte' = (if len' > 0 then encodedByte OR 0x80 else encodedByte)
      in if len' = 0 then [encodedByte'] else encodedByte' # EncodeRemainingLength len')"
  by pat_completeness auto
termination
  by (relation "measure (\<lambda>len. nat \<bar>len\<bar>)")
    (auto simp: signed_divide_int_def abs_mult sgn_if)

declare EncodeRemainingLength.simps [simp del]

lemma byte_low7: "uint ((b :: byte) AND 0x7F) = uint b mod 128"
proof -
  have "b AND 0x7F = take_bit 7 b"
    by (simp add: take_bit_eq_mask mask_eq_exp_minus_1)
  then have "uint (b AND 0x7F) = take_bit 7 (uint b)"
    by (simp only: unsigned_take_bit_eq)
  then show ?thesis by (simp add: take_bit_eq_mod)
qed

lemma byte_and_128_iff: "(b :: byte) AND 0x80 = 0 \<longleftrightarrow> uint b < 128"
proof -
  have "(0x80 :: byte) = 2 ^ 7" by simp
  then have "b AND 0x80 = 0 \<longleftrightarrow> \<not> bit b 7"
    by (simp only: and_exp_eq_0_iff_not_bit)
  also have "\<dots> \<longleftrightarrow> \<not> bit (uint b) 7"
    by (simp add: bit_uint_iff)
  also have "\<dots> \<longleftrightarrow> even (uint b div 128)"
    by (simp add: bit_iff_odd)
  also have "\<dots> \<longleftrightarrow> uint b < 128"
  proof -
    have "0 \<le> uint b" "uint b < 256" using uint_lt2p [of b] by simp_all
    then show ?thesis by presburger
  qed
  finally show ?thesis .
qed

lemma uint_or_128:
  assumes "0 \<le> x" and "x < 128"
  shows "uint (word_of_int x OR 0x80 :: byte) = x + 128"
proof -
  have "uint (word_of_int x :: byte) = x"
    using assms by (simp add: uint_word_of_int)
  with assms have z: "(word_of_int x :: byte) AND 0x80 = 0"
    by (simp add: byte_and_128_iff)
  have "(word_of_int x :: byte) OR 0x80 = word_of_int x + 0x80"
    using z by (intro disjunctive_add [symmetric]) (metis bit_and_iff bit_0_eq bot_apply bot_bool_def)
  also have "\<dots> = word_of_int (x + 128)" by simp
  finally show ?thesis
    using assms by (simp only: uint_word_of_int) simp
qed

text \<open>The three ways one round of the loop can go, with the multiplier \<open>128 ^ k\<close>.\<close>

lemma decode_rl_fifth: "decode_rl_loop 268435456 v (c # s) = Inl ErrMalformedRemainingLength"
  by (simp add: Let_def)

lemma pow128_le: "k < 4 \<Longrightarrow> (128 :: int) ^ k \<le> 2097152"
  using power_increasing [of k 3 "128 :: int"] by simp

lemma decode_rl_last:
  "k < 4 \<Longrightarrow> c AND 0x80 = 0 \<Longrightarrow>
   decode_rl_loop (128 ^ k) v (c # s) = Inr (v + 128 ^ k * (uint c mod 128), s)"
  using pow128_le [of k] by (simp add: Let_def byte_low7 mult.commute)

lemma decode_rl_more:
  "k < 4 \<Longrightarrow> c AND 0x80 \<noteq> 0 \<Longrightarrow>
   decode_rl_loop (128 ^ k) v (c # s) =
   decode_rl_loop (128 ^ Suc k) (v + 128 ^ k * (uint c mod 128)) s"
  using pow128_le [of k] by (simp add: Let_def byte_low7 mult.commute)

declare decode_rl_loop.simps(2) [simp del]

lemma EncodeRemainingLength_last:
  "0 \<le> n \<Longrightarrow> n < 128 \<Longrightarrow> EncodeRemainingLength n = [word_of_int n]"
  by (subst EncodeRemainingLength.simps)
    (simp add: Let_def signed_divide_int_def signed_modulo_int_def sgn_if)

lemma EncodeRemainingLength_more:
  assumes "128 \<le> n"
  shows "EncodeRemainingLength n = (word_of_int (n mod 128) OR 0x80) # EncodeRemainingLength (n div 128)"
proof -
  have "n sdiv 128 = n div 128" "n smod 128 = n mod 128" "0 < n div 128"
    using assms by (simp_all add: signed_divide_int_def signed_modulo_int_def sgn_if minus_div_mult_eq_mod)
  then show ?thesis by (subst EncodeRemainingLength.simps) (simp add: Let_def)
qed

lemma decode_rl_loop_encode:
  assumes "0 \<le> n" and "n < 128 ^ (4 - k)" and "k < 4"
  shows "decode_rl_loop (128 ^ k) v (EncodeRemainingLength n @ r) = Inr (v + 128 ^ k * n, r)"
  using assms
proof (induction "nat n" arbitrary: n k v rule: less_induct)
  case less
  show ?case
  proof (cases "n < 128")
    case True
    with less.prems have "uint (word_of_int n :: byte) = n" by (simp add: uint_word_of_int)
    with True less.prems show ?thesis
      by (simp add: EncodeRemainingLength_last decode_rl_last byte_and_128_iff)
  next
    case False
    let ?q = "n div 128" and ?m = "n mod 128" and ?c = "word_of_int (n mod 128) OR 0x80 :: byte"
    from False less.prems have "4 - k \<noteq> 1" by auto
    with less.prems have sk: "Suc k < 4" by simp
    then have "4 - k = Suc (4 - Suc k)" by simp
    then have pow: "128 ^ (4 - k) = 128 * (128 :: int) ^ (4 - Suc k)" by (simp only: power_Suc)
    have c: "uint ?c = ?m + 128" by (rule uint_or_128) simp_all
    have alg: "x + p * m + 128 * p * q = x + p * (q * 128 + m)" for x m p q :: int
      by (simp add: algebra_simps)
    have "decode_rl_loop (128 ^ k) v (EncodeRemainingLength n @ r)
        = decode_rl_loop (128 ^ Suc k) (v + 128 ^ k * ?m) (EncodeRemainingLength ?q @ r)"
      using False less.prems
      by (simp add: EncodeRemainingLength_more decode_rl_more c byte_and_128_iff del: power_Suc)
    also have "\<dots> = Inr (v + 128 ^ k * ?m + 128 ^ Suc k * ?q, r)"
      by (rule less.hyps) (use False less.prems sk pow in auto)
    also have "\<dots> = Inr (v + 128 ^ k * n, r)"
      by (simp only: power_Suc alg div_mult_mod_eq)
    finally show ?thesis .
  qed
qed

text \<open>The value of a run of bytes, least significant group of seven bits first.\<close>

fun rl_value :: "bytes \<Rightarrow> int" where
  "rl_value [] = 0"
| "rl_value (b # bs) = uint b mod 128 + 128 * rl_value bs"

lemma rl_value_bounds: "0 \<le> rl_value bs \<and> rl_value bs < 128 ^ length bs"
proof (induction bs)
  case (Cons b bs)
  have "uint b mod 128 < 128" "0 \<le> uint b mod 128" by simp_all
  with Cons have "uint b mod 128 + 128 * rl_value bs < 128 * 128 ^ length bs" by linarith
  with Cons show ?case by simp
qed simp

text \<open>The shape the decoder accepts: up to three bytes with the continuation bit, then one without.\<close>

definition rl_shape :: "nat \<Rightarrow> bytes \<Rightarrow> byte \<Rightarrow> bool" where
  "rl_shape k p b \<longleftrightarrow> k + length p < 4 \<and> (\<forall>x\<in>set p. x AND 0x80 \<noteq> 0) \<and> b AND 0x80 = 0"

lemma rl_shape_Nil [simp]: "rl_shape k [] b \<longleftrightarrow> k < 4 \<and> b AND 0x80 = 0"
  by (simp add: rl_shape_def)

lemma rl_shape_Cons [simp]: "rl_shape k (x # p) b \<longleftrightarrow> x AND 0x80 \<noteq> 0 \<and> rl_shape (Suc k) p b"
  by (auto simp: rl_shape_def)

lemma ex_split_Cons:
  "(\<exists>p b. c # s = p @ b # r \<and> Q p b) \<longleftrightarrow> s = r \<and> Q [] c \<or> (\<exists>p b. s = p @ b # r \<and> Q (c # p) b)"
  by (auto simp: Cons_eq_append_conv)

lemma decode_rl_loop_Inr_iff:
  assumes "k \<le> 4"
  shows "decode_rl_loop (128 ^ k) v s = Inr (n, r) \<longleftrightarrow>
    (\<exists>p b. s = p @ b # r \<and> rl_shape k p b \<and> n = v + 128 ^ k * rl_value (p @ [b]))"
  using assms
proof (induction s arbitrary: k v)
  case Nil
  then show ?case by simp
next
  case (Cons c s)
  consider "k = 4" | "k < 4" "c AND 0x80 = 0" | "k < 4" "c AND 0x80 \<noteq> 0"
    using Cons.prems by linarith
  then show ?case
  proof cases
    case 1
    then show ?thesis by (auto simp: decode_rl_fifth rl_shape_def)
  next
    case 2
    then show ?thesis unfolding ex_split_Cons by (auto simp: decode_rl_last)
  next
    case 3
    then show ?thesis unfolding ex_split_Cons
      using Cons.IH [of "Suc k" "v + 128 ^ k * (uint c mod 128)"]
      by (simp add: decode_rl_more algebra_simps)
  qed
qed

lemma decode_rl_loop_Inl_iff:
  assumes "k \<le> 4"
  shows "decode_rl_loop (128 ^ k) v s = Inl e \<longleftrightarrow>
    (if 4 - k < length s \<and> (\<forall>x\<in>set (take (4 - k) s). x AND 0x80 \<noteq> 0) then e = ErrMalformedRemainingLength
     else e = ReadError EOF \<and> length s \<le> 4 - k \<and> (\<forall>x\<in>set s. x AND 0x80 \<noteq> 0))"
  using assms
proof (induction s arbitrary: k v)
  case Nil
  then show ?case by auto
next
  case (Cons c s)
  show ?case
  proof (cases "k = 4")
    case True
    then show ?thesis by (auto simp: decode_rl_fifth)
  next
    case False
    with Cons.prems have k: "k < 4" by simp
    then obtain j where "4 - k = Suc j" "4 - Suc k = j" by (cases "4 - k") auto
    with k show ?thesis
      using Cons.IH [of "Suc k" "v + 128 ^ k * (uint c mod 128)"]
      by (cases "c AND 0x80 = 0") (simp_all add: decode_rl_last decode_rl_more del: power_Suc)
  qed
qed

interpretation remaining_length: decoder DecodeRemainingLength EncodeRemainingLength
  "\<lambda>n. 0 \<le> n \<and> n < 268435456"
proof
  fix n :: int and r
  assume "0 \<le> n \<and> n < 268435456"
  then show "DecodeRemainingLength (EncodeRemainingLength n @ r) = Inr (n, r)"
    using decode_rl_loop_encode [of n 0 0 r] by (simp add: DecodeRemainingLength_def)
qed

lemmas DecodeRemainingLength_Encode [codec_simps] = remaining_length.dec_enc

subsection \<open>Length-prefixed strings and binary data (codec.go)\<close>

definition ReadUTF8String :: "bytes \<Rightarrow> io_error + (string \<times> bytes)" where
  "ReadUTF8String reader =
     (case read_full 2 reader of
        Inl err \<Rightarrow> Inl err
      | Inr (lenBuf, reader) \<Rightarrow>
          let len = unat (be_uint16 (lenBuf ! 0) (lenBuf ! 1))
          in if len = 0 then Inr ([], reader)
             else (case read_full len reader of
                     Inl err \<Rightarrow> Inl err
                   | Inr (strBuf, reader) \<Rightarrow> Inr (string_of_bytes strBuf, reader)))"

definition WriteUTF8String :: "string \<Rightarrow> bytes" where
  "WriteUTF8String s = put_uint16 (word_of_nat (length s)) @ bytes_of_string s"

definition ReadBinaryData :: "bytes \<Rightarrow> io_error + (bytes \<times> bytes)" where
  "ReadBinaryData reader =
     (case read_full 2 reader of
        Inl err \<Rightarrow> Inl err
      | Inr (lenBuf, reader) \<Rightarrow>
          let len = unat (be_uint16 (lenBuf ! 0) (lenBuf ! 1))
          in if len = 0 then Inr ([], reader)
             else (case read_full len reader of
                     Inl err \<Rightarrow> Inl err
                   | Inr (data, reader) \<Rightarrow> Inr (data, reader)))"

text \<open>The writer of binary data, as the clients of the broker produce it.\<close>

definition write_binary :: "bytes \<Rightarrow> bytes" where
  "write_binary bs = put_uint16 (word_of_nat (length bs)) @ bs"

text \<open>Both readers are one: a string is binary data, converted.\<close>

lemma ReadUTF8String_binary:
  "ReadUTF8String r = map_sum id (map_prod string_of_bytes id) (ReadBinaryData r)"
  by (auto simp: ReadUTF8String_def ReadBinaryData_def Let_def split: sum.split)

lemma WriteUTF8String_binary: "WriteUTF8String s = write_binary (bytes_of_string s)"
  by (simp add: WriteUTF8String_def write_binary_def)

lemma length_write_binary [simp]: "length (write_binary bs) = 2 + length bs"
  by (simp add: write_binary_def)

lemma length_WriteUTF8String [simp]: "length (WriteUTF8String s) = 2 + length s"
  by (simp add: WriteUTF8String_binary)

lemma ReadBinaryData_put_uint16:
  "ReadBinaryData (put_uint16 v @ r) =
     (if unat v \<le> length r then Inr (take (unat v) r, drop (unat v) r)
      else Inl (if r = [] then EOF else ErrUnexpectedEOF))"
  by (auto simp: ReadBinaryData_def put_uint16_def read_full_def Let_def)

lemma ReadBinaryData_write [codec_simps]:
  "length bs < 65536 \<Longrightarrow> ReadBinaryData (write_binary bs @ r) = Inr (bs, r)"
  by (simp add: write_binary_def ReadBinaryData_put_uint16 unat_of_nat)

lemma ReadBinaryDataD:
  assumes "ReadBinaryData r = Inr (bs, r')"
  shows "length bs < 65536 \<and> r = write_binary bs @ r'"
proof -
  from assms obtain a b s where r: "r = a # b # s"
    by (auto simp: ReadBinaryData_def split: sum.splits dest!: read_full_2D)
  let ?v = "be_uint16 a b"
  have "ReadBinaryData r = ReadBinaryData (put_uint16 ?v @ s)" by (simp add: r)
  with assms have n: "unat ?v \<le> length s" "bs = take (unat ?v) s" "r' = drop (unat ?v) s"
    by (auto simp only: ReadBinaryData_put_uint16 split: if_splits)
  then have len: "length bs = unat ?v" by simp
  then have "word_of_nat (length bs) = ?v" by simp
  with n len r show ?thesis by (simp add: write_binary_def)
qed

lemma ReadUTF8String_write [codec_simps]:
  "length s < 65536 \<Longrightarrow> ReadUTF8String (WriteUTF8String s @ r) = Inr (s, r)"
  by (simp add: ReadUTF8String_binary WriteUTF8String_binary ReadBinaryData_write)

lemma ReadUTF8StringD:
  assumes "ReadUTF8String r = Inr (s, r')"
  shows "length s < 65536 \<and> r = WriteUTF8String s @ r'"
proof -
  from assms obtain bs where "ReadBinaryData r = Inr (bs, r')" "s = string_of_bytes bs"
    by (cases "ReadBinaryData r") (auto simp: ReadUTF8String_binary)
  then show ?thesis by (auto dest: ReadBinaryDataD simp: WriteUTF8String_binary)
qed

interpretation binary_data: exact_decoder ReadBinaryData write_binary "\<lambda>bs. length bs < 65536"
  by unfold_locales (auto simp: codec_simps dest: ReadBinaryDataD)

interpretation utf8_string: exact_decoder ReadUTF8String WriteUTF8String "\<lambda>s. length s < 65536"
  by unfold_locales (auto simp: codec_simps dest: ReadUTF8StringD)

declare binary_data.enc_dec [codec_dests] utf8_string.enc_dec [codec_dests]

text \<open>
  A string of 65536 bytes or more does not fit its length prefix: the prefix wraps around and the
  reader gets the first \<open>length s mod 65536\<close> bytes, the rest staying in the stream.
\<close>

lemma ReadUTF8String_write_any:
  "ReadUTF8String (WriteUTF8String s @ r) =
     Inr (take (length s mod 65536) s, bytes_of_string (drop (length s mod 65536) s) @ r)"
  by (simp add: ReadUTF8String_binary WriteUTF8String_def ReadBinaryData_put_uint16 unat_of_nat
      take_bytes_of_string drop_bytes_of_string)

end
