(* ===== verification/Packet_Codec.thy ===== *)
theory Packet_Codec
  imports Protocol
begin

section \<open>Packet decoders, encoders and the frame reader (broker/protocol)\<close>

text \<open>
  \<open>decoder.go\<close>, \<open>encoder.go\<close> and \<open>reader.go\<close>, and for each decoder the grammar of the bodies
  it accepts: \<open>connect_body\<close>, \<open>publish_body\<close> and \<open>subscribe_body\<close> write a packet out, and the
  \<open>_iff\<close> lemmas say that a decoder returns a packet exactly on its written form.
\<close>

unbundle bit_operations_syntax

subsection \<open>CONNECT (decoder.go)\<close>

definition decode_will :: "ConnectPacket \<Rightarrow> bytes \<Rightarrow> protocol_error + (ConnectPacket \<times> bytes)" where
  "decode_will pkt reader =
     (if HasWill pkt then
        (case ReadUTF8String reader of
           Inl err \<Rightarrow> Inl (ErrTruncatedData ''reading will topic'' err)
         | Inr (willTopic, reader) \<Rightarrow>
        (case ReadBinaryData reader of
           Inl err \<Rightarrow> Inl (ErrTruncatedData ''reading will message'' err)
         | Inr (willMsg, reader) \<Rightarrow>
             Inr (pkt\<lparr>cp_WillTopic := willTopic, cp_WillMessage := willMsg\<rparr>, reader)))
      else Inr (pkt, reader))"

definition decode_username :: "ConnectPacket \<Rightarrow> bytes \<Rightarrow> protocol_error + (ConnectPacket \<times> bytes)" where
  "decode_username pkt reader =
     (if HasUsername pkt then
        (case ReadUTF8String reader of
           Inl err \<Rightarrow> Inl (ErrTruncatedData ''reading username'' err)
         | Inr (username, reader) \<Rightarrow> Inr (pkt\<lparr>cp_Username := username\<rparr>, reader))
      else Inr (pkt, reader))"

definition decode_password :: "ConnectPacket \<Rightarrow> bytes \<Rightarrow> protocol_error + (ConnectPacket \<times> bytes)" where
  "decode_password pkt reader =
     (if HasPassword pkt then
        (case ReadBinaryData reader of
           Inl err \<Rightarrow> Inl (ErrTruncatedData ''reading password'' err)
         | Inr (password, reader) \<Rightarrow> Inr (pkt\<lparr>cp_Password := password\<rparr>, reader))
      else Inr (pkt, reader))"

text \<open>The variable header, up to and including Keep Alive.\<close>

definition decode_connect_header :: "bytes \<Rightarrow> protocol_error + (ConnectPacket \<times> bytes)" where
  "decode_connect_header reader =
     (case ReadUTF8String reader of
        Inl err \<Rightarrow> Inl (ErrTruncatedData ''reading protocol name'' err)
      | Inr (name, reader) \<Rightarrow>
      if name \<noteq> ''MQTT'' then Inl ErrInvalidProtocol else
      (case read_full 1 reader of
        Inl err \<Rightarrow> Inl (ErrTruncatedData ''reading protocol level'' err)
      | Inr (levelBuf, reader) \<Rightarrow>
      if levelBuf ! 0 \<noteq> 4 then Inl ErrInvalidProtocol else
      (case read_full 1 reader of
        Inl err \<Rightarrow> Inl (ErrTruncatedData ''reading connect flags'' err)
      | Inr (flagsBuf, reader) \<Rightarrow>
      if flagsBuf ! 0 AND 0x01 \<noteq> 0 then Inl ErrInvalidReservedBit else
      (case read_full 2 reader of
        Inl err \<Rightarrow> Inl (ErrTruncatedData ''reading keep alive'' err)
      | Inr (keepAliveBuf, reader) \<Rightarrow>
          Inr (\<lparr>cp_ProtocolName = name, cp_ProtocolLevel = levelBuf ! 0,
                cp_ConnectFlags = flagsBuf ! 0,
                cp_KeepAlive = be_uint16 (keepAliveBuf ! 0) (keepAliveBuf ! 1),
                cp_ClientID = [], cp_WillTopic = [], cp_WillMessage = [],
                cp_Username = [], cp_Password = []\<rparr>, reader)))))"

definition DecodeConnect :: "bytes \<Rightarrow> protocol_error + ConnectPacket" where
  "DecodeConnect data =
     (case decode_connect_header data of
        Inl err \<Rightarrow> Inl err
      | Inr (pkt, reader) \<Rightarrow>
      (case ReadUTF8String reader of
        Inl err \<Rightarrow> Inl (ErrTruncatedData ''reading client id'' err)
      | Inr (clientID, reader) \<Rightarrow>
      (case decode_will (pkt\<lparr>cp_ClientID := clientID\<rparr>) reader of
        Inl err \<Rightarrow> Inl err
      | Inr (pkt, reader) \<Rightarrow>
      (case decode_username pkt reader of
        Inl err \<Rightarrow> Inl err
      | Inr (pkt, reader) \<Rightarrow>
      (case decode_password pkt reader of
        Inl err \<Rightarrow> Inl err
      | Inr (pkt, _) \<Rightarrow> Inr pkt)))))"

text \<open>The grammar of a CONNECT body.\<close>

definition connect_body :: "ConnectPacket \<Rightarrow> bytes" where
  "connect_body p =
     WriteUTF8String (cp_ProtocolName p) @ [cp_ProtocolLevel p] @ [cp_ConnectFlags p] @
     put_uint16 (cp_KeepAlive p) @ WriteUTF8String (cp_ClientID p) @
     (if HasWill p then WriteUTF8String (cp_WillTopic p) @ write_binary (cp_WillMessage p) else []) @
     (if HasUsername p then WriteUTF8String (cp_Username p) else []) @
     (if HasPassword p then write_binary (cp_Password p) else [])"

definition connect_ok :: "ConnectPacket \<Rightarrow> bool" where
  "connect_ok p \<longleftrightarrow>
     cp_ProtocolName p = ''MQTT'' \<and> cp_ProtocolLevel p = 4 \<and> cp_ConnectFlags p AND 1 = 0 \<and>
     length (cp_ClientID p) < 65536 \<and>
     (if HasWill p then length (cp_WillTopic p) < 65536 \<and> length (cp_WillMessage p) < 65536
      else cp_WillTopic p = [] \<and> cp_WillMessage p = []) \<and>
     (if HasUsername p then length (cp_Username p) < 65536 else cp_Username p = []) \<and>
     (if HasPassword p then length (cp_Password p) < 65536 else cp_Password p = [])"

lemmas connect_decoders =
  DecodeConnect_def decode_connect_header_def decode_will_def decode_username_def decode_password_def
lemmas connect_flags = HasWill_def HasUsername_def HasPassword_def

lemma DecodeConnect_body:
  assumes "connect_ok p"
  shows "DecodeConnect (connect_body p @ r) = Inr p"
  using assms
  by (cases p)
    (simp add: connect_decoders connect_flags connect_body_def connect_ok_def codec_simps
      put_uint16_def split: if_splits)

text \<open>What each stage of a successful decoding says about the bytes it took.\<close>

lemma decode_connect_headerD:
  assumes "decode_connect_header r = Inr (p, r')"
  shows "cp_ConnectFlags p AND 1 = 0 \<and>
    r = WriteUTF8String ''MQTT'' @ [4] @ [cp_ConnectFlags p] @ put_uint16 (cp_KeepAlive p) @ r' \<and>
    cp_ProtocolName p = ''MQTT'' \<and> cp_ProtocolLevel p = 4 \<and> cp_ClientID p = [] \<and>
    cp_WillTopic p = [] \<and> cp_WillMessage p = [] \<and> cp_Username p = [] \<and> cp_Password p = []"
  using assms
  by (auto simp: decode_connect_header_def split: sum.splits if_splits dest!: codec_dests)

lemma decode_willD:
  assumes "decode_will p r = Inr (p', r')"
  shows "(if HasWill p then
      \<exists>t m. length t < 65536 \<and> length m < 65536 \<and>
        r = WriteUTF8String t @ write_binary m @ r' \<and> p' = p\<lparr>cp_WillTopic := t, cp_WillMessage := m\<rparr>
    else p' = p \<and> r' = r)"
  using assms
  by (auto simp: decode_will_def split: sum.splits if_splits dest!: codec_dests) blast

lemma decode_usernameD:
  assumes "decode_username p r = Inr (p', r')"
  shows "(if HasUsername p then
      \<exists>u. length u < 65536 \<and> r = WriteUTF8String u @ r' \<and> p' = p\<lparr>cp_Username := u\<rparr>
    else p' = p \<and> r' = r)"
  using assms
  by (auto simp: decode_username_def split: sum.splits if_splits dest!: codec_dests)

lemma decode_passwordD:
  assumes "decode_password p r = Inr (p', r')"
  shows "(if HasPassword p then
      \<exists>w. length w < 65536 \<and> r = write_binary w @ r' \<and> p' = p\<lparr>cp_Password := w\<rparr>
    else p' = p \<and> r' = r)"
  using assms
  by (auto simp: decode_password_def split: sum.splits if_splits dest!: codec_dests)

lemma DecodeConnectD:
  assumes "DecodeConnect data = Inr p"
  shows "connect_ok p \<and> (\<exists>r. data = connect_body p @ r)"
proof -
  from assms obtain p0 r0 c r1 p1 r2 p2 r3 r4 where
    h: "decode_connect_header data = Inr (p0, r0)" and
    c: "ReadUTF8String r0 = Inr (c, r1)" and
    w: "decode_will (p0\<lparr>cp_ClientID := c\<rparr>) r1 = Inr (p1, r2)" and
    u: "decode_username p1 r2 = Inr (p2, r3)" and
    q: "decode_password p2 r3 = Inr (p, r4)"
    by (auto simp: DecodeConnect_def split: sum.splits)
  note hdr = decode_connect_headerD [OF h]
  from utf8_string.enc_dec [OF c] have c': "length c < 65536" "r0 = WriteUTF8String c @ r1" by auto
  have fl: "cp_ConnectFlags p1 = cp_ConnectFlags p0" "cp_ConnectFlags p2 = cp_ConnectFlags p0"
    "cp_ConnectFlags p = cp_ConnectFlags p0"
    using decode_willD [OF w] decode_usernameD [OF u] decode_passwordD [OF q]
    by (auto split: if_splits)
  show ?thesis
    using decode_willD [OF w] decode_usernameD [OF u] decode_passwordD [OF q] c' hdr
    unfolding connect_flags connect_ok_def connect_body_def
    by (simp add: fl split: if_splits) auto
qed

lemma DecodeConnect_iff:
  "DecodeConnect data = Inr p \<longleftrightarrow> connect_ok p \<and> (\<exists>r. data = connect_body p @ r)"
  using DecodeConnect_body DecodeConnectD by blast

subsection \<open>PUBLISH (decoder.go)\<close>

definition DecodePublish :: "FixedHeader \<Rightarrow> bytes \<Rightarrow> protocol_error + PublishPacket" where
  "DecodePublish header data =
     (let dup = (fh_Flags header AND 0x08 \<noteq> 0);
          qos = drop_bit 1 (fh_Flags header) AND 0x03;
          retain = (fh_Flags header AND 0x01 \<noteq> 0)
      in if qos = 3 then Inl ErrInvalidQoS
         else (case ReadUTF8String data of
           Inl err \<Rightarrow> Inl (ErrTruncatedData ''reading topic name'' err)
         | Inr (topicName, reader) \<Rightarrow>
         if topicName = [] then Inl ErrEmptyTopicName
         else if qos > 0 then
           (case read_full 2 reader of
              Inl err \<Rightarrow> Inl (ErrTruncatedData ''reading packet id'' err)
            | Inr (pidBuf, reader) \<Rightarrow>
                Inr \<lparr>pp_DUP = dup, pp_QoS = qos, pp_Retain = retain, pp_TopicName = topicName,
                     pp_PacketID = be_uint16 (pidBuf ! 0) (pidBuf ! 1), pp_Payload = reader\<rparr>)
         else Inr \<lparr>pp_DUP = dup, pp_QoS = qos, pp_Retain = retain, pp_TopicName = topicName,
                   pp_PacketID = 0, pp_Payload = reader\<rparr>))"

text \<open>The flags of the fixed header and the body of a PUBLISH packet.\<close>

definition publish_flags :: "PublishPacket \<Rightarrow> byte \<Rightarrow> bool" where
  "publish_flags p f \<longleftrightarrow>
     pp_DUP p = (f AND 0x08 \<noteq> 0) \<and> pp_QoS p = drop_bit 1 f AND 0x03 \<and> pp_Retain p = (f AND 0x01 \<noteq> 0)"

definition publish_body :: "PublishPacket \<Rightarrow> bytes" where
  "publish_body p =
     WriteUTF8String (pp_TopicName p) @ (if pp_QoS p > 0 then put_uint16 (pp_PacketID p) else []) @
     pp_Payload p"

definition publish_ok :: "PublishPacket \<Rightarrow> bool" where
  "publish_ok p \<longleftrightarrow>
     pp_QoS p \<le> 2 \<and> pp_TopicName p \<noteq> [] \<and> length (pp_TopicName p) < 65536 \<and>
     (pp_QoS p = 0 \<longrightarrow> pp_PacketID p = 0)"

lemma and_3_le: "(b :: byte) AND 3 \<le> 3"
  by (rule word_and_le1)

lemma byte_le_2_iff: "(b :: byte) AND 3 \<noteq> 3 \<longleftrightarrow> b AND 3 \<le> 2"
proof -
  have "x \<le> 3 \<Longrightarrow> x \<noteq> 3 \<longleftrightarrow> x \<le> 2" for x :: byte by unat_arith
  then show ?thesis using and_3_le [of b] .
qed

lemma DecodePublish_body:
  assumes "publish_ok p" and "publish_flags p (fh_Flags h)"
  shows "DecodePublish h (publish_body p) = Inr p"
proof -
  have "drop_bit 1 (fh_Flags h) AND 3 \<noteq> (3 :: byte)"
    using assms byte_le_2_iff by (simp add: publish_ok_def publish_flags_def)
  with assms show ?thesis
    by (cases p)
      (auto simp: DecodePublish_def publish_body_def publish_ok_def publish_flags_def codec_simps
        put_uint16_def Let_def word_gt_0)
qed

lemma DecodePublishD:
  assumes "DecodePublish h data = Inr p"
  shows "publish_ok p \<and> publish_flags p (fh_Flags h) \<and> data = publish_body p"
  using assms
  by (auto simp: DecodePublish_def publish_body_def publish_ok_def publish_flags_def byte_le_2_iff
      Let_def word_gt_0 split: sum.splits if_splits dest!: codec_dests)

lemma DecodePublish_iff:
  "DecodePublish h data = Inr p \<longleftrightarrow>
     publish_ok p \<and> publish_flags p (fh_Flags h) \<and> data = publish_body p"
  using DecodePublish_body DecodePublishD by blast

subsection \<open>SUBSCRIBE (decoder.go)\<close>

text \<open>The loop over the topic filters: each round takes at least three bytes.\<close>

function decode_subscriptions :: "bytes \<Rightarrow> protocol_error + Subscription list" where
  "decode_subscriptions reader =
     (if reader = [] then Inr []
      else (case ReadUTF8String reader of
        Inl err \<Rightarrow> Inl (ErrTruncatedData ''reading topic filter'' err)
      | Inr (topicFilter, reader) \<Rightarrow>
      (case read_full 1 reader of
        Inl err \<Rightarrow> Inl (ErrTruncatedData ''reading qos'' err)
      | Inr (qosBuf, reader) \<Rightarrow>
          let qos = qosBuf ! 0 AND 0x03
          in if qosBuf ! 0 > 2 then Inl ErrInvalidQoS
             else (case decode_subscriptions reader of
                     Inl err \<Rightarrow> Inl err
                   | Inr subs \<Rightarrow> Inr (\<lparr>sub_TopicFilter = topicFilter, sub_QoS = qos\<rparr> # subs)))))"
  by pat_completeness auto
termination
  by (relation "measure length")
    (auto dest!: utf8_string.dec_length read_full_shorter)

declare decode_subscriptions.simps [simp del]

definition DecodeSubscribe :: "bytes \<Rightarrow> protocol_error + SubscribePacket" where
  "DecodeSubscribe data =
     (if length data < 5 then Inl ErrEmptyPayload
      else (case read_full 2 data of
        Inl err \<Rightarrow> Inl (ErrTruncatedData ''reading packet id'' err)
      | Inr (pidBuf, reader) \<Rightarrow>
      (case decode_subscriptions reader of
        Inl err \<Rightarrow> Inl err
      | Inr subs \<Rightarrow>
          if subs = [] then Inl ErrEmptyPayload
          else Inr \<lparr>sp_PacketID = be_uint16 (pidBuf ! 0) (pidBuf ! 1), sp_Subscriptions = subs\<rparr>)))"

definition subscription_body :: "Subscription \<Rightarrow> bytes" where
  "subscription_body s = WriteUTF8String (sub_TopicFilter s) @ [sub_QoS s]"

definition subscription_ok :: "Subscription \<Rightarrow> bool" where
  "subscription_ok s \<longleftrightarrow> length (sub_TopicFilter s) < 65536 \<and> sub_QoS s \<le> 2"

definition subscribe_body :: "SubscribePacket \<Rightarrow> bytes" where
  "subscribe_body p = put_uint16 (sp_PacketID p) @ concat (map subscription_body (sp_Subscriptions p))"

definition subscribe_ok :: "SubscribePacket \<Rightarrow> bool" where
  "subscribe_ok p \<longleftrightarrow> sp_Subscriptions p \<noteq> [] \<and> list_all subscription_ok (sp_Subscriptions p)"

lemma byte_le_2_and_3: "q \<le> 2 \<Longrightarrow> (q :: byte) AND 3 = q"
proof -
  assume "q \<le> 2"
  then have "q = 0 \<or> q = 1 \<or> q = 2" by unat_arith
  then show ?thesis by auto
qed

lemma decode_subscriptions_Nil [simp]: "decode_subscriptions [] = Inr []"
  by (simp add: decode_subscriptions.simps)

lemma decode_subscriptions_Cons:
  assumes "subscription_ok s"
  shows "decode_subscriptions (subscription_body s @ r) =
    (case decode_subscriptions r of Inl err \<Rightarrow> Inl err | Inr subs \<Rightarrow> Inr (s # subs))"
proof -
  have "WriteUTF8String (sub_TopicFilter s) \<noteq> []"
    by (metis length_WriteUTF8String add_is_0 list.size(3) zero_neq_numeral)
  with assms show ?thesis
    by (cases s, subst decode_subscriptions.simps)
      (auto simp: subscription_body_def subscription_ok_def codec_simps Let_def byte_le_2_and_3
        not_le split: sum.split)
qed

lemma decode_subscriptions_body:
  "list_all subscription_ok subs \<Longrightarrow> decode_subscriptions (concat (map subscription_body subs)) = Inr subs"
  by (induction subs) (simp_all add: decode_subscriptions_Cons)

lemma decode_subscriptionsD:
  "decode_subscriptions r = Inr subs \<Longrightarrow>
     list_all subscription_ok subs \<and> r = concat (map subscription_body subs)"
proof (induction r arbitrary: subs rule: decode_subscriptions.induct)
  case (1 r)
  show ?case
  proof (cases "r = []")
    case True
    with "1.prems" show ?thesis by simp
  next
    case False
    with "1.prems" obtain t r1 q r2 subs' where
      t: "ReadUTF8String r = Inr (t, r1)" and q: "read_full 1 r1 = Inr (q, r2)" and
      q2: "\<not> q ! 0 > 2" and rest: "decode_subscriptions r2 = Inr subs'" and
      subs: "subs = \<lparr>sub_TopicFilter = t, sub_QoS = q ! 0 AND 3\<rparr> # subs'"
      by (subst (asm) decode_subscriptions.simps) (auto simp: Let_def split: sum.splits if_splits)
    let ?s = "\<lparr>sub_TopicFilter = t, sub_QoS = q ! 0 AND 3\<rparr>"
    have IH: "list_all subscription_ok subs' \<and> r2 = concat (map subscription_body subs')"
      using "1.IH" [OF False t refl q refl refl q2 rest] .
    from t q q2 have "subscription_ok ?s" "r = subscription_body ?s @ r2"
      by (auto simp: subscription_ok_def subscription_body_def byte_le_2_and_3 not_less
          dest!: codec_dests)
    with IH show ?thesis by (simp add: subs)
  qed
qed

lemma length_subscription_body: "length (subscription_body s) \<ge> 3"
  by (simp add: subscription_body_def)

lemma DecodeSubscribe_body:
  assumes "subscribe_ok p"
  shows "DecodeSubscribe (subscribe_body p) = Inr p"
proof -
  from assms obtain s subs where s: "sp_Subscriptions p = s # subs"
    by (cases "sp_Subscriptions p") (auto simp: subscribe_ok_def)
  then have "length (subscribe_body p) \<ge> 5"
    using length_subscription_body [of s] by (simp add: subscribe_body_def)
  moreover have "decode_subscriptions (concat (map subscription_body (sp_Subscriptions p)))
      = Inr (sp_Subscriptions p)"
    using assms by (simp add: decode_subscriptions_body subscribe_ok_def)
  ultimately show ?thesis
    using s by (cases p) (simp add: DecodeSubscribe_def subscribe_body_def put_uint16_def)
qed

lemma DecodeSubscribeD:
  assumes "DecodeSubscribe data = Inr p"
  shows "subscribe_ok p \<and> data = subscribe_body p"
  using assms
  by (auto simp: DecodeSubscribe_def subscribe_ok_def subscribe_body_def
      split: sum.splits if_splits dest!: codec_dests decode_subscriptionsD)

lemma DecodeSubscribe_iff:
  "DecodeSubscribe data = Inr p \<longleftrightarrow> subscribe_ok p \<and> data = subscribe_body p"
  using DecodeSubscribe_body DecodeSubscribeD by blast

subsection \<open>Encoders (encoder.go)\<close>

definition EncodeConnack :: "bool \<Rightarrow> ConnackReturnCode \<Rightarrow> bytes" where
  "EncodeConnack sessionPresent returnCode =
     [0x20, 0x02, if sessionPresent then 0x01 else 0x00, connack_code returnCode]"

definition EncodePuback :: "uint16 \<Rightarrow> bytes" where
  "EncodePuback packetID = [0x40, 0x02] @ put_uint16 packetID"

definition EncodeSuback :: "uint16 \<Rightarrow> bytes \<Rightarrow> bytes" where
  "EncodeSuback packetID returnCodes =
     (let remainingLength = 2 + int (length returnCodes)
      in [0x90] @ EncodeRemainingLength remainingLength @ put_uint16 packetID @ returnCodes)"

definition EncodePingresp :: bytes where
  "EncodePingresp = [0xD0, 0x00]"

subsection \<open>The frame reader (reader.go)\<close>

definition packet_type_of :: "byte \<Rightarrow> PacketType" where
  "packet_type_of b = packet_types ! unat (drop_bit 4 b)"

definition ReadPacket :: "bytes \<Rightarrow> protocol_error + (FixedHeader \<times> bytes \<times> bytes)" where
  "ReadPacket reader =
     (case read_full 1 reader of
        Inl err \<Rightarrow> Inl (ReadError err)
      | Inr (firstByte, reader) \<Rightarrow>
      let packetType = packet_type_of (firstByte ! 0);
          flags = firstByte ! 0 AND 0x0F
      in if packetType = Reserved1 \<or> packetType = Reserved15 then Inl ErrInvalidPacketType
      else (case DecodeRemainingLength reader of
        Inl err \<Rightarrow> Inl err
      | Inr (remainingLength, reader) \<Rightarrow>
      let header = \<lparr>fh_PacketType = packetType, fh_Flags = flags,
                    fh_RemainingLength = remainingLength\<rparr>
      in if remainingLength > 0 then
           (case read_full (nat remainingLength) reader of
              Inl err \<Rightarrow> Inl (ReadError err)
            | Inr (data, reader) \<Rightarrow> Inr (header, data, reader))
         else Inr (header, [], reader)))"

text \<open>A frame: the first byte, the length of the body in its canonical form, the body.\<close>

definition frame :: "byte \<Rightarrow> bytes \<Rightarrow> bytes" where
  "frame b body = b # EncodeRemainingLength (int (length body)) @ body"

definition frame_header :: "byte \<Rightarrow> bytes \<Rightarrow> FixedHeader" where
  "frame_header b body =
     \<lparr>fh_PacketType = packet_type_of b, fh_Flags = b AND 0x0F,
      fh_RemainingLength = int (length body)\<rparr>"

definition frame_ok :: "byte \<Rightarrow> bytes \<Rightarrow> bool" where
  "frame_ok b body \<longleftrightarrow>
     packet_type_of b \<noteq> Reserved1 \<and> packet_type_of b \<noteq> Reserved15 \<and> length body < 268435456"

lemma ReadPacket_frame [codec_simps]:
  "frame_ok b body \<Longrightarrow> ReadPacket (frame b body @ r) = Inr (frame_header b body, body, r)"
  by (auto simp: ReadPacket_def frame_def frame_ok_def frame_header_def codec_simps Let_def)

text \<open>Whatever it returns, the reader took a non-empty prefix off the stream.\<close>

lemma DecodeRemainingLengthD:
  assumes "DecodeRemainingLength s = Inr (n, r)"
  shows "0 \<le> n \<and> n < 268435456 \<and> (\<exists>p. s = p @ r \<and> p \<noteq> [] \<and> length p \<le> 4)"
proof -
  from assms obtain p b where s: "s = p @ b # r" and sh: "rl_shape 0 p b" and n: "n = rl_value (p @ [b])"
    using decode_rl_loop_Inr_iff [of 0 0 s n r] by (auto simp: DecodeRemainingLength_def)
  from sh have "length (p @ [b]) \<le> 4" by (simp add: rl_shape_def)
  then have "(128 :: int) ^ length (p @ [b]) \<le> 128 ^ 4" by (intro power_increasing) auto
  with rl_value_bounds [of "p @ [b]"] n have "0 \<le> n" "n < 268435456" by simp_all
  with s sh show ?thesis by (auto simp: rl_shape_def intro!: exI [of _ "p @ [b]"])
qed

lemma ReadPacketD:
  assumes "ReadPacket s = Inr (h, data, r)"
  shows "fh_PacketType h \<noteq> Reserved1 \<and> fh_PacketType h \<noteq> Reserved15 \<and>
    int (length data) = fh_RemainingLength h \<and> fh_RemainingLength h < 268435456 \<and>
    (\<exists>p. s = p @ r \<and> 2 \<le> length p)"
proof -
  from assms obtain b s1 n s2 where s: "s = b # s1" and n: "DecodeRemainingLength s1 = Inr (n, s2)"
    and ty: "packet_type_of b \<noteq> Reserved1" "packet_type_of b \<noteq> Reserved15"
    and h: "h = \<lparr>fh_PacketType = packet_type_of b, fh_Flags = b AND 15, fh_RemainingLength = n\<rparr>"
    and d: "if n > 0 then read_full (nat n) s2 = Inr (data, r) else data = [] \<and> r = s2"
    by (auto simp: ReadPacket_def Let_def split: sum.splits if_splits dest!: codec_dests)
  from DecodeRemainingLengthD [OF n] obtain p where
    p: "s1 = p @ s2" "p \<noteq> []" and "0 \<le> n" "n < 268435456" by blast
  moreover have "int (length data) = n" "s2 = data @ r"
    using d \<open>0 \<le> n\<close> by (auto simp: read_full_Inr_iff split: if_splits)
  moreover from p have "1 \<le> length p" by (cases p) auto
  ultimately show ?thesis
    using s ty h by (auto intro!: exI [of _ "b # p @ data"])
qed

lemma ReadPacket_shorter: "ReadPacket s = Inr (h, data, r) \<Longrightarrow> length r < length s"
  by (drule ReadPacketD) auto

end
