(* ===== verification/Topic_Registry.thy ===== *)
theory Topic_Registry
  imports Go_Strings
begin

section \<open>Topic ownership (broker/topic)\<close>

text \<open>
  \<open>topic/registry.go\<close>: the set of allowed topics, fixed at start-up, and who owns which of them.
  The Go methods hold the registry's mutex from start to end, so each is one atomic function on
  the record. The first part states what a client of the registry relies on as the locale
  \<open>ownership\<close> and derives the behaviour over sequences of calls; the second models the code and
  interprets the locale on it.
\<close>

subsection \<open>The ownership contract\<close>

datatype ownership_op = OpClaim string string | OpRelease string

fun ownership_run ::
  "('r \<Rightarrow> string \<Rightarrow> string \<Rightarrow> 'e option \<times> 'r) \<Rightarrow> ('r \<Rightarrow> string \<Rightarrow> 'r) \<Rightarrow> 'r \<Rightarrow> ownership_op list \<Rightarrow> 'r"
where
  "ownership_run cl rl r [] = r"
| "ownership_run cl rl r (OpClaim t c # ops) = ownership_run cl rl (snd (cl r t c)) ops"
| "ownership_run cl rl r (OpRelease c # ops) = ownership_run cl rl (rl r c) ops"

locale ownership =
  fixes is_allowed :: "'r \<Rightarrow> string \<Rightarrow> bool"
    and owner :: "'r \<Rightarrow> string \<Rightarrow> string option"
    and claim :: "'r \<Rightarrow> string \<Rightarrow> string \<Rightarrow> 'e option \<times> 'r"
    and release :: "'r \<Rightarrow> string \<Rightarrow> 'r"
  assumes claim_granted:
      "fst (claim r t c) = None \<longleftrightarrow> is_allowed r t \<and> (owner r t = None \<or> owner r t = Some c)"
    and owner_claim:
      "owner (snd (claim r t c)) = (if fst (claim r t c) = None then (owner r)(t \<mapsto> c) else owner r)"
    and owner_release: "owner (release r c) t = (if owner r t = Some c then None else owner r t)"
    and allowed_claim: "is_allowed (snd (claim r t c)) = is_allowed r"
    and allowed_release: "is_allowed (release r c) = is_allowed r"
begin

text \<open>Nobody takes a topic from its owner: only the owner's own release ends the ownership.\<close>

lemma owner_stable:
  "owner r t = Some c \<Longrightarrow> OpRelease c \<notin> set ops \<Longrightarrow> owner (ownership_run claim release r ops) t = Some c"
proof (induction ops arbitrary: r)
  case (Cons op ops)
  have "owner (snd (claim r u d)) t = Some c" for u d
    using Cons.prems(1) by (cases "fst (claim r u d) = None") (auto simp: owner_claim claim_granted)
  with Cons show ?case by (cases op) (auto simp: owner_release)
qed simp

lemma allowed_run: "is_allowed (ownership_run claim release r ops) = is_allowed r"
proof (induction ops arbitrary: r)
  case (Cons op ops)
  then show ?case by (cases op) (simp_all add: allowed_claim allowed_release)
qed simp

lemma claim_excluded:
  assumes "fst (claim r t c) = None" and "OpRelease c \<notin> set ops" and "d \<noteq> c"
  shows "fst (claim (ownership_run claim release (snd (claim r t c)) ops) t d) \<noteq> None"
proof -
  have "owner (snd (claim r t c)) t = Some c" using assms(1) by (simp add: owner_claim)
  then have "owner (ownership_run claim release (snd (claim r t c)) ops) t = Some c"
    using assms(2) by (rule owner_stable)
  with assms(3) show ?thesis by (simp add: claim_granted)
qed

lemma claim_after_release:
  "is_allowed r t \<Longrightarrow> owner r t = Some c \<Longrightarrow> fst (claim (release r c) t d) = None"
  by (simp add: claim_granted owner_release allowed_release)

end

subsection \<open>The registry (errors.go, registry.go)\<close>

datatype topic_error =
    ErrInvalidTopicCount nat
  | TopicErrEmptyTopicName
  | ErrTopicOwnedByAnother string string
  | ErrTopicNotAllowed

record TopicRegistry =
  reg_allowed :: "string set"
  reg_owners :: "string \<rightharpoonup> string"

fun collect_allowed :: "string set \<Rightarrow> string list \<Rightarrow> topic_error + string set" where
  "collect_allowed allowed [] = Inr allowed"
| "collect_allowed allowed (t # topics) =
     (let t = TrimSpace t
      in if t = [] then Inl TopicErrEmptyTopicName
         else collect_allowed (insert t allowed) topics)"

definition NewTopicRegistry :: "string list \<Rightarrow> topic_error + TopicRegistry" where
  "NewTopicRegistry topics =
     (if length topics = 0 \<or> length topics > 5 then Inl (ErrInvalidTopicCount (length topics))
      else (case collect_allowed {} topics of
              Inl err \<Rightarrow> Inl err
            | Inr allowed \<Rightarrow> Inr \<lparr>reg_allowed = allowed, reg_owners = Map.empty\<rparr>))"

definition IsAllowed :: "TopicRegistry \<Rightarrow> string \<Rightarrow> bool" where
  "IsAllowed r topic \<longleftrightarrow> topic \<in> reg_allowed r"

definition Claim :: "TopicRegistry \<Rightarrow> string \<Rightarrow> string \<Rightarrow> topic_error option \<times> TopicRegistry" where
  "Claim r topic clientID =
     (if topic \<notin> reg_allowed r then (Some ErrTopicNotAllowed, r)
      else (case reg_owners r topic of
              Some owner \<Rightarrow>
                if owner \<noteq> clientID then (Some (ErrTopicOwnedByAnother topic owner), r)
                else (None, r\<lparr>reg_owners := (reg_owners r)(topic \<mapsto> clientID)\<rparr>)
            | None \<Rightarrow> (None, r\<lparr>reg_owners := (reg_owners r)(topic \<mapsto> clientID)\<rparr>)))"

text \<open>The loop of \<open>Release\<close> deletes every entry whose value is the client; Go allows deletion
  while ranging over a map, and the result does not depend on the order.\<close>

definition Release :: "TopicRegistry \<Rightarrow> string \<Rightarrow> TopicRegistry" where
  "Release r clientID =
     r\<lparr>reg_owners := (\<lambda>topic. if reg_owners r topic = Some clientID then None else reg_owners r topic)\<rparr>"

definition Owner :: "TopicRegistry \<Rightarrow> string \<Rightarrow> string" where
  "Owner r topic = (case reg_owners r topic of None \<Rightarrow> [] | Some owner \<Rightarrow> owner)"

text \<open>\<open>Topics\<close> ranges over a Go map, whose order is not specified: any enumeration is a result.\<close>

definition Topics :: "TopicRegistry \<Rightarrow> string list \<Rightarrow> bool" where
  "Topics r topics \<longleftrightarrow> distinct topics \<and> set topics = reg_allowed r"

definition registry_run :: "TopicRegistry \<Rightarrow> ownership_op list \<Rightarrow> TopicRegistry" where
  "registry_run = ownership_run Claim Release"

interpretation topics: ownership IsAllowed reg_owners Claim Release
  by unfold_locales
    (auto simp: IsAllowed_def Claim_def Release_def fun_eq_iff split: option.splits)

subsection \<open>Well-formed registries\<close>

definition registry_inv :: "TopicRegistry \<Rightarrow> bool" where
  "registry_inv r \<longleftrightarrow>
     finite (reg_allowed r) \<and> reg_allowed r \<noteq> {} \<and> card (reg_allowed r) \<le> 5 \<and>
     (\<forall>t\<in>reg_allowed r. t \<noteq> [] \<and> trimmed t) \<and> dom (reg_owners r) \<subseteq> reg_allowed r"

lemma collect_allowed_iff:
  "collect_allowed A topics = Inr B \<longleftrightarrow>
     (\<forall>t\<in>set topics. TrimSpace t \<noteq> []) \<and> B = A \<union> TrimSpace ` set topics"
  by (induction topics arbitrary: A) (auto simp: Let_def)

lemma NewTopicRegistry_iff:
  "NewTopicRegistry topics = Inr r \<longleftrightarrow>
     1 \<le> length topics \<and> length topics \<le> 5 \<and> (\<forall>t\<in>set topics. TrimSpace t \<noteq> []) \<and>
     r = \<lparr>reg_allowed = TrimSpace ` set topics, reg_owners = Map.empty\<rparr>"
proof -
  have "NewTopicRegistry topics = Inr r \<longleftrightarrow>
      1 \<le> length topics \<and> length topics \<le> 5 \<and>
      (\<exists>B. collect_allowed {} topics = Inr B \<and> r = \<lparr>reg_allowed = B, reg_owners = Map.empty\<rparr>)"
    by (cases "collect_allowed {} topics") (auto simp: NewTopicRegistry_def not_le Suc_le_eq)
  then show ?thesis by (auto simp: collect_allowed_iff)
qed

lemma NewTopicRegistry_inv [inv_intros]: "NewTopicRegistry topics = Inr r \<Longrightarrow> registry_inv r"
proof -
  assume "NewTopicRegistry topics = Inr r"
  then have t: "1 \<le> length topics" "length topics \<le> 5" "\<forall>t\<in>set topics. TrimSpace t \<noteq> []"
    "r = \<lparr>reg_allowed = TrimSpace ` set topics, reg_owners = Map.empty\<rparr>"
    by (simp_all add: NewTopicRegistry_iff)
  have "card (TrimSpace ` set topics) \<le> card (set topics)" by (rule card_image_le) simp
  also have "\<dots> \<le> length topics" by (rule card_length)
  finally show ?thesis using t by (auto simp: registry_inv_def)
qed

lemma Claim_inv [inv_intros]: "registry_inv r \<Longrightarrow> registry_inv (snd (Claim r t c))"
  by (auto simp: registry_inv_def Claim_def split: option.splits)

lemma Release_inv [inv_intros]: "registry_inv r \<Longrightarrow> registry_inv (Release r c)"
  by (auto simp: registry_inv_def Release_def dom_def)

lemma reg_allowed_Claim [simp]: "reg_allowed (snd (Claim r t c)) = reg_allowed r"
  by (simp add: Claim_def split: option.split)

lemma reg_allowed_Release [simp]: "reg_allowed (Release r c) = reg_allowed r"
  by (simp add: Release_def)

lemma Claim_granted_allowed: "Claim r t c = (None, r') \<Longrightarrow> t \<in> reg_allowed r \<and> reg_owners r' t = Some c"
  by (auto simp: Claim_def split: if_splits option.splits)

end
