(* ===== verification/Client_Manager.thy ===== *)
theory Client_Manager
  imports Go_Time "HOL-Library.Finite_Map"
begin

section \<open>Clients and the client manager (broker/connection)\<close>

text \<open>
  \<open>connection/client\<close> and \<open>connection/client_manager\<close>. A client refers to its TCP connection by
  identity, so the \<open>Conn\<close> field is a connection number; what the methods do to connections
  (close, set a deadline, write) they return, and the server applies it. The manager's methods
  hold its mutex from start to end and are atomic functions; its Go map is a finite map, whose
  size the limit is checked against.
\<close>

type_synonym conn_id = nat

record client =
  cl_ID :: string
  cl_Conn :: conn_id
  cl_KeepAlive :: "16 word"
  cl_CreatedAt :: gotime
  cl_LastSeen :: gotime

datatype client_error = ErrMaxClientsReached | ErrClientAlreadyExists | ErrConnectionTimeout

definition NewClient :: "gotime \<Rightarrow> string \<Rightarrow> conn_id \<Rightarrow> 16 word \<Rightarrow> client" where
  "NewClient now cid conn keepAlive =
     \<lparr>cl_ID = cid, cl_Conn = conn, cl_KeepAlive = keepAlive, cl_CreatedAt = now, cl_LastSeen = now\<rparr>"

text \<open>
  \<open>time.Duration(float64(c.KeepAlive)*1.5) * time.Second\<close>: the product is exact in a
  \<open>float64\<close> (it is below \<open>2 ^ 17\<close> with one fractional bit) and the conversion drops the
  fraction. The result is the new deadline, \<open>None\<close> when \<open>SetDeadline\<close> is not called.
\<close>

definition keep_alive_timeout :: "16 word \<Rightarrow> duration" where
  "keep_alive_timeout keepAlive = (3 * uint keepAlive) div 2 * second"

definition ResetDeadline :: "gotime \<Rightarrow> client \<Rightarrow> client \<times> gotime option" where
  "ResetDeadline now c =
     (c\<lparr>cl_LastSeen := now\<rparr>,
      if cl_KeepAlive c > 0 then Some (time_add now (keep_alive_timeout (cl_KeepAlive c))) else None)"

record ClientManager =
  cm_clients :: "(string, client) fmap"
  cm_maxClients :: int

definition NewClientManager :: "int \<Rightarrow> ClientManager" where
  "NewClientManager maxClients = \<lparr>cm_clients = fmempty, cm_maxClients = maxClients\<rparr>"

definition Count :: "ClientManager \<Rightarrow> int" where
  "Count cm = int (fcard (fmdom (cm_clients cm)))"

definition CanAccept :: "ClientManager \<Rightarrow> bool" where
  "CanAccept cm \<longleftrightarrow> Count cm < cm_maxClients cm"

text \<open>\<open>Add\<close> returns the error or the connections it closed, and the manager.\<close>

definition Add :: "ClientManager \<Rightarrow> client \<Rightarrow> (client_error + conn_id list) \<times> ClientManager" where
  "Add cm c =
     (if Count cm \<ge> cm_maxClients cm \<and> fmlookup (cm_clients cm) (cl_ID c) = None
      then (Inl ErrMaxClientsReached, cm)
      else (Inr (case fmlookup (cm_clients cm) (cl_ID c) of
                   Some existing \<Rightarrow> [cl_Conn existing] | None \<Rightarrow> []),
            cm\<lparr>cm_clients := fmupd (cl_ID c) c (cm_clients cm)\<rparr>))"

definition Remove :: "ClientManager \<Rightarrow> string \<Rightarrow> ClientManager" where
  "Remove cm clientID = cm\<lparr>cm_clients := fmdrop clientID (cm_clients cm)\<rparr>"

definition Get :: "ClientManager \<Rightarrow> string \<Rightarrow> client option" where
  "Get cm clientID = fmlookup (cm_clients cm) clientID"

text \<open>\<open>CloseAll\<close> closes and deletes every client; the set of connections it closes.\<close>

definition CloseAll :: "ClientManager \<Rightarrow> conn_id set \<times> ClientManager" where
  "CloseAll cm = (cl_Conn ` fmran' (cm_clients cm), cm\<lparr>cm_clients := fmempty\<rparr>)"

subsection \<open>The manager's invariant\<close>

definition manager_inv :: "ClientManager \<Rightarrow> bool" where
  "manager_inv cm \<longleftrightarrow>
     Count cm \<le> cm_maxClients cm \<and> (\<forall>cid c. Get cm cid = Some c \<longrightarrow> cl_ID c = cid)"

lemma Count_nonneg [simp]: "0 \<le> Count cm"
  by (simp add: Count_def)

lemma Count_New [simp]: "Count (NewClientManager n) = 0"
  by (simp add: Count_def NewClientManager_def)

lemma maxClients_Add [simp]: "cm_maxClients (snd (Add cm c)) = cm_maxClients cm"
  by (simp add: Add_def)

lemma maxClients_Remove [simp]: "cm_maxClients (Remove cm cid) = cm_maxClients cm"
  by (simp add: Remove_def)

lemma Count_Add:
  "Add cm c = (Inr closed, cm') \<Longrightarrow>
   Count cm' = (if Get cm (cl_ID c) = None then Count cm + 1 else Count cm)"
  by (auto simp: Add_def Count_def Get_def fcard_finsert_if fmlookup_dom_iff split: if_splits)

lemma Count_Remove:
  "Count (Remove cm cid) = (if Get cm cid = None then Count cm else Count cm - 1)"
proof (cases "cid |\<in>| fmdom (cm_clients cm)")
  case True
  then have "fcard (fmdom (cm_clients cm)) \<ge> 1"
    by (metis Suc_le_eq One_nat_def bot_nat_0.not_eq_extremum fcard_seteq fempty_iff fempty_fsubsetI fcard_fempty order_refl)
  with True show ?thesis
    by (auto simp: Count_def Remove_def Get_def fmlookup_dom_iff fcard_fminus_fsingleton)
next
  case False
  then show ?thesis by (simp add: Count_def Remove_def Get_def fmdom_notD)
qed

lemma Get_New [simp]: "Get (NewClientManager n) cid = None"
  by (simp add: Get_def NewClientManager_def)

lemma Get_Add:
  "Add cm c = (Inr closed, cm') \<Longrightarrow> Get cm' cid = (if cid = cl_ID c then Some c else Get cm cid)"
  by (auto simp: Add_def Get_def split: if_splits)

lemma Get_Remove [simp]: "Get (Remove cm cid) cid' = (if cid' = cid then None else Get cm cid')"
  by (simp add: Get_def Remove_def)

lemma Add_Inl_iff:
  "Add cm c = (Inl e, cm') \<longleftrightarrow>
     e = ErrMaxClientsReached \<and> cm' = cm \<and> Count cm \<ge> cm_maxClients cm \<and> Get cm (cl_ID c) = None"
  by (auto simp: Add_def Get_def)

lemma New_inv [inv_intros]: "0 \<le> n \<Longrightarrow> manager_inv (NewClientManager n)"
  by (simp add: manager_inv_def) (simp add: NewClientManager_def)

lemma Add_inv [inv_intros]: "manager_inv cm \<Longrightarrow> manager_inv (snd (Add cm c))"
proof (cases "Add cm c")
  case (Pair res cm')
  assume inv: "manager_inv cm"
  show ?thesis
  proof (cases res)
    case (Inl e)
    with Pair have "cm' = cm" by (simp add: Add_Inl_iff)
    with Pair inv show ?thesis by simp
  next
    case (Inr closed)
    with Pair have add: "Add cm c = (Inr closed, cm')" by simp
    have lim: "Get cm (cl_ID c) = None \<Longrightarrow> Count cm < cm_maxClients cm"
      using add by (auto simp: Add_def Get_def split: if_splits)
    have "cm_maxClients cm' = cm_maxClients cm" using add maxClients_Add [of cm c] by simp
    with inv add lim show ?thesis
      by (auto simp: manager_inv_def Count_Add [OF add] Get_Add [OF add])
  qed
qed

lemma Remove_inv [inv_intros]: "manager_inv cm \<Longrightarrow> manager_inv (Remove cm cid)"
  by (auto simp: manager_inv_def Count_Remove)

subsection \<open>The directory contract\<close>

text \<open>
  What the server relies on: a bounded directory of clients by ID. An insertion is granted if and
  only if there is room or the ID is registered already, and then replaces the entry.
\<close>

datatype 'c directory_op = OpAdd 'c | OpRemove string

fun directory_run :: "('m \<Rightarrow> 'c \<Rightarrow> ('e + 'x) \<times> 'm) \<Rightarrow> ('m \<Rightarrow> string \<Rightarrow> 'm) \<Rightarrow> 'm \<Rightarrow> 'c directory_op list \<Rightarrow> 'm" where
  "directory_run ins del m [] = m"
| "directory_run ins del m (OpAdd c # ops) = directory_run ins del (snd (ins m c)) ops"
| "directory_run ins del m (OpRemove k # ops) = directory_run ins del (del m k) ops"

locale client_directory =
  fixes lookup :: "'m \<Rightarrow> string \<Rightarrow> 'c option"
    and size_of :: "'m \<Rightarrow> int"
    and limit :: "'m \<Rightarrow> int"
    and key :: "'c \<Rightarrow> string"
    and ins :: "'m \<Rightarrow> 'c \<Rightarrow> ('e + 'x) \<times> 'm"
    and del :: "'m \<Rightarrow> string \<Rightarrow> 'm"
  assumes ins_granted: "(\<exists>x. fst (ins m c) = Inr x) \<longleftrightarrow> size_of m < limit m \<or> lookup m (key c) \<noteq> None"
    and ins_refused: "fst (ins m c) = Inl e \<Longrightarrow> snd (ins m c) = m"
    and lookup_ins: "fst (ins m c) = Inr x \<Longrightarrow> lookup (snd (ins m c)) = (lookup m)(key c \<mapsto> c)"
    and size_ins: "fst (ins m c) = Inr x \<Longrightarrow>
      size_of (snd (ins m c)) = (if lookup m (key c) = None then size_of m + 1 else size_of m)"
    and limit_ins: "limit (snd (ins m c)) = limit m"
    and lookup_del: "lookup (del m k) = (lookup m)(k := None)"
    and size_del: "size_of (del m k) = (if lookup m k = None then size_of m else size_of m - 1)"
    and limit_del: "limit (del m k) = limit m"
begin

lemma ins_bounded: "size_of m \<le> limit m \<Longrightarrow> size_of (snd (ins m c)) \<le> limit m"
proof (cases "fst (ins m c)")
  case (Inl e)
  assume "size_of m \<le> limit m"
  with ins_refused [OF Inl] show ?thesis by simp
next
  case (Inr x)
  assume "size_of m \<le> limit m"
  moreover have "size_of m < limit m \<or> lookup m (key c) \<noteq> None" using Inr ins_granted [of m c] by blast
  ultimately show ?thesis using size_ins [OF Inr] by auto
qed

text \<open>Whatever the sequence of calls, the limit holds.\<close>

lemma run_bounded: "size_of m \<le> limit m \<Longrightarrow> size_of (directory_run ins del m ops) \<le> limit m"
proof (induction ops arbitrary: m)
  case (Cons op ops)
  have "size_of (del m k) \<le> limit m" for k using Cons.prems by (simp add: size_del)
  with Cons ins_bounded [of m] show ?case
    by (cases op) (metis directory_run.simps(2) limit_ins, metis directory_run.simps(3) limit_del)
qed simp

text \<open>A registered client stays until its ID is removed or added again.\<close>

lemma run_keeps:
  "lookup m k = Some c \<Longrightarrow> OpRemove k \<notin> set ops \<Longrightarrow> \<forall>d. OpAdd d \<in> set ops \<longrightarrow> key d \<noteq> k \<Longrightarrow>
   lookup (directory_run ins del m ops) k = Some c"
proof (induction ops arbitrary: m)
  case (Cons op ops)
  show ?case
  proof (cases op)
    case (OpAdd d)
    have "lookup (snd (ins m d)) k = Some c"
      using Cons.prems OpAdd lookup_ins [of m d] ins_refused [of m d] by (cases "fst (ins m d)") auto
    with Cons OpAdd show ?thesis by simp
  next
    case (OpRemove j)
    with Cons show ?thesis by (simp add: lookup_del)
  qed
qed simp

end

lemma Add_granted: "(\<exists>x. fst (Add cm c) = Inr x) \<longleftrightarrow> Count cm < cm_maxClients cm \<or> Get cm (cl_ID c) \<noteq> None"
  by (auto simp: Add_def Get_def)

interpretation clients: client_directory Get Count cm_maxClients cl_ID Add Remove
proof unfold_locales
  show "Get (snd (Add m c)) = (Get m)(cl_ID c \<mapsto> c)" if "fst (Add m c) = Inr x" for m c x
    using that Get_Add [of m c x "snd (Add m c)"] by (cases "Add m c") (auto simp: fun_eq_iff)
  show "Count (snd (Add m c)) = (if Get m (cl_ID c) = None then Count m + 1 else Count m)" if "fst (Add m c) = Inr x" for m c x
    using that Count_Add [of m c x "snd (Add m c)"] by (cases "Add m c") auto
  show "snd (Add m c) = m" if "fst (Add m c) = Inl e" for m c e
    using that by (auto simp: Add_def split: if_splits)
qed (auto simp: Add_granted Count_Remove fun_eq_iff)

end
