(* ===== verification/Auth.thy ===== *)
theory Auth
  imports Prelude
begin

section \<open>Authentication (modules/auth)\<close>

text \<open>\<open>auth/env_authenticator.go\<close>: credentials are compared with the configured ones.\<close>

record EnvAuthenticator =
  auth_username :: string
  auth_password :: string

definition NewEnvAuthenticator :: "string \<Rightarrow> string \<Rightarrow> EnvAuthenticator" where
  "NewEnvAuthenticator username password = \<lparr>auth_username = username, auth_password = password\<rparr>"

definition Authenticate :: "EnvAuthenticator \<Rightarrow> string \<Rightarrow> string \<Rightarrow> bool" where
  "Authenticate a username password =
     (if username = [] \<or> password = [] then False
      else username = auth_username a \<and> password = auth_password a)"

lemma Authenticate_iff:
  "Authenticate a u p \<longleftrightarrow> u \<noteq> [] \<and> p \<noteq> [] \<and> u = auth_username a \<and> p = auth_password a"
  by (auto simp: Authenticate_def)

end
