(* ===== verification/Server.thy ===== *)
theory Server
  imports Packet_Codec Topic_Registry Client_Manager Message Auth
begin

section \<open>The MQTT server (broker/connection/server)\<close>

text \<open>
  The handlers of \<open>connection/server\<close> as functions. What a handler does to its own TCP connection
  (bytes written, connections closed) is part of its result; \<open>time.Now()\<close> is an argument.
\<close>

unbundle bit_operations_syntax

subsection \<open>Configuration and connections (new_server.go)\<close>

definition connectTimeout :: duration where
  "connectTimeout = 5 * second"

record server_cfg =
  sc_auth :: EnvAuthenticator
  sc_timezone :: string

text \<open>
  A TCP connection: the bytes its peer still delivers, the bytes written to it, the deadline set
  with \<open>SetDeadline\<close>, and whether it was closed. After \<open>Close\<close> or past the deadline reads and
  writes fail; the errors of writes are ignored by the code.
\<close>

record conn =
  cn_input :: bytes
  cn_output :: bytes
  cn_deadline :: "gotime option"
  cn_closed :: bool

definition conn_live :: "gotime \<Rightarrow> conn \<Rightarrow> bool" where
  "conn_live now c \<longleftrightarrow> \<not> cn_closed c \<and> (case cn_deadline c of None \<Rightarrow> True | Some d \<Rightarrow> Before now d)"

definition conn_write :: "gotime \<Rightarrow> bytes \<Rightarrow> conn \<Rightarrow> conn" where
  "conn_write now data c = (if conn_live now c then c\<lparr>cn_output := cn_output c @ data\<rparr> else c)"

definition conn_close :: "conn \<Rightarrow> conn" where
  "conn_close c = c\<lparr>cn_closed := True\<rparr>"

definition conn_read :: "gotime \<Rightarrow> conn \<Rightarrow> (FixedHeader \<times> bytes \<times> conn) option" where
  "conn_read now c =
     (if conn_live now c then
        (case ReadPacket (cn_input c) of
           Inl err \<Rightarrow> None
         | Inr (header, data, rest) \<Rightarrow> Some (header, data, c\<lparr>cn_input := rest\<rparr>))
      else None)"

subsection \<open>PUBLISH (handle_publish.go)\<close>

text \<open>
  Up to the channel send: a packet that does not decode is dropped, one whose topic is not granted
  is answered with PUBACK at QoS 1 and dropped, any other is a message to send, with the bytes to
  write once it is sent.
\<close>

datatype publish_outcome = PubDone bytes | PubSend message bytes

definition puback_if_qos1 :: "PublishPacket \<Rightarrow> bytes" where
  "puback_if_qos1 pkt = (if pp_QoS pkt = 1 then EncodePuback (pp_PacketID pkt) else [])"

definition handlePublish ::
  "gotime \<Rightarrow> string \<Rightarrow> TopicRegistry \<Rightarrow> client \<Rightarrow> FixedHeader \<Rightarrow> bytes \<Rightarrow> publish_outcome \<times> TopicRegistry"
where
  "handlePublish now timezone topics cl header data =
     (case DecodePublish header data of
        Inl err \<Rightarrow> (PubDone [], topics)
      | Inr pkt \<Rightarrow>
        (case Claim topics (pp_TopicName pkt) (cl_ID cl) of
           (Some err, topics) \<Rightarrow> (PubDone (puback_if_qos1 pkt), topics)
         | (None, topics) \<Rightarrow>
             (PubSend \<lparr>msg_ClientID = cl_ID cl, msg_Topic = pp_TopicName pkt,
                       msg_Payload = pp_Payload pkt, msg_Timezone = timezone,
                       msg_Timestamp = now\<rparr> (puback_if_qos1 pkt), topics)))"

subsection \<open>SUBSCRIBE (handle_subscribe.go)\<close>

definition handleSubscribe :: "TopicRegistry \<Rightarrow> bytes \<Rightarrow> bytes" where
  "handleSubscribe topics data =
     (case DecodeSubscribe data of
        Inl err \<Rightarrow> []
      | Inr pkt \<Rightarrow>
          EncodeSuback (sp_PacketID pkt)
            (map (\<lambda>sub. if IsAllowed topics (sub_TopicFilter sub) then sub_QoS sub else 0x80)
               (sp_Subscriptions pkt)))"

subsection \<open>One round of the read loop (read_loop.go)\<close>

datatype loop_outcome = LoopContinue bytes | LoopSend message bytes | LoopExit

definition dispatch ::
  "gotime \<Rightarrow> string \<Rightarrow> TopicRegistry \<Rightarrow> client \<Rightarrow> FixedHeader \<Rightarrow> bytes \<Rightarrow> loop_outcome \<times> TopicRegistry"
where
  "dispatch now timezone topics cl header data =
     (case fh_PacketType header of
        PUBLISH \<Rightarrow>
          (case handlePublish now timezone topics cl header data of
             (PubDone out, topics) \<Rightarrow> (LoopContinue out, topics)
           | (PubSend msg out, topics) \<Rightarrow> (LoopSend msg out, topics))
      | SUBSCRIBE \<Rightarrow> (LoopContinue (handleSubscribe topics data), topics)
      | PINGREQ \<Rightarrow> (LoopContinue EncodePingresp, topics)
      | DISCONNECT \<Rightarrow> (LoopExit, topics)
      | _ \<Rightarrow> (LoopContinue [], topics))"

subsection \<open>The CONNECT phase (handle_connection.go)\<close>

text \<open>
  The first packet must be a CONNECT that decodes, authenticates and finds a slot. The result says
  what is written, and for a registered client which other connections were closed.
\<close>

datatype connect_outcome = ConnectDrop bytes | ConnectOk client "conn_id list" bytes

definition handleConnect ::
  "gotime \<Rightarrow> EnvAuthenticator \<Rightarrow> ClientManager \<Rightarrow> conn_id \<Rightarrow> FixedHeader \<Rightarrow> bytes \<Rightarrow>
   connect_outcome \<times> ClientManager"
where
  "handleConnect now auth connMgr i header data =
     (if fh_PacketType header \<noteq> CONNECT then (ConnectDrop [], connMgr)
      else (case DecodeConnect data of
        Inl err \<Rightarrow> (ConnectDrop [], connMgr)
      | Inr pkt \<Rightarrow>
        if \<not> HasUsername pkt \<or> \<not> Authenticate auth (cp_Username pkt) (string_of_bytes (cp_Password pkt))
        then (ConnectDrop (EncodeConnack False ConnRefusedBadAuth), connMgr)
        else let cl = NewClient now (cp_ClientID pkt) i (cp_KeepAlive pkt)
             in (case Add connMgr cl of
                   (Inl err, connMgr) \<Rightarrow> (ConnectDrop (EncodeConnack False ConnRefusedUnavailable), connMgr)
                 | (Inr closed, connMgr) \<Rightarrow> (ConnectOk cl closed (EncodeConnack False ConnAccepted), connMgr))))"

end
