(* ===== verification/Server_Steps.thy ===== *)
theory Server_Steps
  imports Server
begin

section \<open>Concurrent connections (broker/connection/server)\<close>

text \<open>
  Every accepted connection runs \<open>handleConnection\<close> in a goroutine of its own. The goroutines
  share the topic registry, the client manager and the message channel, each behind a lock or a
  channel, so between two accesses to shared state a goroutine can be delayed arbitrarily. The
  step relation has one rule per access: a step runs a goroutine from one access to the next. A
  session records where its goroutine stands:
  \<^item> \<open>AwaitConnect\<close>: before the CONNECT packet is read;
  \<^item> \<open>InLoop\<close>: at the head of the read loop, the deadline reset;
  \<^item> \<open>Sending\<close>: blocked in the \<open>select\<close> of \<open>handlePublish\<close>;
  \<^item> \<open>Releasing\<close>, \<open>Removing\<close>: in the deferred calls, which run last in first out;
  \<^item> \<open>Finished\<close>: returned, the connection closed.
  \<open>ss_packet\<close>, \<open>ss_accepted\<close> and \<open>sv_log\<close> are history: the CONNECT packet of the session, the
  time it was accepted and all messages ever sent on the channel. The client manager holds
  pointers to clients; the code never reads the one field that changes through them
  (\<open>LastSeen\<close>), so the manager keeps copies.
\<close>

datatype phase =
    AwaitConnect | InLoop client | Sending client message bytes
  | Releasing client | Removing client | Finished

fun phase_client :: "phase \<Rightarrow> client option" where
  "phase_client (InLoop cl) = Some cl"
| "phase_client (Sending cl msg out) = Some cl"
| "phase_client (Releasing cl) = Some cl"
| "phase_client (Removing cl) = Some cl"
| "phase_client _ = None"

record session =
  ss_conn :: conn
  ss_phase :: phase
  ss_packet :: "ConnectPacket option"
  ss_accepted :: gotime

record server =
  sv_topics :: TopicRegistry
  sv_connMgr :: ClientManager
  sv_sessions :: "conn_id \<rightharpoonup> session"
  sv_msgChan :: "message chan"
  sv_ctxDone :: bool
  sv_listening :: bool
  sv_now :: gotime
  sv_log :: "message list"

definition NewServer :: "TopicRegistry \<Rightarrow> ClientManager \<Rightarrow> message chan \<Rightarrow> gotime \<Rightarrow> server" where
  "NewServer topics connMgr msgChan now =
     \<lparr>sv_topics = topics, sv_connMgr = connMgr, sv_sessions = Map.empty, sv_msgChan = msgChan,
      sv_ctxDone = False, sv_listening = True, sv_now = now, sv_log = []\<rparr>"

abbreviation set_session :: "server \<Rightarrow> conn_id \<Rightarrow> session \<Rightarrow> server" where
  "set_session s i ss \<equiv> s\<lparr>sv_sessions := (sv_sessions s)(i \<mapsto> ss)\<rparr>"

subsection \<open>The steps of a goroutine\<close>

text \<open>\<open>ListenAndServe\<close>: the listener is open until \<open>Close\<close>, which the shutdown calls and a goroutine
  calls after the cancellation. A new connection is closed at once when the manager is full, else it gets
  its goroutine, which sets the deadline for the CONNECT packet.\<close>

definition accept_conn :: "server \<Rightarrow> conn_id \<Rightarrow> bytes \<Rightarrow> server" where
  "accept_conn s i input =
     (let fresh = \<lparr>cn_input = input, cn_output = [], cn_deadline = None, cn_closed = False\<rparr>
      in if \<not> CanAccept (sv_connMgr s) then
           set_session s i \<lparr>ss_conn = conn_close fresh, ss_phase = Finished, ss_packet = None,
                            ss_accepted = sv_now s\<rparr>
         else
           set_session s i
             \<lparr>ss_conn = fresh\<lparr>cn_deadline := Some (time_add (sv_now s) connectTimeout)\<rparr>,
              ss_phase = AwaitConnect, ss_packet = None, ss_accepted = sv_now s\<rparr>)"

definition enter_loop :: "gotime \<Rightarrow> client \<Rightarrow> conn \<Rightarrow> session \<Rightarrow> session" where
  "enter_loop now cl c ss =
     (case ResetDeadline now cl of
        (cl, None) \<Rightarrow> ss\<lparr>ss_conn := c, ss_phase := InLoop cl\<rparr>
      | (cl, Some d) \<Rightarrow> ss\<lparr>ss_conn := c\<lparr>cn_deadline := Some d\<rparr>, ss_phase := InLoop cl\<rparr>)"

definition close_conns :: "conn_id list \<Rightarrow> (conn_id \<rightharpoonup> session) \<Rightarrow> (conn_id \<rightharpoonup> session)" where
  "close_conns closed sessions =
     (\<lambda>j. if j \<in> set closed then map_option (\<lambda>ss. ss\<lparr>ss_conn := conn_close (ss_conn ss)\<rparr>) (sessions j)
          else sessions j)"

text \<open>\<open>handleConnection\<close> up to the read loop.\<close>

definition do_connect :: "server_cfg \<Rightarrow> server \<Rightarrow> conn_id \<Rightarrow> session \<Rightarrow> server" where
  "do_connect cfg s i ss =
     (case conn_read (sv_now s) (ss_conn ss) of
        None \<Rightarrow> set_session s i (ss\<lparr>ss_conn := conn_close (ss_conn ss), ss_phase := Finished\<rparr>)
      | Some (header, data, c) \<Rightarrow>
        (case handleConnect (sv_now s) (sc_auth cfg) (sv_connMgr s) i header data of
           (ConnectDrop out, connMgr) \<Rightarrow>
             set_session (s\<lparr>sv_connMgr := connMgr\<rparr>) i
               (ss\<lparr>ss_conn := conn_close (conn_write (sv_now s) out c), ss_phase := Finished\<rparr>)
         | (ConnectOk cl closed out, connMgr) \<Rightarrow>
             set_session
               (s\<lparr>sv_connMgr := connMgr, sv_sessions := close_conns closed (sv_sessions s)\<rparr>) i
               (enter_loop (sv_now s) cl (conn_write (sv_now s) out c)
                  (ss\<lparr>ss_packet := (case DecodeConnect data of Inl _ \<Rightarrow> None | Inr pkt \<Rightarrow> Some pkt)\<rparr>))))"

text \<open>One round of \<open>readLoop\<close>, up to the channel send if there is one.\<close>

definition do_read :: "server_cfg \<Rightarrow> server \<Rightarrow> conn_id \<Rightarrow> session \<Rightarrow> client \<Rightarrow> server" where
  "do_read cfg s i ss cl =
     (case conn_read (sv_now s) (ss_conn ss) of
        None \<Rightarrow> set_session s i (ss\<lparr>ss_phase := Releasing cl\<rparr>)
      | Some (header, data, c) \<Rightarrow>
        (case dispatch (sv_now s) (sc_timezone cfg) (sv_topics s) cl header data of
           (LoopContinue out, topics) \<Rightarrow>
             set_session (s\<lparr>sv_topics := topics\<rparr>) i
               (enter_loop (sv_now s) cl (conn_write (sv_now s) out c) ss)
         | (LoopSend msg out, topics) \<Rightarrow>
             set_session (s\<lparr>sv_topics := topics\<rparr>) i (ss\<lparr>ss_conn := c, ss_phase := Sending cl msg out\<rparr>)
         | (LoopExit, topics) \<Rightarrow>
             set_session (s\<lparr>sv_topics := topics\<rparr>) i (ss\<lparr>ss_conn := c, ss_phase := Releasing cl\<rparr>)))"

text \<open>After the send: the acknowledgement, and back to the head of the loop.\<close>

definition after_send :: "server \<Rightarrow> conn_id \<Rightarrow> session \<Rightarrow> client \<Rightarrow> bytes \<Rightarrow> server" where
  "after_send s i ss cl out =
     set_session s i (enter_loop (sv_now s) cl (conn_write (sv_now s) out (ss_conn ss)) ss)"

definition do_release :: "server \<Rightarrow> conn_id \<Rightarrow> session \<Rightarrow> client \<Rightarrow> server" where
  "do_release s i ss cl =
     set_session (s\<lparr>sv_topics := Release (sv_topics s) (cl_ID cl)\<rparr>) i (ss\<lparr>ss_phase := Removing cl\<rparr>)"

definition do_remove :: "server \<Rightarrow> conn_id \<Rightarrow> session \<Rightarrow> client \<Rightarrow> server" where
  "do_remove s i ss cl =
     set_session (s\<lparr>sv_connMgr := Remove (sv_connMgr s) (cl_ID cl)\<rparr>) i
       (ss\<lparr>ss_conn := conn_close (ss_conn ss), ss_phase := Finished\<rparr>)"

text \<open>\<open>ClientManager.CloseAll\<close>, called by the shutdown.\<close>

definition do_close_all :: "server \<Rightarrow> server" where
  "do_close_all s =
     (case CloseAll (sv_connMgr s) of (closed, connMgr) \<Rightarrow>
        s\<lparr>sv_connMgr := connMgr,
          sv_sessions := (\<lambda>j. if j \<in> closed
             then map_option (\<lambda>ss. ss\<lparr>ss_conn := conn_close (ss_conn ss)\<rparr>) (sv_sessions s j)
             else sv_sessions s j)\<rparr>)"

subsection \<open>The step relation\<close>

datatype label =
    LAccept conn_id | LConnect conn_id | LRead conn_id | LSend conn_id | LHandoff conn_id
  | LCancelled conn_id | LRelease conn_id | LRemove conn_id | LReceive | LClock | LCancel | LCloseListener
  | LCloseAll

inductive server_step :: "server_cfg \<Rightarrow> server \<Rightarrow> label \<Rightarrow> server \<Rightarrow> bool" for cfg where
  accept: "sv_sessions s i = None \<Longrightarrow> sv_listening s \<Longrightarrow>
     server_step cfg s (LAccept i) (accept_conn s i input)"
| connect: "sv_sessions s i = Some ss \<Longrightarrow> ss_phase ss = AwaitConnect \<Longrightarrow>
     server_step cfg s (LConnect i) (do_connect cfg s i ss)"
| read: "sv_sessions s i = Some ss \<Longrightarrow> ss_phase ss = InLoop cl \<Longrightarrow>
     server_step cfg s (LRead i) (do_read cfg s i ss cl)"
| send: "sv_sessions s i = Some ss \<Longrightarrow> ss_phase ss = Sending cl msg out \<Longrightarrow>
     chan_send (sv_msgChan s) msg = Some ch \<Longrightarrow>
     server_step cfg s (LSend i) (after_send (s\<lparr>sv_msgChan := ch, sv_log := sv_log s @ [msg]\<rparr>) i ss cl out)"
| handoff: "sv_sessions s i = Some ss \<Longrightarrow> ss_phase ss = Sending cl msg out \<Longrightarrow>
     ch_buf (sv_msgChan s) = [] \<Longrightarrow>
     server_step cfg s (LHandoff i) (after_send (s\<lparr>sv_log := sv_log s @ [msg]\<rparr>) i ss cl out)"
| cancelled: "sv_sessions s i = Some ss \<Longrightarrow> ss_phase ss = Sending cl msg out \<Longrightarrow> sv_ctxDone s \<Longrightarrow>
     server_step cfg s (LCancelled i) (after_send s i ss cl [])"
| release: "sv_sessions s i = Some ss \<Longrightarrow> ss_phase ss = Releasing cl \<Longrightarrow>
     server_step cfg s (LRelease i) (do_release s i ss cl)"
| remove: "sv_sessions s i = Some ss \<Longrightarrow> ss_phase ss = Removing cl \<Longrightarrow>
     server_step cfg s (LRemove i) (do_remove s i ss cl)"
| receive: "chan_recv (sv_msgChan s) = Some (msg, ch) \<Longrightarrow>
     server_step cfg s LReceive (s\<lparr>sv_msgChan := ch\<rparr>)"
| clock: "\<not> Before now (sv_now s) \<Longrightarrow> server_step cfg s LClock (s\<lparr>sv_now := now\<rparr>)"
| cancel: "server_step cfg s LCancel (s\<lparr>sv_ctxDone := True\<rparr>)"
| close_listener: "server_step cfg s LCloseListener (s\<lparr>sv_listening := False\<rparr>)"
| close_all: "server_step cfg s LCloseAll (do_close_all s)"

inductive_cases server_step_readE: "server_step cfg s (LRead i) t"
inductive_cases server_step_connectE: "server_step cfg s (LConnect i) t"

definition server_init :: "string list \<Rightarrow> int \<Rightarrow> nat \<Rightarrow> server \<Rightarrow> bool" where
  "server_init topics maxClients bufSize s \<longleftrightarrow>
     0 \<le> maxClients \<and>
     (\<exists>r now. NewTopicRegistry topics = Inr r \<and>
        s = NewServer r (NewClientManager maxClients) (make_chan bufSize) now)"

abbreviation any_step :: "server_cfg \<Rightarrow> server \<Rightarrow> server \<Rightarrow> bool" where
  "any_step cfg s t \<equiv> \<exists>l. server_step cfg s l t"

lemmas server_defs =
  accept_conn_def do_connect_def do_read_def after_send_def do_release_def do_remove_def
  do_close_all_def enter_loop_def

subsection \<open>A scheduler\<close>

text \<open>It runs a sequence of labels, with the input of each accepted connection, as long as
  every step is possible. What it reaches is reachable by steps.\<close>

fun exec_step :: "server_cfg \<Rightarrow> server \<Rightarrow> label \<Rightarrow> bytes \<Rightarrow> server option" where
  "exec_step cfg s (LAccept i) input =
     (if sv_sessions s i = None \<and> sv_listening s then Some (accept_conn s i input) else None)"
| "exec_step cfg s (LConnect i) input =
     (case sv_sessions s i of
        Some ss \<Rightarrow> if ss_phase ss = AwaitConnect then Some (do_connect cfg s i ss) else None
      | None \<Rightarrow> None)"
| "exec_step cfg s (LRead i) input =
     (case sv_sessions s i of
        Some ss \<Rightarrow> (case ss_phase ss of InLoop cl \<Rightarrow> Some (do_read cfg s i ss cl) | _ \<Rightarrow> None)
      | None \<Rightarrow> None)"
| "exec_step cfg s (LSend i) input =
     (case sv_sessions s i of
        Some ss \<Rightarrow> (case ss_phase ss of
            Sending cl msg out \<Rightarrow>
              map_option (\<lambda>ch. after_send (s\<lparr>sv_msgChan := ch, sv_log := sv_log s @ [msg]\<rparr>) i ss cl out)
                (chan_send (sv_msgChan s) msg)
          | _ \<Rightarrow> None)
      | None \<Rightarrow> None)"
| "exec_step cfg s (LRelease i) input =
     (case sv_sessions s i of
        Some ss \<Rightarrow> (case ss_phase ss of Releasing cl \<Rightarrow> Some (do_release s i ss cl) | _ \<Rightarrow> None)
      | None \<Rightarrow> None)"
| "exec_step cfg s (LRemove i) input =
     (case sv_sessions s i of
        Some ss \<Rightarrow> (case ss_phase ss of Removing cl \<Rightarrow> Some (do_remove s i ss cl) | _ \<Rightarrow> None)
      | None \<Rightarrow> None)"
| "exec_step cfg s l input = None"

fun server_exec :: "server_cfg \<Rightarrow> server \<Rightarrow> (label \<times> bytes) list \<Rightarrow> server option" where
  "server_exec cfg s [] = Some s"
| "server_exec cfg s ((l, input) # ls) =
     (case exec_step cfg s l input of None \<Rightarrow> None | Some t \<Rightarrow> server_exec cfg t ls)"

lemma exec_step_sound: "exec_step cfg s l input = Some t \<Longrightarrow> server_step cfg s l t"
  by (cases l) (auto split: if_splits option.splits phase.splits intro: server_step.intros)

lemma server_exec_reachable:
  "server_exec cfg s ls = Some t \<Longrightarrow> reachable init (any_step cfg) s \<Longrightarrow> reachable init (any_step cfg) t"
  by (induction cfg s ls rule: server_exec.induct)
    (auto split: option.splits intro: reachable_step exec_step_sound)

subsection \<open>What the handlers guarantee\<close>

definition authenticated :: "server_cfg \<Rightarrow> ConnectPacket \<Rightarrow> bool" where
  "authenticated cfg pkt \<longleftrightarrow>
     HasUsername pkt \<and> Authenticate (sc_auth cfg) (cp_Username pkt) (string_of_bytes (cp_Password pkt))"

definition message_ok :: "server_cfg \<Rightarrow> string set \<Rightarrow> message \<Rightarrow> bool" where
  "message_ok cfg allowed msg \<longleftrightarrow> msg_Topic msg \<in> allowed \<and> msg_Timezone msg = sc_timezone cfg"

lemma dispatch_topics:
  assumes "dispatch now tz topics cl h d = (res, topics')"
  shows "topics' = topics \<or> (\<exists>t. topics' = snd (Claim topics t (cl_ID cl)))"
  using assms
  by (auto simp: dispatch_def handlePublish_def split: PacketType.splits sum.splits prod.splits
      option.splits publish_outcome.splits) (metis snd_conv)+

lemma dispatch_send:
  assumes "dispatch now (sc_timezone cfg) topics cl h d = (LoopSend msg out, topics')"
  shows "message_ok cfg (reg_allowed topics) msg \<and> msg_ClientID msg = cl_ID cl \<and>
    reg_owners topics' (msg_Topic msg) = Some (cl_ID cl)"
  using assms
  by (auto simp: dispatch_def handlePublish_def message_ok_def split: PacketType.splits sum.splits
      prod.splits option.splits publish_outcome.splits dest!: Claim_granted_allowed)

lemma dispatch_inv [inv_intros]:
  "dispatch now tz topics cl h d = (res, topics') \<Longrightarrow> registry_inv topics \<Longrightarrow> registry_inv topics'"
  by (drule dispatch_topics) (auto intro: inv_intros)

lemma dispatch_allowed:
  "dispatch now tz topics cl h d = (res, topics') \<Longrightarrow> reg_allowed topics' = reg_allowed topics"
  by (drule dispatch_topics) auto

lemma handleConnect_ok:
  assumes "handleConnect now (sc_auth cfg) m i h d = (ConnectOk cl closed out, m')"
  shows "\<exists>pkt. DecodeConnect d = Inr pkt \<and> authenticated cfg pkt \<and>
    cl = NewClient now (cp_ClientID pkt) i (cp_KeepAlive pkt) \<and> Add m cl = (Inr closed, m') \<and>
    out = EncodeConnack False ConnAccepted"
  using assms
  by (auto simp: handleConnect_def authenticated_def Let_def split: sum.splits if_splits prod.splits)

lemma handleConnect_drop:
  "handleConnect now auth m i h d = (ConnectDrop out, m') \<Longrightarrow> m' = m"
  by (auto simp: handleConnect_def Let_def Add_Inl_iff split: sum.splits if_splits prod.splits)

lemma handleConnect_inv [inv_intros]:
  fixes cfg :: server_cfg
  assumes "handleConnect now (sc_auth cfg) m i h d = (res, m')" and "manager_inv m"
  shows "manager_inv m'"
proof (cases res)
  case (ConnectDrop out)
  with assms show ?thesis by (auto dest: handleConnect_drop)
next
  case (ConnectOk cl closed out)
  with assms(1) have "handleConnect now (sc_auth cfg) m i h d = (ConnectOk cl closed out, m')" by simp
  then have "Add m cl = (Inr closed, m')" by (auto dest: handleConnect_ok)
  then have "m' = snd (Add m cl)" by simp
  with assms(2) show ?thesis by (auto intro: inv_intros)
qed

subsection \<open>The invariant of the server\<close>

definition client_ok :: "server_cfg \<Rightarrow> conn_id \<Rightarrow> session \<Rightarrow> client \<Rightarrow> bool" where
  "client_ok cfg i ss cl \<longleftrightarrow>
     cl_Conn cl = i \<and>
     (\<exists>pkt. ss_packet ss = Some pkt \<and> authenticated cfg pkt \<and>
        cl_ID cl = cp_ClientID pkt \<and> cl_KeepAlive cl = cp_KeepAlive pkt)"

definition connect_deadline :: "session \<Rightarrow> gotime" where
  "connect_deadline ss = time_add (ss_accepted ss) connectTimeout"

definition session_ok :: "server_cfg \<Rightarrow> string set \<Rightarrow> conn_id \<Rightarrow> session \<Rightarrow> bool" where
  "session_ok cfg allowed i ss \<longleftrightarrow>
     (\<forall>cl. phase_client (ss_phase ss) = Some cl \<longrightarrow>
        client_ok cfg i ss cl \<and>
        (cl_KeepAlive cl = 0 \<longrightarrow> cn_deadline (ss_conn ss) = Some (connect_deadline ss))) \<and>
     (ss_phase ss = AwaitConnect \<longrightarrow> cn_deadline (ss_conn ss) = Some (connect_deadline ss)) \<and>
     (\<forall>cl msg out. ss_phase ss = Sending cl msg out \<longrightarrow>
        message_ok cfg allowed msg \<and> msg_ClientID msg = cl_ID cl)"

definition server_inv :: "server_cfg \<Rightarrow> server \<Rightarrow> bool" where
  "server_inv cfg s \<longleftrightarrow>
     registry_inv (sv_topics s) \<and> manager_inv (sv_connMgr s) \<and> chan_ok (sv_msgChan s) \<and>
     (\<forall>m\<in>set (sv_log s). message_ok cfg (reg_allowed (sv_topics s)) m) \<and>
     (\<forall>i ss. sv_sessions s i = Some ss \<longrightarrow> session_ok cfg (reg_allowed (sv_topics s)) i ss)"

lemma conn_deadline [simp]:
  "cn_deadline (conn_write now out c) = cn_deadline c"
  "cn_deadline (conn_close c) = cn_deadline c"
  by (simp_all add: conn_write_def conn_close_def)

lemma conn_read_deadline:
  "conn_read now c = Some (h, d, c') \<Longrightarrow> cn_deadline c' = cn_deadline c \<and> cn_closed c' = cn_closed c"
  by (auto simp: conn_read_def split: if_splits sum.splits)

lemma ResetDeadline_fields:
  "ResetDeadline now cl = (cl', d) \<Longrightarrow>
     cl_ID cl' = cl_ID cl \<and> cl_Conn cl' = cl_Conn cl \<and> cl_KeepAlive cl' = cl_KeepAlive cl \<and>
     (d = None \<longleftrightarrow> cl_KeepAlive cl = 0)"
  by (auto simp: ResetDeadline_def word_gt_0 split: if_splits)

lemma enter_loop_phase:
  "\<exists>cl'. ss_phase (enter_loop now cl c ss) = InLoop cl' \<and> cl_ID cl' = cl_ID cl \<and>
     cl_Conn cl' = cl_Conn cl \<and> cl_KeepAlive cl' = cl_KeepAlive cl"
  by (auto simp: enter_loop_def split: prod.split option.split dest!: ResetDeadline_fields)

lemma enter_loop_ok:
  assumes "client_ok cfg i ss cl"
    and "cl_KeepAlive cl = 0 \<Longrightarrow> cn_deadline c = Some (connect_deadline ss)"
  shows "session_ok cfg allowed i (enter_loop now cl c ss)"
  using assms
  by (auto simp: enter_loop_def session_ok_def client_ok_def connect_deadline_def
      split: prod.split option.split dest!: ResetDeadline_fields)

lemma session_ok_close:
  "session_ok cfg allowed i ss \<Longrightarrow> session_ok cfg allowed i (ss\<lparr>ss_conn := conn_close (ss_conn ss)\<rparr>)"
  by (auto simp: session_ok_def client_ok_def connect_deadline_def)

lemma session_ok_Finished [simp]: "session_ok cfg allowed i (ss\<lparr>ss_conn := c, ss_phase := Finished\<rparr>)"
  by (simp add: session_ok_def)

text \<open>Changing one session, or closing the connections of some, keeps every session in order.\<close>

lemma server_inv_set_session:
  "server_inv cfg s \<Longrightarrow> session_ok cfg (reg_allowed (sv_topics s)) i ss \<Longrightarrow> server_inv cfg (set_session s i ss)"
  by (auto simp: server_inv_def)

lemma server_inv_close_conns:
  "server_inv cfg s \<Longrightarrow> server_inv cfg (s\<lparr>sv_sessions := close_conns closed (sv_sessions s)\<rparr>)"
  by (auto simp: server_inv_def close_conns_def session_ok_close)

lemma server_inv_connMgr:
  "server_inv cfg s \<Longrightarrow> manager_inv m \<Longrightarrow> server_inv cfg (s\<lparr>sv_connMgr := m\<rparr>)"
  by (simp add: server_inv_def)

lemma server_inv_topics:
  "server_inv cfg s \<Longrightarrow> registry_inv r \<Longrightarrow> reg_allowed r = reg_allowed (sv_topics s) \<Longrightarrow>
   server_inv cfg (s\<lparr>sv_topics := r\<rparr>)"
  by (simp add: server_inv_def)

lemmas server_inv_updates =
  server_inv_set_session server_inv_close_conns server_inv_connMgr server_inv_topics

subsection \<open>Every step keeps the invariant\<close>

lemma server_inv_session:
  "server_inv cfg s \<Longrightarrow> sv_sessions s i = Some ss \<Longrightarrow> session_ok cfg (reg_allowed (sv_topics s)) i ss"
  by (simp add: server_inv_def)

lemma server_inv_parts:
  assumes "server_inv cfg s"
  shows "registry_inv (sv_topics s)" "manager_inv (sv_connMgr s)" "chan_ok (sv_msgChan s)"
  using assms by (simp_all add: server_inv_def)

lemma session_ok_client:
  assumes "session_ok cfg allowed i ss" "phase_client (ss_phase ss) = Some cl"
  shows "client_ok cfg i ss cl"
    "cl_KeepAlive cl = 0 \<Longrightarrow> cn_deadline (ss_conn ss) = Some (connect_deadline ss)"
  using assms by (simp_all add: session_ok_def)

text \<open>A session whose client stays the same keeps its deadline facts when it moves on.\<close>

lemma session_ok_move:
  assumes "session_ok cfg allowed i ss" "phase_client (ss_phase ss) = Some cl"
    and "phase_client p = Some cl" "cn_deadline c = cn_deadline (ss_conn ss)"
    and "\<And>cl msg out. p = Sending cl msg out \<Longrightarrow> message_ok cfg allowed msg \<and> msg_ClientID msg = cl_ID cl"
  shows "session_ok cfg allowed i (ss\<lparr>ss_conn := c, ss_phase := p\<rparr>)"
  using assms by (auto simp: session_ok_def client_ok_def connect_deadline_def)

lemma session_ok_move_phase:
  assumes "session_ok cfg allowed i ss" "phase_client (ss_phase ss) = Some cl"
    and "phase_client p = Some cl" "\<And>cl msg out. p \<noteq> Sending cl msg out"
  shows "session_ok cfg allowed i (ss\<lparr>ss_phase := p\<rparr>)"
  using assms by (auto simp: session_ok_def client_ok_def connect_deadline_def)

lemma accept_conn_inv: "server_inv cfg s \<Longrightarrow> server_inv cfg (accept_conn s i input)"
  by (auto simp: accept_conn_def Let_def session_ok_def connect_deadline_def intro!: server_inv_set_session)

lemma do_connect_inv:
  assumes inv: "server_inv cfg s" and ss: "sv_sessions s i = Some ss" "ss_phase ss = AwaitConnect"
  shows "server_inv cfg (do_connect cfg s i ss)"
proof (cases "conn_read (sv_now s) (ss_conn ss)")
  case None
  with inv show ?thesis by (simp add: do_connect_def server_inv_set_session)
next
  case (Some r)
  obtain h d c where r: "r = (h, d, c)" by (cases r)
  have dl: "cn_deadline c = Some (connect_deadline ss)"
    using server_inv_session [OF inv ss(1)] ss(2) Some r
    by (auto simp: session_ok_def dest!: conn_read_deadline)
  obtain res m where hc: "handleConnect (sv_now s) (sc_auth cfg) (sv_connMgr s) i h d = (res, m)"
    by (cases "handleConnect (sv_now s) (sc_auth cfg) (sv_connMgr s) i h d")
  have m: "manager_inv m" by (rule handleConnect_inv [OF hc server_inv_parts(2) [OF inv]])
  show ?thesis
  proof (cases res)
    case (ConnectDrop out)
    show ?thesis unfolding do_connect_def Some r hc ConnectDrop option.case prod.case connect_outcome.case
      by (rule server_inv_set_session [OF server_inv_connMgr [OF inv m] session_ok_Finished])
  next
    case (ConnectOk cl closed out)
    note ok = handleConnect_ok [OF hc [unfolded ConnectOk]]
    then obtain pkt where pkt: "DecodeConnect d = Inr pkt" "authenticated cfg pkt"
      "cl = NewClient (sv_now s) (cp_ClientID pkt) i (cp_KeepAlive pkt)" by blast
    have "session_ok cfg (reg_allowed (sv_topics s)) i
        (enter_loop (sv_now s) cl (conn_write (sv_now s) out c) (ss\<lparr>ss_packet := Some pkt\<rparr>))"
      by (rule enter_loop_ok) (use pkt dl in \<open>simp_all add: client_ok_def NewClient_def connect_deadline_def\<close>)
    then show ?thesis
      unfolding do_connect_def Some r hc ConnectOk option.case prod.case connect_outcome.case pkt(1) sum.case
      using server_inv_close_conns [OF server_inv_connMgr [OF inv m]]
      by (intro server_inv_set_session) simp_all
  qed
qed

lemma do_read_inv:
  assumes inv: "server_inv cfg s" and ss: "sv_sessions s i = Some ss" "ss_phase ss = InLoop cl"
  shows "server_inv cfg (do_read cfg s i ss cl)"
proof (cases "conn_read (sv_now s) (ss_conn ss)")
  case None
  have "session_ok cfg (reg_allowed (sv_topics s)) i (ss\<lparr>ss_phase := Releasing cl\<rparr>)"
    by (rule session_ok_move_phase [OF server_inv_session [OF inv ss(1)], of cl]) (simp_all add: ss(2))
  with inv None show ?thesis by (simp add: do_read_def server_inv_set_session)
next
  case (Some r)
  obtain h d c where r: "r = (h, d, c)" by (cases r)
  note sok = server_inv_session [OF inv ss(1)]
  have pc: "phase_client (ss_phase ss) = Some cl" by (simp add: ss(2))
  have dl: "cn_deadline c = cn_deadline (ss_conn ss)" using Some r by (auto dest!: conn_read_deadline)
  obtain res topics where dp: "dispatch (sv_now s) (sc_timezone cfg) (sv_topics s) cl h d = (res, topics)"
    by (cases "dispatch (sv_now s) (sc_timezone cfg) (sv_topics s) cl h d")
  have inv': "server_inv cfg (s\<lparr>sv_topics := topics\<rparr>)"
    using server_inv_topics [OF inv dispatch_inv [OF dp server_inv_parts(1) [OF inv]]] dispatch_allowed [OF dp] .
  have al: "reg_allowed topics = reg_allowed (sv_topics s)" by (rule dispatch_allowed [OF dp])
  have "session_ok cfg (reg_allowed topics) i (case res of
      LoopContinue out \<Rightarrow> enter_loop (sv_now s) cl (conn_write (sv_now s) out c) ss
    | LoopSend msg out \<Rightarrow> ss\<lparr>ss_conn := c, ss_phase := Sending cl msg out\<rparr>
    | LoopExit \<Rightarrow> ss\<lparr>ss_conn := c, ss_phase := Releasing cl\<rparr>)"
  proof (cases res)
    case (LoopContinue out)
    then show ?thesis using session_ok_client [OF sok pc] by (simp add: dl enter_loop_ok)
  next
    case (LoopSend msg out)
    with dp have "message_ok cfg (reg_allowed topics) msg \<and> msg_ClientID msg = cl_ID cl"
      unfolding al by (auto dest!: dispatch_send)
    with sok pc dl LoopSend show ?thesis unfolding al
      by (simp, intro session_ok_move [of cfg _ i ss cl]) auto
  next
    case LoopExit
    with sok pc dl show ?thesis unfolding al
      by (simp, intro session_ok_move [of cfg _ i ss cl]) auto
  qed
  then have "server_inv cfg (set_session (s\<lparr>sv_topics := topics\<rparr>) i (case res of
      LoopContinue out \<Rightarrow> enter_loop (sv_now s) cl (conn_write (sv_now s) out c) ss
    | LoopSend msg out \<Rightarrow> ss\<lparr>ss_conn := c, ss_phase := Sending cl msg out\<rparr>
    | LoopExit \<Rightarrow> ss\<lparr>ss_conn := c, ss_phase := Releasing cl\<rparr>))"
    by (intro server_inv_set_session [OF inv']) simp
  with Some r dp show ?thesis by (cases res) (simp_all add: do_read_def)
qed

lemma after_send_inv:
  assumes "server_inv cfg s" "session_ok cfg (reg_allowed (sv_topics s)) i ss"
    "phase_client (ss_phase ss) = Some cl"
  shows "server_inv cfg (after_send s i ss cl out)"
  unfolding after_send_def
  by (intro server_inv_set_session enter_loop_ok)
    (use assms session_ok_client [OF assms(2,3)] in simp_all)

lemma server_inv_log:
  assumes "server_inv cfg s" "sv_sessions s i = Some ss" "ss_phase ss = Sending cl msg out" "chan_ok ch"
  shows "server_inv cfg (s\<lparr>sv_msgChan := ch, sv_log := sv_log s @ [msg]\<rparr>)"
proof -
  have "message_ok cfg (reg_allowed (sv_topics s)) msg"
    using server_inv_session [OF assms(1,2)] assms(3) by (simp add: session_ok_def)
  with assms(1,4) show ?thesis by (simp add: server_inv_def)
qed

lemma CloseAll_inv: "manager_inv m \<Longrightarrow> manager_inv (snd (CloseAll m))"
proof -
  assume "manager_inv m"
  then have "Count m \<le> cm_maxClients m" by (simp add: manager_inv_def)
  then have "0 \<le> cm_maxClients m" by (rule order_trans [OF Count_nonneg])
  then show ?thesis by (simp add: manager_inv_def CloseAll_def Count_def Get_def fcard_fempty)
qed

lemma server_step_inv:
  assumes "server_step cfg s l t" "server_inv cfg s"
  shows "server_inv cfg t"
  using assms
proof cases
  case (accept i input)
  then show ?thesis by (simp add: accept_conn_inv assms(2))
next
  case (connect i ss)
  then show ?thesis by (simp add: do_connect_inv assms(2))
next
  case (read i ss cl)
  then show ?thesis by (simp add: do_read_inv assms(2))
next
  case (send i ss cl msg out ch)
  have "server_inv cfg (s\<lparr>sv_msgChan := ch, sv_log := sv_log s @ [msg]\<rparr>)"
    by (rule server_inv_log [OF assms(2)]) (use send in \<open>auto intro: chan_ok_send\<close>)
  with send server_inv_session [OF assms(2)] show ?thesis by (auto intro!: after_send_inv)
next
  case (handoff i ss cl msg out)
  have "server_inv cfg (s\<lparr>sv_msgChan := sv_msgChan s, sv_log := sv_log s @ [msg]\<rparr>)"
    by (rule server_inv_log [OF assms(2)]) (use handoff server_inv_parts [OF assms(2)] in auto)
  with handoff server_inv_session [OF assms(2)] show ?thesis by (auto intro!: after_send_inv)
next
  case (cancelled i ss cl msg out)
  with server_inv_session [OF assms(2)] show ?thesis by (auto intro!: after_send_inv assms(2))
next
  case (release i ss cl)
  have "session_ok cfg (reg_allowed (sv_topics s)) i (ss\<lparr>ss_phase := Removing cl\<rparr>)"
    by (rule session_ok_move_phase [OF server_inv_session [OF assms(2) release(3)], of cl])
      (simp_all add: release)
  with server_inv_topics [OF assms(2) Release_inv [OF server_inv_parts(1) [OF assms(2)]], of "cl_ID cl"]
  show ?thesis unfolding release(2) do_release_def by (intro server_inv_set_session) simp_all
next
  case (remove i ss cl)
  show ?thesis unfolding remove(2) do_remove_def
    by (intro server_inv_set_session server_inv_connMgr assms(2) Remove_inv
        server_inv_parts(2) [OF assms(2)] session_ok_Finished)
next
  case (receive msg ch)
  with assms(2) show ?thesis by (auto simp: server_inv_def intro: chan_ok_recv)
next
  case (clock now)
  with assms(2) show ?thesis by (simp add: server_inv_def)
next
  case cancel
  with assms(2) show ?thesis by (simp add: server_inv_def)
next
  case close_listener
  with assms(2) show ?thesis by (simp add: server_inv_def)
next
  case close_all
  with assms(2) CloseAll_inv [of "sv_connMgr s"] show ?thesis
    by (auto simp: do_close_all_def server_inv_def session_ok_close split: prod.split)
qed

lemma server_init_inv: "server_init topics maxClients bufSize s \<Longrightarrow> server_inv cfg s"
  by (auto simp: server_init_def server_inv_def NewServer_def intro: inv_intros)

abbreviation server_reach :: "server_cfg \<Rightarrow> string list \<Rightarrow> int \<Rightarrow> nat \<Rightarrow> server \<Rightarrow> bool" where
  "server_reach cfg topics maxClients bufSize \<equiv>
     reachable (server_init topics maxClients bufSize) (any_step cfg)"

interpretation mqtt: invariant_system "server_init topics maxClients bufSize" "any_step cfg" "server_inv cfg"
  for topics maxClients bufSize cfg
  by unfold_locales (auto intro: server_init_inv server_step_inv)

subsection \<open>What no step changes\<close>

lemma handleConnect_max:
  fixes cfg :: server_cfg
  assumes "handleConnect now (sc_auth cfg) m i h d = (res, m')"
  shows "cm_maxClients m' = cm_maxClients m"
proof (cases res)
  case (ConnectOk cl closed out)
  with handleConnect_ok [of now cfg m i h d cl closed out m'] assms have "Add m cl = (Inr closed, m')" by auto
  with maxClients_Add [of m cl] show ?thesis by simp
next
  case (ConnectDrop out)
  with assms show ?thesis by (auto dest: handleConnect_drop)
qed

lemma server_step_const:
  assumes "server_step cfg s l t"
  shows "cm_maxClients (sv_connMgr t) = cm_maxClients (sv_connMgr s) \<and>
    reg_allowed (sv_topics t) = reg_allowed (sv_topics s) \<and> ch_cap (sv_msgChan t) = ch_cap (sv_msgChan s)"
  using assms
  by cases
    (auto simp: accept_conn_def do_connect_def do_read_def after_send_def do_release_def do_remove_def
      do_close_all_def CloseAll_def Let_def split: option.split prod.split connect_outcome.split
      loop_outcome.split dest: handleConnect_max dispatch_allowed chan_send_Some chan_recv_Some)

definition server_consts :: "string list \<Rightarrow> int \<Rightarrow> nat \<Rightarrow> server \<Rightarrow> bool" where
  "server_consts topics maxClients bufSize s \<longleftrightarrow>
     cm_maxClients (sv_connMgr s) = maxClients \<and> reg_allowed (sv_topics s) = TrimSpace ` set topics \<and>
     ch_cap (sv_msgChan s) = bufSize"

interpretation mqtt_consts: invariant_system "server_init topics maxClients bufSize" "any_step cfg"
  "server_consts topics maxClients bufSize" for topics maxClients bufSize cfg
  by unfold_locales
    (auto simp: server_init_def server_consts_def NewServer_def NewTopicRegistry_iff NewClientManager_def
      dest!: server_step_const)

text \<open>
  Where a message comes from: some session presented an authenticated CONNECT packet with the
  client ID the message carries. Sessions never forget their CONNECT packet.
\<close>

definition origin_ok :: "server_cfg \<Rightarrow> (conn_id \<rightharpoonup> session) \<Rightarrow> message \<Rightarrow> bool" where
  "origin_ok cfg sessions msg \<longleftrightarrow>
     (\<exists>i ss pkt. sessions i = Some ss \<and> ss_packet ss = Some pkt \<and> authenticated cfg pkt \<and>
        cp_ClientID pkt = msg_ClientID msg)"

definition packets_le :: "(conn_id \<rightharpoonup> session) \<Rightarrow> (conn_id \<rightharpoonup> session) \<Rightarrow> bool" where
  "packets_le f g \<longleftrightarrow>
     (\<forall>i ss. f i = Some ss \<longrightarrow> (\<exists>ss'. g i = Some ss' \<and>
        (ss_phase ss = AwaitConnect \<or> ss_packet ss' = ss_packet ss)))"

lemma enter_loop_packet [simp]: "ss_packet (enter_loop now cl c ss) = ss_packet ss"
  by (simp add: enter_loop_def split: prod.split option.split)

lemma packets_le_upd:
  "(f i = None \<or> (\<exists>ss0. f i = Some ss0 \<and> (ss_phase ss0 = AwaitConnect \<or> ss_packet ss = ss_packet ss0))) \<Longrightarrow>
   packets_le f (f(i \<mapsto> ss))"
  by (auto simp: packets_le_def)

lemma packets_le_close:
  "packets_le f g \<Longrightarrow>
   packets_le f (\<lambda>j. if j \<in> A then map_option (\<lambda>ss. ss\<lparr>ss_conn := conn_close (ss_conn ss)\<rparr>) (g j) else g j)"
  by (fastforce simp: packets_le_def)

lemma packets_le_refl: "packets_le f f"
  by (simp add: packets_le_def)

lemma packets_le_connect:
  "f i = Some ss \<Longrightarrow> ss_phase ss = AwaitConnect \<Longrightarrow> packets_le f ((close_conns A f)(i \<mapsto> ss'))"
  by (auto simp: packets_le_def close_conns_def)

lemma server_step_packets:
  assumes "server_step cfg s l t"
  shows "packets_le (sv_sessions s) (sv_sessions t)"
  using assms
  by cases
    (auto simp: accept_conn_def do_connect_def do_read_def after_send_def do_release_def do_remove_def
      do_close_all_def Let_def split: option.split prod.split connect_outcome.split
      loop_outcome.split intro!: packets_le_upd packets_le_close packets_le_refl packets_le_connect)

definition origin_inv :: "server_cfg \<Rightarrow> server \<Rightarrow> bool" where
  "origin_inv cfg s \<longleftrightarrow> server_inv cfg s \<and>
     (\<forall>i ss. sv_sessions s i = Some ss \<longrightarrow> ss_phase ss = AwaitConnect \<longrightarrow> ss_packet ss = None) \<and>
     (\<forall>msg\<in>set (sv_log s). origin_ok cfg (sv_sessions s) msg)"

lemma origin_ok_step:
  assumes "origin_inv cfg s" "server_step cfg s l t" "origin_ok cfg (sv_sessions s) msg"
  shows "origin_ok cfg (sv_sessions t) msg"
proof -
  obtain i ss pkt where o: "sv_sessions s i = Some ss" "ss_packet ss = Some pkt" "authenticated cfg pkt"
    "cp_ClientID pkt = msg_ClientID msg" using assms(3) by (auto simp: origin_ok_def)
  then have "ss_phase ss \<noteq> AwaitConnect" using assms(1) by (auto simp: origin_inv_def)
  with o server_step_packets [OF assms(2)] show ?thesis by (fastforce simp: packets_le_def origin_ok_def)
qed

lemma sending_origin:
  assumes "server_inv cfg s" "sv_sessions s i = Some ss" "ss_phase ss = Sending cl msg out"
  shows "origin_ok cfg (sv_sessions s) msg"
  using server_inv_session [OF assms(1,2)] assms(2,3)
  by (fastforce simp: session_ok_def client_ok_def origin_ok_def)

lemma server_step_log:
  assumes "server_step cfg s l t"
  shows "sv_log t = sv_log s \<or>
    (\<exists>i ss cl msg out. sv_sessions s i = Some ss \<and> ss_phase ss = Sending cl msg out \<and> sv_log t = sv_log s @ [msg])"
  using assms
  by cases
    (auto simp: accept_conn_def do_connect_def do_read_def after_send_def do_release_def do_remove_def
      do_close_all_def Let_def split: option.split prod.split connect_outcome.split loop_outcome.split)

lemma server_step_await:
  assumes "server_step cfg s l t" "sv_sessions t i = Some ss" "ss_phase ss = AwaitConnect"
  shows "ss_packet ss = None \<or> (\<exists>ss0. sv_sessions s i = Some ss0 \<and> ss_phase ss0 = AwaitConnect \<and> ss_packet ss = ss_packet ss0)"
  using assms
  by cases
    (auto simp: accept_conn_def do_connect_def do_read_def after_send_def do_release_def do_remove_def
      do_close_all_def close_conns_def enter_loop_def Let_def
      split: option.splits prod.splits connect_outcome.splits loop_outcome.splits if_splits)

interpretation mqtt_origin: invariant_system "server_init topics maxClients bufSize" "any_step cfg"
  "origin_inv cfg" for topics maxClients bufSize cfg
proof unfold_locales
  show "origin_inv cfg s" if "server_init topics maxClients bufSize s" for s
    using that server_init_inv [OF that] by (auto simp: origin_inv_def server_init_def NewServer_def)
next
  fix s t assume inv: "origin_inv cfg s" and "any_step cfg s t"
  then obtain l where step: "server_step cfg s l t" by blast
  note base = inv [unfolded origin_inv_def]
  have "origin_ok cfg (sv_sessions t) msg" if "msg \<in> set (sv_log t)" for msg
  proof (rule origin_ok_step [OF inv step])
    show "origin_ok cfg (sv_sessions s) msg"
      using server_step_log [OF step] that base by (auto intro: sending_origin)
  qed
  moreover have "ss_packet ss = None" if "sv_sessions t i = Some ss" "ss_phase ss = AwaitConnect" for i ss
    using server_step_await [OF step that] base by auto
  ultimately show "origin_inv cfg t" using server_step_inv [OF step] base by (simp add: origin_inv_def)
qed

subsection \<open>Runs without takeover\<close>

text \<open>
  \<open>Add\<close> lets a client connect under an ID that is already registered: the old connection is
  closed and its entry replaced (a takeover). The deferred \<open>Release\<close> and \<open>Remove\<close> of the old
  goroutine then work on the client ID, hence on the new session's entries. In a run with no
  takeover and before the shutdown's \<open>CloseAll\<close>, the registered clients are exactly the sessions
  past CONNECT and every owned topic belongs to a session that is still publishing.
\<close>

definition takeover :: "server_cfg \<Rightarrow> server \<Rightarrow> conn_id \<Rightarrow> bool" where
  "takeover cfg s i \<longleftrightarrow>
     (case sv_sessions s i of None \<Rightarrow> False
      | Some ss \<Rightarrow> (case conn_read (sv_now s) (ss_conn ss) of None \<Rightarrow> False
         | Some (header, data, c) \<Rightarrow>
           (case handleConnect (sv_now s) (sc_auth cfg) (sv_connMgr s) i header data of
              (ConnectOk cl closed out, connMgr) \<Rightarrow> Get (sv_connMgr s) (cl_ID cl) \<noteq> None
            | _ \<Rightarrow> False)))"

definition calm_step :: "server_cfg \<Rightarrow> server \<Rightarrow> server \<Rightarrow> bool" where
  "calm_step cfg s t \<longleftrightarrow>
     (\<exists>l. server_step cfg s l t \<and> l \<noteq> LCloseAll \<and> (\<forall>i. l = LConnect i \<longrightarrow> \<not> takeover cfg s i))"

definition session_id :: "(conn_id \<rightharpoonup> session) \<Rightarrow> conn_id \<Rightarrow> string option" where
  "session_id sessions i =
     (case sessions i of None \<Rightarrow> None | Some ss \<Rightarrow> map_option cl_ID (phase_client (ss_phase ss)))"

definition owner_id :: "(conn_id \<rightharpoonup> session) \<Rightarrow> conn_id \<Rightarrow> string option" where
  "owner_id sessions i =
     (case sessions i of None \<Rightarrow> None
      | Some ss \<Rightarrow> (case ss_phase ss of Removing cl \<Rightarrow> None
                     | p \<Rightarrow> map_option cl_ID (phase_client p)))"

definition registered :: "server \<Rightarrow> string \<Rightarrow> conn_id option" where
  "registered s cid = map_option cl_Conn (Get (sv_connMgr s) cid)"

definition calm_inv :: "server \<Rightarrow> bool" where
  "calm_inv s \<longleftrightarrow>
     (\<forall>i cid. session_id (sv_sessions s) i = Some cid \<longleftrightarrow> registered s cid = Some i) \<and>
     (\<forall>t cid. reg_owners (sv_topics s) t = Some cid \<longrightarrow> (\<exists>i. owner_id (sv_sessions s) i = Some cid))"

lemma session_id_upd [simp]:
  "session_id (f(i \<mapsto> ss)) = (session_id f)(i := map_option cl_ID (phase_client (ss_phase ss)))"
  "session_id Map.empty = Map.empty"
  by (auto simp: session_id_def fun_eq_iff)

lemma owner_id_upd [simp]:
  "owner_id (f(i \<mapsto> ss)) =
     (owner_id f)(i := (case ss_phase ss of Removing cl \<Rightarrow> None | p \<Rightarrow> map_option cl_ID (phase_client p)))"
  by (auto simp: owner_id_def fun_eq_iff)

lemma close_conns_Nil [simp]: "close_conns [] f = f"
  by (simp add: close_conns_def fun_eq_iff)

lemma enter_loop_id [simp]:
  "map_option cl_ID (phase_client (ss_phase (enter_loop now cl c ss))) = Some (cl_ID cl)"
  "(case ss_phase (enter_loop now cl c ss) of Removing cl \<Rightarrow> None | p \<Rightarrow> map_option cl_ID (phase_client p)) =
     Some (cl_ID cl)"
  using enter_loop_phase [of now cl c ss] by auto

lemma calm_inv_registered: "calm_inv s \<Longrightarrow> session_id (sv_sessions s) i = Some cid \<Longrightarrow> registered s cid = Some i"
  by (simp add: calm_inv_def)

lemma calm_inv_owner:
  "calm_inv s \<Longrightarrow> reg_owners (sv_topics s) u = Some cid \<Longrightarrow> \<exists>i. owner_id (sv_sessions s) i = Some cid"
  unfolding calm_inv_def by blast

lemma owner_id_session: "owner_id f i = Some cid \<Longrightarrow> session_id f i = Some cid"
  by (auto simp: owner_id_def session_id_def split: option.splits phase.splits)

text \<open>A session enters or leaves, and a step that only moves a session on under the same client ID.\<close>

lemma calm_inv_add:
  assumes inv: "calm_inv s" and "registered s cid = None" "session_id (sv_sessions s) i = None"
    and t: "session_id (sv_sessions t) = (session_id (sv_sessions s))(i \<mapsto> cid)"
      "owner_id (sv_sessions t) = (owner_id (sv_sessions s))(i \<mapsto> cid)"
      "registered t = (registered s)(cid \<mapsto> i)" "sv_topics t = sv_topics s"
  shows "calm_inv t"
  unfolding calm_inv_def t
proof (intro conjI allI impI)
  fix j c
  show "((session_id (sv_sessions s))(i \<mapsto> cid)) j = Some c \<longleftrightarrow> ((registered s)(cid \<mapsto> i)) c = Some j"
    using calm_inv_registered [OF inv] assms(2,3) inv [unfolded calm_inv_def, THEN conjunct1, rule_format, of j c]
    by (cases "j = i"; cases "c = cid") auto
next
  fix u c assume "reg_owners (sv_topics s) u = Some c"
  then obtain j where j: "owner_id (sv_sessions s) j = Some c" using calm_inv_owner [OF inv] by blast
  then have "j \<noteq> i" using owner_id_session [OF j] assms(3) by auto
  with j show "\<exists>j. ((owner_id (sv_sessions s))(i \<mapsto> cid)) j = Some c" by (intro exI [of _ j]) simp
qed

lemma calm_inv_del:
  assumes inv: "calm_inv s" and i: "session_id (sv_sessions s) i = Some cid"
    and t: "session_id (sv_sessions t) = (session_id (sv_sessions s))(i := None)"
      "owner_id (sv_sessions t) = owner_id (sv_sessions s)"
      "registered t = (registered s)(cid := None)" "sv_topics t = sv_topics s"
  shows "calm_inv t"
  unfolding calm_inv_def t
proof (intro conjI allI impI)
  fix j c
  show "((session_id (sv_sessions s))(i := None)) j = Some c \<longleftrightarrow> ((registered s)(cid := None)) c = Some j"
    using calm_inv_registered [OF inv i] i inv [unfolded calm_inv_def, THEN conjunct1, rule_format, of j c]
    by (cases "j = i"; cases "c = cid") auto
next
  fix u c assume "reg_owners (sv_topics s) u = Some c"
  then show "\<exists>j. owner_id (sv_sessions s) j = Some c" by (rule calm_inv_owner [OF inv])
qed

lemma calm_inv_same:
  assumes "calm_inv s" and "session_id (sv_sessions t) = session_id (sv_sessions s)"
    and "owner_id (sv_sessions t) = owner_id (sv_sessions s)" and "sv_connMgr t = sv_connMgr s"
    and "\<And>u cid. reg_owners (sv_topics t) u = Some cid \<Longrightarrow>
      reg_owners (sv_topics s) u = Some cid \<or> (\<exists>i. owner_id (sv_sessions s) i = Some cid)"
  shows "calm_inv t"
  using assms by (fastforce simp: calm_inv_def registered_def)

lemma dispatch_owners:
  assumes "dispatch now tz r cl h d = (res, r')" "reg_owners r' u = Some cid"
  shows "reg_owners r u = Some cid \<or> cid = cl_ID cl"
  using dispatch_topics [OF assms(1)] assms(2)
  by (auto simp: topics.owner_claim split: if_splits)

lemma calm_connect:
  assumes inv: "calm_inv s" and ss: "sv_sessions s i = Some ss" "ss_phase ss = AwaitConnect"
    and calm: "\<not> takeover cfg s i"
  shows "calm_inv (do_connect cfg s i ss)"
proof (cases "conn_read (sv_now s) (ss_conn ss)")
  case None
  with ss inv show ?thesis
    by (intro calm_inv_same [OF inv]) (auto simp: do_connect_def session_id_def owner_id_def fun_eq_iff)
next
  case (Some r)
  obtain h d c where r: "r = (h, d, c)" by (cases r)
  obtain res m where hc: "handleConnect (sv_now s) (sc_auth cfg) (sv_connMgr s) i h d = (res, m)"
    by (cases "handleConnect (sv_now s) (sc_auth cfg) (sv_connMgr s) i h d")
  have i: "session_id (sv_sessions s) i = None" "owner_id (sv_sessions s) i = None"
    using ss by (simp_all add: session_id_def owner_id_def)
  show ?thesis
  proof (cases res)
    case (ConnectDrop out)
    with hc have "m = sv_connMgr s" by (auto dest: handleConnect_drop)
    with ss i Some r hc ConnectDrop show ?thesis
      by (intro calm_inv_same [OF inv]) (auto simp: do_connect_def fun_upd_idem)
  next
    case (ConnectOk cl closed out)
    from handleConnect_ok [OF hc [unfolded ConnectOk]]
    have add: "Add (sv_connMgr s) cl = (Inr closed, m)" and cn: "cl_Conn cl = i" by (auto simp: NewClient_def)
    from calm ss Some r hc ConnectOk have fresh: "Get (sv_connMgr s) (cl_ID cl) = None"
      by (simp add: takeover_def)
    with add have closed: "closed = []" by (auto simp: Add_def Get_def split: if_splits)
    have reg: "registered t = (registered s)(cl_ID cl := Some i)" if "sv_connMgr t = m" for t
      using that cn by (simp add: registered_def Get_Add [OF add] fun_eq_iff)
    have fresh': "registered s (cl_ID cl) = None" using fresh by (simp add: registered_def)
    show ?thesis
      by (rule calm_inv_add [OF inv fresh' i(1)])
        (use Some r hc ConnectOk closed reg in \<open>simp_all add: do_connect_def\<close>)
  qed
qed

lemma calm_read:
  assumes inv: "calm_inv s" and ss: "sv_sessions s i = Some ss" "ss_phase ss = InLoop cl"
  shows "calm_inv (do_read cfg s i ss cl)"
proof -
  have i: "session_id (sv_sessions s) i = Some (cl_ID cl)" "owner_id (sv_sessions s) i = Some (cl_ID cl)"
    using ss by (simp_all add: session_id_def owner_id_def)
  show ?thesis
    by (intro calm_inv_same [OF inv])
      (use i in \<open>auto simp: do_read_def fun_upd_idem split: option.splits prod.splits loop_outcome.splits
         dest!: dispatch_owners\<close>)
qed

lemma calm_after_send:
  assumes inv: "calm_inv s" and ss: "sv_sessions s i = Some ss" "ss_phase ss = Sending cl msg out"
    and t: "sv_sessions t = sv_sessions s" "sv_connMgr t = sv_connMgr s" "sv_topics t = sv_topics s"
  shows "calm_inv (after_send t i ss cl out')"
proof -
  have i: "session_id (sv_sessions s) i = Some (cl_ID cl)" "owner_id (sv_sessions s) i = Some (cl_ID cl)"
    using ss by (simp_all add: session_id_def owner_id_def)
  show ?thesis
    by (intro calm_inv_same [OF inv]) (use i t in \<open>auto simp: after_send_def fun_upd_idem\<close>)
qed

lemma calm_release:
  assumes inv: "calm_inv s" and ss: "sv_sessions s i = Some ss" "ss_phase ss = Releasing cl"
  shows "calm_inv (do_release s i ss cl)"
proof -
  have i: "session_id (sv_sessions s) i = Some (cl_ID cl)"
    using ss by (simp add: session_id_def)
  have own: "\<exists>j. j \<noteq> i \<and> owner_id (sv_sessions s) j = Some cid"
    if own: "reg_owners (Release (sv_topics s) (cl_ID cl)) u = Some cid" for u cid
  proof -
    from own have c: "cid \<noteq> cl_ID cl" "reg_owners (sv_topics s) u = Some cid"
      by (auto simp: Release_def split: if_splits)
    with calm_inv_owner [OF inv] obtain j where j: "owner_id (sv_sessions s) j = Some cid" by blast
    have "j \<noteq> i" using owner_id_session [OF j] i c by auto
    with j show ?thesis by blast
  qed
  have sid: "session_id (sv_sessions (do_release s i ss cl)) = session_id (sv_sessions s)"
    using i by (simp add: do_release_def fun_upd_idem)
  have oid: "owner_id (sv_sessions (do_release s i ss cl)) = (owner_id (sv_sessions s))(i := None)"
    by (simp add: do_release_def)
  have reg: "registered (do_release s i ss cl) = registered s"
    and top: "sv_topics (do_release s i ss cl) = Release (sv_topics s) (cl_ID cl)"
    by (simp_all add: do_release_def registered_def fun_eq_iff)
  show ?thesis
    unfolding calm_inv_def sid oid reg top using own inv [unfolded calm_inv_def, THEN conjunct1] by fastforce
qed

lemma calm_remove:
  assumes inv: "calm_inv s" and ss: "sv_sessions s i = Some ss" "ss_phase ss = Removing cl"
  shows "calm_inv (do_remove s i ss cl)"
proof -
  have i: "session_id (sv_sessions s) i = Some (cl_ID cl)" "owner_id (sv_sessions s) i = None"
    using ss by (simp_all add: session_id_def owner_id_def)
  show ?thesis
    by (rule calm_inv_del [OF inv i(1)])
      (use i in \<open>simp_all add: do_remove_def registered_def fun_eq_iff\<close>)
qed

lemma calm_step_inv: "calm_step cfg s t \<Longrightarrow> calm_inv s \<Longrightarrow> calm_inv t"
proof -
  assume "calm_step cfg s t" and inv: "calm_inv s"
  then obtain l where step: "server_step cfg s l t" and l: "l \<noteq> LCloseAll"
    and calm: "\<And>i. l = LConnect i \<Longrightarrow> \<not> takeover cfg s i" by (auto simp: calm_step_def)
  from step show ?thesis
  proof cases
    case (accept i input)
    with inv show ?thesis
      by (intro calm_inv_same [OF inv])
        (auto simp: accept_conn_def Let_def session_id_def owner_id_def fun_eq_iff split: if_splits)
  next
    case (connect i ss)
    with calm inv show ?thesis by (auto intro: calm_connect)
  next
    case (read i ss cl)
    with inv show ?thesis by (auto intro: calm_read)
  next
    case (send i ss cl msg out ch)
    with inv show ?thesis by (auto intro!: calm_after_send)
  next
    case (handoff i ss cl msg out)
    with inv show ?thesis by (auto intro!: calm_after_send)
  next
    case (cancelled i ss cl msg out)
    with inv show ?thesis by (auto intro!: calm_after_send)
  next
    case (release i ss cl)
    with inv show ?thesis by (auto intro: calm_release)
  next
    case (remove i ss cl)
    with inv show ?thesis by (auto intro: calm_remove)
  qed (use inv l in \<open>auto simp: calm_inv_def registered_def\<close>)
qed

lemma calm_inv_init: "server_init topics maxClients bufSize s \<Longrightarrow> calm_inv s"
  by (auto simp: server_init_def NewServer_def calm_inv_def registered_def NewTopicRegistry_iff)

interpretation mqtt_calm: invariant_system "server_init topics maxClients bufSize" "calm_step cfg"
  calm_inv for topics maxClients bufSize cfg
  by unfold_locales (blast intro: calm_inv_init calm_step_inv)+

lemma calm_reachable:
  "reachable (server_init topics maxClients bufSize) (calm_step cfg) s \<Longrightarrow>
   server_reach cfg topics maxClients bufSize s"
  by (induction rule: reachable.induct) (auto intro: reachable.intros simp: calm_step_def)

end
