(* ===== verification/Packet_Builder.thy ===== *)
theory Packet_Builder
  imports Packet_Codec
begin

section \<open>Building packets (common/testutil)\<close>

text \<open>
  \<open>testutil/mqtt_packets.go\<close> holds the client side of the wire: builders for CONNECT, PUBLISH
  and SUBSCRIBE packets and readers for the acknowledgements. The read-back lemmas put the two
  sides together: what a builder writes, the frame reader and the decoder of the broker read back,
  in front of any further bytes of the stream.
\<close>

unbundle bit_operations_syntax

definition BuildConnectPacket :: "string \<Rightarrow> string \<Rightarrow> string \<Rightarrow> uint16 \<Rightarrow> bytes" where
  "BuildConnectPacket clientID username password keepAlive =
     (let payload =
        [0x00, 0x04, 0x4D, 0x51, 0x54, 0x54] @ [0x04] @ [0xC2] @
        [ucast (drop_bit 8 keepAlive), ucast (keepAlive AND 0xFF)] @
        WriteUTF8String clientID @ WriteUTF8String username @
        [word_of_int (drop_bit 8 (int (length (bytes_of_string password)))),
         word_of_int (int (length (bytes_of_string password)) AND 0xFF)] @ bytes_of_string password
      in [0x10] @ EncodeRemainingLength (int (length payload)) @ payload)"

definition BuildPublishPacket :: "string \<Rightarrow> bytes \<Rightarrow> byte \<Rightarrow> uint16 \<Rightarrow> bytes" where
  "BuildPublishPacket topic payload qos packetID =
     (let data =
        WriteUTF8String topic @
        (if qos > 0 then [ucast (drop_bit 8 packetID), ucast (packetID AND 0xFF)] else []) @ payload;
          flags = push_bit 1 qos
      in [0x30 OR flags] @ EncodeRemainingLength (int (length data)) @ data)"

text \<open>\<open>qos[i]\<close> panics when there are fewer QoS values than topics: \<open>None\<close>.\<close>

fun build_subscriptions :: "string list \<Rightarrow> byte list \<Rightarrow> bytes option" where
  "build_subscriptions [] qos = Some []"
| "build_subscriptions (t # topics) [] = None"
| "build_subscriptions (t # topics) (q # qos) =
     (case build_subscriptions topics qos of
        None \<Rightarrow> None | Some data \<Rightarrow> Some (WriteUTF8String t @ [q] @ data))"

definition BuildSubscribePacket :: "uint16 \<Rightarrow> string list \<Rightarrow> byte list \<Rightarrow> bytes option" where
  "BuildSubscribePacket packetID topics qos =
     (case build_subscriptions topics qos of
        None \<Rightarrow> None
      | Some subs \<Rightarrow>
        let data = [ucast (drop_bit 8 packetID), ucast (packetID AND 0xFF)] @ subs
        in Some ([0x82] @ EncodeRemainingLength (int (length data)) @ data))"

text \<open>
  The readers of the acknowledgements, on the bytes the connection delivers. A failed
  \<open>require\<close> or \<open>assert\<close> is \<open>None\<close>; the result of \<open>ReadConnack\<close> keeps the return code as the byte
  it converts.
\<close>

definition ReadConnack :: "bytes \<Rightarrow> (bool \<times> byte) option" where
  "ReadConnack conn =
     (case read_full 4 conn of
        Inl err \<Rightarrow> None
      | Inr (buf, _) \<Rightarrow>
          if buf ! 0 = 0x20 \<and> buf ! 1 = 0x02 then Some (buf ! 2 AND 0x01 \<noteq> 0, buf ! 3) else None)"

definition ReadPuback :: "bytes \<Rightarrow> uint16 \<Rightarrow> bool" where
  "ReadPuback conn expectedID =
     (case read_full 4 conn of
        Inl err \<Rightarrow> False
      | Inr (buf, _) \<Rightarrow>
          buf ! 0 = 0x40 \<and> (push_bit 8 (ucast (buf ! 2)) OR ucast (buf ! 3)) = expectedID)"

subsection \<open>The builders in terms of the packet grammar\<close>

lemma put_uint16_bytes: "[ucast (drop_bit 8 w), ucast (w AND 0xFF)] = put_uint16 w"
  by (simp add: put_uint16_def)

definition built_connect :: "string \<Rightarrow> string \<Rightarrow> string \<Rightarrow> uint16 \<Rightarrow> ConnectPacket" where
  "built_connect clientID username password keepAlive =
     \<lparr>cp_ProtocolName = ''MQTT'', cp_ProtocolLevel = 4, cp_ConnectFlags = 0xC2,
      cp_KeepAlive = keepAlive, cp_ClientID = clientID, cp_WillTopic = [], cp_WillMessage = [],
      cp_Username = username, cp_Password = bytes_of_string password\<rparr>"

definition built_publish :: "string \<Rightarrow> bytes \<Rightarrow> byte \<Rightarrow> uint16 \<Rightarrow> PublishPacket" where
  "built_publish topic payload qos packetID =
     \<lparr>pp_DUP = False, pp_QoS = qos, pp_Retain = False, pp_TopicName = topic,
      pp_PacketID = (if qos > 0 then packetID else 0), pp_Payload = payload\<rparr>"

definition built_subscribe :: "uint16 \<Rightarrow> string list \<Rightarrow> byte list \<Rightarrow> SubscribePacket" where
  "built_subscribe packetID topics qos =
     \<lparr>sp_PacketID = packetID,
      sp_Subscriptions = map (\<lambda>(t, q). \<lparr>sub_TopicFilter = t, sub_QoS = q\<rparr>) (zip topics qos)\<rparr>"

lemma length_bytes_16: "[word_of_int (drop_bit 8 (int n)), word_of_int (int n AND 0xFF)] = put_uint16 (word_of_nat n)"
proof -
  have "int n AND 255 = take_bit 8 (int n)" by (simp add: take_bit_eq_mask mask_eq_exp_minus_1)
  moreover have "(word_of_nat n :: uint16) = word_of_int (int n)" by simp
  ultimately show ?thesis
    unfolding put_uint16_def and_255_eq
    by (auto intro!: bit_word_eqI simp: bit_simps)
qed

lemma mqtt_name_bytes: "WriteUTF8String ''MQTT'' = [0x00, 0x04, 0x4D, 0x51, 0x54, 0x54]"
  by code_simp

lemma BuildConnectPacket_frame:
  "BuildConnectPacket clientID username password keepAlive =
     frame 0x10 (connect_body (built_connect clientID username password keepAlive))"
proof -
  have body: "connect_body (built_connect clientID username password keepAlive) =
     [0x00, 0x04, 0x4D, 0x51, 0x54, 0x54] @ [0x04] @ [0xC2] @ put_uint16 keepAlive @
     WriteUTF8String clientID @ WriteUTF8String username @
     put_uint16 (word_of_nat (length (bytes_of_string password))) @ bytes_of_string password"
    by (simp add: connect_body_def built_connect_def connect_flags write_binary_def mqtt_name_bytes)
  show ?thesis
    unfolding BuildConnectPacket_def Let_def put_uint16_bytes length_bytes_16 frame_def body by simp
qed

lemma BuildPublishPacket_frame:
  "BuildPublishPacket topic payload qos packetID =
     frame (0x30 OR push_bit 1 qos) (publish_body (built_publish topic payload qos packetID))"
  by (simp add: BuildPublishPacket_def frame_def publish_body_def built_publish_def put_uint16_bytes
      del: One_nat_def)

lemma build_subscriptions_body:
  "length topics \<le> length qos \<Longrightarrow>
   build_subscriptions topics qos =
     Some (concat (map subscription_body (sp_Subscriptions (built_subscribe packetID topics qos))))"
  by (induction topics qos rule: build_subscriptions.induct)
    (auto simp: built_subscribe_def subscription_body_def)

lemma build_subscriptions_panic: "length qos < length topics \<Longrightarrow> build_subscriptions topics qos = None"
  by (induction topics qos rule: build_subscriptions.induct) auto

lemma BuildSubscribePacket_frame:
  "length topics \<le> length qos \<Longrightarrow>
   BuildSubscribePacket packetID topics qos = Some (frame 0x82 (subscribe_body (built_subscribe packetID topics qos)))"
  by (simp add: BuildSubscribePacket_def build_subscriptions_body [of _ _ packetID] put_uint16_bytes frame_def
      subscribe_body_def Let_def)
    (simp add: built_subscribe_def)

lemma connect_ok_built:
  "length clientID < 65536 \<Longrightarrow> length username < 65536 \<Longrightarrow> length password < 65536 \<Longrightarrow>
   connect_ok (built_connect clientID username password keepAlive)"
  by (simp add: connect_ok_def built_connect_def connect_flags)

lemma publish_ok_built:
  "qos \<le> 2 \<Longrightarrow> topic \<noteq> [] \<Longrightarrow> length topic < 65536 \<Longrightarrow> publish_ok (built_publish topic payload qos packetID)"
  by (auto simp: publish_ok_def built_publish_def)

lemma publish_header_built:
  assumes "qos \<le> 2"
  shows "packet_type_of (0x30 OR push_bit 1 qos) = PUBLISH \<and>
    publish_flags (built_publish topic payload qos packetID) ((0x30 OR push_bit 1 qos) AND 0x0F)"
proof -
  from assms have "qos = 0 \<or> qos = 1 \<or> qos = 2" by unat_arith
  then show ?thesis
    by (elim disjE) (simp_all add: packet_type_of_def packet_types_def publish_flags_def built_publish_def)
qed

lemma subscribe_ok_built:
  assumes "topics \<noteq> []" "length topics = length qos" "\<forall>t\<in>set topics. length t < 65536" "\<forall>q\<in>set qos. q \<le> 2"
  shows "subscribe_ok (built_subscribe packetID topics qos)"
  using assms
  by (cases topics; cases qos)
    (auto simp: subscribe_ok_def built_subscribe_def subscription_ok_def list_all_iff dest: set_zip_leftD set_zip_rightD)

subsection \<open>Read-back\<close>

lemma frame_ok_connect: "length body < 268435456 \<Longrightarrow> frame_ok 0x10 body \<and> packet_type_of 0x10 = CONNECT"
  by (simp add: frame_ok_def packet_type_of_def packet_types_def)

lemma frame_ok_subscribe: "length body < 268435456 \<Longrightarrow> frame_ok 0x82 body \<and> packet_type_of 0x82 = SUBSCRIBE"
  by (simp add: frame_ok_def packet_type_of_def packet_types_def)

lemma length_connect_body_built:
  "length (connect_body (built_connect clientID username password keepAlive)) =
     16 + length clientID + length username + length password"
  by (simp add: connect_body_def built_connect_def connect_flags)

lemma connect_read_back:
  assumes "length clientID < 65536" "length username < 65536" "length password < 65536"
  shows "\<exists>header data. ReadPacket (BuildConnectPacket clientID username password keepAlive @ rest) = Inr (header, data, rest) \<and>
    fh_PacketType header = CONNECT \<and> DecodeConnect data = Inr (built_connect clientID username password keepAlive)"
proof -
  let ?b = "connect_body (built_connect clientID username password keepAlive)"
  have "length ?b < 268435456" using assms by (simp add: length_connect_body_built)
  then have "frame_ok 0x10 ?b" "packet_type_of 0x10 = CONNECT" using frame_ok_connect by blast+
  with DecodeConnect_body [OF connect_ok_built [OF assms], of keepAlive "[]"] show ?thesis
    unfolding BuildConnectPacket_frame by (simp add: ReadPacket_frame frame_header_def)
qed

lemma publish_read_back:
  assumes "qos \<le> 2" "topic \<noteq> []" "length topic < 65536" "length payload < 200000000"
  shows "\<exists>header data. ReadPacket (BuildPublishPacket topic payload qos packetID @ rest) = Inr (header, data, rest) \<and>
    fh_PacketType header = PUBLISH \<and> DecodePublish header data = Inr (built_publish topic payload qos packetID)"
proof -
  let ?p = "built_publish topic payload qos packetID"
  note hdr = publish_header_built [OF assms(1), of topic payload packetID]
  have "length (publish_body ?p) < 268435456"
    using assms by (simp add: publish_body_def built_publish_def)
  then have "frame_ok (0x30 OR push_bit 1 qos) (publish_body ?p)" using hdr by (simp add: frame_ok_def)
  with DecodePublish_body [OF publish_ok_built [OF assms(1-3)],
      of payload packetID "frame_header (0x30 OR push_bit 1 qos) (publish_body ?p)"] hdr show ?thesis
    unfolding BuildPublishPacket_frame
    by (simp add: ReadPacket_frame frame_header_def del: One_nat_def)
qed

lemma subscribe_read_back:
  assumes "topics \<noteq> []" "length topics = length qos" "\<forall>t\<in>set topics. length t < 65536" "\<forall>q\<in>set qos. q \<le> 2"
    and "length (subscribe_body (built_subscribe packetID topics qos)) < 268435456"
  shows "\<exists>pkt header data. BuildSubscribePacket packetID topics qos = Some pkt \<and>
    ReadPacket (pkt @ rest) = Inr (header, data, rest) \<and> fh_PacketType header = SUBSCRIBE \<and>
    DecodeSubscribe data = Inr (built_subscribe packetID topics qos)"
  using BuildSubscribePacket_frame [of topics qos packetID] assms(2) frame_ok_subscribe [OF assms(5)]
    DecodeSubscribe_body [OF subscribe_ok_built [OF assms(1-4)], of packetID]
  by (simp add: ReadPacket_frame frame_header_def)

subsection \<open>Acknowledgements\<close>

lemma ReadConnack_Encode:
  "ReadConnack (EncodeConnack present code @ rest) = Some (present, connack_code code)"
  by (simp add: ReadConnack_def EncodeConnack_def read_full_def)

lemma ReadPuback_Encode: "ReadPuback (EncodePuback packetID @ rest) expectedID \<longleftrightarrow> packetID = expectedID"
proof -
  have "push_bit 8 (ucast hi) OR ucast lo = be_uint16 hi lo" for hi lo
    by (simp add: be_uint16_def or.commute)
  then show ?thesis
    by (simp add: ReadPuback_def EncodePuback_def read_full_def put_uint16_def)
qed

end
