(* ===== verification/Server_Properties.thy ===== *)
theory Server_Properties
  imports Server_Steps Packet_Builder "HOL-Library.FuncSet"
begin

section \<open>Properties of the server\<close>

text \<open>
  What holds in every reachable state of the server, whatever the interleaving of its goroutines,
  and what a takeover breaks.
\<close>

definition active :: "server \<Rightarrow> conn_id set" where
  "active s = {i. \<exists>ss cl. sv_sessions s i = Some ss \<and> phase_client (ss_phase ss) = Some cl}"

lemma active_session_id: "active s = dom (session_id (sv_sessions s))"
  by (auto simp: active_def session_id_def dom_def split: option.splits)

lemma registered_dom: "dom (registered s) = fset (fmdom (cm_clients (sv_connMgr s)))"
  by (auto simp: registered_def Get_def dom_def fmlookup_dom_iff)

lemma active_bij:
  assumes "calm_inv s"
  shows "bij_betw (\<lambda>i. the (session_id (sv_sessions s) i)) (active s) (dom (registered s))"
  unfolding active_session_id
proof (rule bij_betwI [of _ _ _ "\<lambda>cid. the (registered s cid)"])
  show "(\<lambda>i. the (session_id (sv_sessions s) i)) \<in> dom (session_id (sv_sessions s)) \<rightarrow> dom (registered s)"
    using calm_inv_registered [OF assms] by fastforce
  show "(\<lambda>cid. the (registered s cid)) \<in> dom (registered s) \<rightarrow> dom (session_id (sv_sessions s))"
    using assms by (fastforce simp: calm_inv_def)
qed (metis assms calm_inv_def domD option.sel)+

lemma active_count:
  assumes "calm_inv s"
  shows "finite (active s)" "int (card (active s)) = Count (sv_connMgr s)"
proof -
  note bij = active_bij [OF assms]
  show "finite (active s)" using bij_betw_finite [OF bij] by (simp add: registered_dom)
  show "int (card (active s)) = Count (sv_connMgr s)"
    using bij_betw_same_card [OF bij] by (simp add: registered_dom Count_def fcard.rep_eq)
qed

subsection \<open>Packets on the wire\<close>

text \<open>What a session does with a packet that a client built, in front of further input.\<close>

lemma conn_read_built_connect:
  assumes "length clientID < 65536" "length username < 65536" "length password < 65536"
    and "conn_live now c" "cn_input c = BuildConnectPacket clientID username password keepAlive @ rest"
  shows "\<exists>h d. conn_read now c = Some (h, d, c\<lparr>cn_input := rest\<rparr>) \<and> fh_PacketType h = CONNECT \<and>
    DecodeConnect d = Inr (built_connect clientID username password keepAlive)"
  using connect_read_back [OF assms(1-3), of keepAlive rest] assms(4,5) by (auto simp: conn_read_def)

lemma do_connect_built:
  fixes cfg :: server_cfg
  assumes "length clientID < 65536" "length username < 65536" "length password < 65536"
    and "conn_live (sv_now s) (ss_conn ss)"
    and "cn_input (ss_conn ss) = BuildConnectPacket clientID username password keepAlive @ rest"
    and "Authenticate (sc_auth cfg) username password"
    and "Add (sv_connMgr s) (NewClient (sv_now s) clientID i keepAlive) = (Inr closed, m)"
  shows "do_connect cfg s i ss =
    set_session (s\<lparr>sv_connMgr := m, sv_sessions := close_conns closed (sv_sessions s)\<rparr>) i
      (enter_loop (sv_now s) (NewClient (sv_now s) clientID i keepAlive)
        (conn_write (sv_now s) (EncodeConnack False ConnAccepted) ((ss_conn ss)\<lparr>cn_input := rest\<rparr>))
        (ss\<lparr>ss_packet := Some (built_connect clientID username password keepAlive)\<rparr>))"
proof -
  obtain h d where "conn_read (sv_now s) (ss_conn ss) = Some (h, d, (ss_conn ss)\<lparr>cn_input := rest\<rparr>)"
    "fh_PacketType h = CONNECT" "DecodeConnect d = Inr (built_connect clientID username password keepAlive)"
    using conn_read_built_connect [OF assms(1-5)] by blast
  with assms(6,7) show ?thesis
    by (simp add: do_connect_def handleConnect_def built_connect_def HasUsername_def Let_def)
qed

lemma conn_read_built_publish:
  assumes "qos \<le> 2" "topic \<noteq> []" "length topic < 65536" "length payload < 200000000"
    and "conn_live now c" "cn_input c = BuildPublishPacket topic payload qos packetID @ rest"
  shows "\<exists>h d. conn_read now c = Some (h, d, c\<lparr>cn_input := rest\<rparr>) \<and> fh_PacketType h = PUBLISH \<and>
    DecodePublish h d = Inr (built_publish topic payload qos packetID)"
  using publish_read_back [OF assms(1-4), of packetID rest] assms(5,6) by (auto simp: conn_read_def)

definition message_for :: "server_cfg \<Rightarrow> server \<Rightarrow> client \<Rightarrow> string \<Rightarrow> bytes \<Rightarrow> message" where
  "message_for cfg s cl topic payload =
     \<lparr>msg_ClientID = cl_ID cl, msg_Topic = topic, msg_Payload = payload, msg_Timezone = sc_timezone cfg,
      msg_Timestamp = sv_now s\<rparr>"

lemma do_read_built_publish:
  assumes "qos \<le> 2" "topic \<noteq> []" "length topic < 65536" "length payload < 200000000"
    and "conn_live (sv_now s) (ss_conn ss)"
    and "cn_input (ss_conn ss) = BuildPublishPacket topic payload qos packetID @ rest"
  shows "do_read cfg s i ss cl =
    (case Claim (sv_topics s) topic (cl_ID cl) of
       (None, r) \<Rightarrow> set_session (s\<lparr>sv_topics := r\<rparr>) i
          (ss\<lparr>ss_conn := (ss_conn ss)\<lparr>cn_input := rest\<rparr>,
              ss_phase := Sending cl (message_for cfg s cl topic payload) (if qos = 1 then EncodePuback packetID else [])\<rparr>)
     | (Some _, r) \<Rightarrow> set_session s i
          (enter_loop (sv_now s) cl
             (conn_write (sv_now s) (if qos = 1 then EncodePuback packetID else []) ((ss_conn ss)\<lparr>cn_input := rest\<rparr>)) ss))"
proof -
  obtain h d where "conn_read (sv_now s) (ss_conn ss) = Some (h, d, (ss_conn ss)\<lparr>cn_input := rest\<rparr>)"
    "fh_PacketType h = PUBLISH" "DecodePublish h d = Inr (built_publish topic payload qos packetID)"
    using conn_read_built_publish [OF assms(1-6)] by blast
  moreover have "snd (Claim (sv_topics s) topic (cl_ID cl)) = sv_topics s"
    if "fst (Claim (sv_topics s) topic (cl_ID cl)) \<noteq> None"
    using that by (auto simp: Claim_def split: option.splits)
  moreover have "qos > 0" if "qos = 1" using that by simp
  ultimately show ?thesis
    by (auto simp: do_read_def dispatch_def handlePublish_def built_publish_def puback_if_qos1_def message_for_def
        split: option.split prod.split)
qed

subsection \<open>A small server\<close>

definition demo_cfg :: server_cfg where
  "demo_cfg = \<lparr>sc_auth = NewEnvAuthenticator ''u'' ''p'', sc_timezone = ''UTC''\<rparr>"

definition demo_now :: gotime where
  "demo_now = \<lparr>tm_ns = 0, tm_off = 0\<rparr>"

abbreviation demo_packet :: "string \<Rightarrow> uint16 \<Rightarrow> bytes" where
  "demo_packet clientID keepAlive \<equiv> BuildConnectPacket clientID ''u'' ''p'' keepAlive"

definition demo_start :: server where
  "demo_start = NewServer \<lparr>reg_allowed = {''t''}, reg_owners = Map.empty\<rparr> (NewClientManager 1) (make_chan 1) demo_now"



lemma demo_init: "server_init [''t''] 1 1 demo_start"
proof -
  have "TrimSpace ''t'' = ''t''" by code_simp
  then have "NewTopicRegistry [''t''] = Inr \<lparr>reg_allowed = {''t''}, reg_owners = Map.empty\<rparr>"
    by (simp add: NewTopicRegistry_iff)
  then show ?thesis by (auto simp: server_init_def demo_start_def)
qed

lemma time_add_demo: "time_add demo_now d = \<lparr>tm_ns = d, tm_off = 0\<rparr>"
  by (simp add: demo_now_def time_add_def)

lemma live_demo: "conn_live demo_now c \<longleftrightarrow> \<not> cn_closed c \<and> (case cn_deadline c of None \<Rightarrow> True | Some d \<Rightarrow> 0 < tm_ns d)"
  by (simp add: conn_live_def demo_now_def Before_def split: option.split)

lemma auth_demo: "Authenticate (sc_auth demo_cfg) ''u'' ''p''"
  by (simp add: demo_cfg_def NewEnvAuthenticator_def Authenticate_def)


abbreviation demo_session :: "bytes \<Rightarrow> bytes \<Rightarrow> int \<Rightarrow> bool \<Rightarrow> phase \<Rightarrow> ConnectPacket option \<Rightarrow> session" where
  "demo_session input output deadline closed p pkt \<equiv>
     \<lparr>ss_conn = \<lparr>cn_input = input, cn_output = output, cn_deadline = Some \<lparr>tm_ns = deadline, tm_off = 0\<rparr>,
       cn_closed = closed\<rparr>, ss_phase = p, ss_packet = pkt, ss_accepted = demo_now\<rparr>"

lemma do_connect_demo:
  assumes "length clientID < 65536" "sv_now s = demo_now" "0 < d"
    and "Get (sv_connMgr s) clientID \<noteq> None \<or> CanAccept (sv_connMgr s)"
  shows "do_connect demo_cfg s i (demo_session (demo_packet clientID keepAlive @ rest) output d False p pkt) =
    (case Add (sv_connMgr s) (NewClient demo_now clientID i keepAlive) of (res, m) \<Rightarrow>
     set_session (s\<lparr>sv_connMgr := m, sv_sessions := close_conns (projr res) (sv_sessions s)\<rparr>) i
      (demo_session rest (output @ EncodeConnack False ConnAccepted)
         (if keepAlive = 0 then d else keep_alive_timeout keepAlive) False
         (InLoop (NewClient demo_now clientID i keepAlive)) (Some (built_connect clientID ''u'' ''p'' keepAlive))))"
proof -
  obtain closed m where "Add (sv_connMgr s) (NewClient demo_now clientID i keepAlive) = (Inr closed, m)"
    using assms(4) by (cases "Add (sv_connMgr s) (NewClient demo_now clientID i keepAlive)")
      (auto simp: Add_def Get_def CanAccept_def NewClient_def split: if_splits)
  with assms(1-3) show ?thesis
    by (subst do_connect_built [where keepAlive = keepAlive and rest = rest and closed = closed and m = m])
      (auto simp: auth_demo live_demo enter_loop_def ResetDeadline_def NewClient_def word_gt_0
        conn_write_def time_add_demo)
qed

lemmas do_connect_demo_all = do_connect_demo [where rest = "[]", simplified]

lemmas demo_exec_simps = demo_start_def NewServer_def NewClientManager_def make_chan_def
  CanAccept_def Count_def accept_conn_def Let_def time_add_demo connectTimeout_def second_def fcard_fempty
  fcard_finsert_if do_connect_demo do_connect_demo_all keep_alive_timeout_def Get_def Add_def close_conns_def
  NewClient_def

lemmas demo_simps = demo_exec_simps
  do_read_def conn_read_def conn_live_def conn_close_def do_release_def do_remove_def Release_def Remove_def
  active_def

lemma demo_reachable: "server_exec demo_cfg demo_start ls = Some s \<Longrightarrow> server_reach demo_cfg [''t''] 1 1 s"
  by (rule server_exec_reachable, assumption, rule reachable.intros(1), rule demo_init)

text \<open>A client connects, publishes one message at QoS 1 and the message goes to the channel.\<close>

definition demo_publish :: "(label \<times> bytes) list" where
  "demo_publish =
     [(LAccept 0, demo_packet ''A'' 60 @ BuildPublishPacket ''t'' [42] 1 7), (LConnect 0, []), (LRead 0, []), (LSend 0, [])]"

definition demo_message :: message where
  "demo_message = \<lparr>msg_ClientID = ''A'', msg_Topic = ''t'', msg_Payload = [42], msg_Timezone = ''UTC'', msg_Timestamp = demo_now\<rparr>"

lemma demo_message_payload: "demo_message\<lparr>msg_Payload := [42]\<rparr> = demo_message"
  by (simp add: demo_message_def)

lemma demo_connected_run:
  "\<exists>s ss cl. server_exec demo_cfg demo_start [(LAccept 0, demo_packet ''A'' 60 @ rest), (LConnect 0, [])] = Some s \<and>
     sv_sessions s 0 = Some ss \<and> ss_phase ss = InLoop cl \<and> conn_live (sv_now s) (ss_conn ss) \<and>
     cn_input (ss_conn ss) = rest \<and> cl_ID cl = ''A'' \<and> sv_log s = [] \<and> sv_now s = demo_now \<and>
     sv_topics s = \<lparr>reg_allowed = {''t''}, reg_owners = Map.empty\<rparr> \<and> sv_msgChan s = make_chan 1"
  by (simp add: demo_exec_simps live_demo)

lemma do_read_demo_publish:
  assumes "sv_now s = demo_now" "0 < d" "sv_topics s = \<lparr>reg_allowed = {''t''}, reg_owners = Map.empty\<rparr>" "cl_ID cl = ''A''"
    and "length payload \<le> 1000"
  shows "do_read demo_cfg s i (demo_session (BuildPublishPacket ''t'' payload 1 7) output d False p pkt) cl =
    set_session (s\<lparr>sv_topics := \<lparr>reg_allowed = {''t''}, reg_owners = [''t'' \<mapsto> ''A'']\<rparr>\<rparr>) i
      (demo_session [] output d False (Sending cl (demo_message\<lparr>msg_Payload := payload\<rparr>) (EncodePuback 7)) pkt)"
  by (subst do_read_built_publish [where topic = "''t''" and payload = payload and qos = 1 and packetID = 7 and rest = "[]"])
    (use assms in \<open>simp_all add: live_demo Claim_def message_for_def demo_message_def demo_cfg_def\<close>)

lemma demo_publish_run:
  "\<exists>s ss cl. server_exec demo_cfg demo_start demo_publish = Some s \<and> sv_log s = [demo_message] \<and>
     sv_sessions s 0 = Some ss \<and> ss_phase ss = InLoop cl \<and> cl_ID cl = ''A'' \<and>
     cn_output (ss_conn ss) = EncodeConnack False ConnAccepted @ EncodePuback 7"
  by (simp add: demo_publish_def demo_exec_simps do_read_demo_publish demo_message_payload chan_send_def after_send_def
      enter_loop_def ResetDeadline_def conn_write_def live_demo)

text \<open>A client without keep-alive, and a run in which a second client takes over the ID of the first.\<close>

lemma demo_keep_alive_run:
  "\<exists>s ss cl. server_exec demo_cfg demo_start [(LAccept 0, demo_packet ''A'' 0), (LConnect 0, [])] = Some s \<and>
     sv_sessions s 0 = Some ss \<and> ss_phase ss = InLoop cl \<and> cl_KeepAlive cl = 0 \<and>
     ss_accepted ss = demo_now \<and> sv_now s = demo_now"
  by (simp add: demo_simps)

definition demo_takeover :: "(label \<times> bytes) list" where
  "demo_takeover =
     [(LAccept 0, demo_packet ''A'' 60), (LAccept 1, demo_packet ''A'' 60), (LAccept 2, demo_packet ''B'' 60),
      (LConnect 0, []), (LConnect 1, []), (LRead 0, []), (LRelease 0, []), (LRemove 0, []), (LConnect 2, [])]"

lemma demo_takeover_run:
  "\<exists>s. server_exec demo_cfg demo_start demo_takeover = Some s \<and> {1, 2} \<subseteq> active s \<and>
     Get (sv_connMgr s) ''A'' = None \<and>
     (\<forall>i\<in>{1, 2}. \<exists>ss. sv_sessions s i = Some ss \<and> conn_live (sv_now s) (ss_conn ss))"
  by (simp add: demo_takeover_def demo_simps) (simp add: demo_now_def Before_def)

subsection \<open>Limits\<close>

text \<open>
  In every reachable state, whatever the interleaving, at most \<open>maxClients\<close> clients are
  registered, the channel holds at most its capacity, and only configured topics are owned.
\<close>

theorem server_limits:
  assumes "server_reach cfg topics maxClients bufSize s"
  shows "Count (sv_connMgr s) \<le> maxClients \<and> length (ch_buf (sv_msgChan s)) \<le> bufSize \<and>
    dom (reg_owners (sv_topics s)) \<subseteq> TrimSpace ` set topics"
  using mqtt.reachable_inv [OF assms] mqtt_consts.reachable_inv [OF assms]
  by (simp add: server_inv_def server_consts_def manager_inv_def chan_ok_def registry_inv_def)

theorem server_limits_witness:
  "\<exists>s. server_exec demo_cfg demo_start demo_publish = Some s \<and>
     Count (sv_connMgr s) \<le> 1 \<and> length (ch_buf (sv_msgChan s)) \<le> 1 \<and>
     dom (reg_owners (sv_topics s)) \<subseteq> TrimSpace ` set [''t'']"
proof -
  obtain s where s: "server_exec demo_cfg demo_start demo_publish = Some s" using demo_publish_run by blast
  with server_limits [OF demo_reachable [OF s]] show ?thesis by blast
qed

subsection \<open>Messages\<close>

lemma published_origin:
  assumes "server_reach cfg topics maxClients bufSize s" and "msg \<in> set (sv_log s)"
  shows "msg_Topic msg \<in> TrimSpace ` set topics \<and> msg_Timezone msg = sc_timezone cfg \<and>
    (\<exists>i ss pkt. sv_sessions s i = Some ss \<and> ss_packet ss = Some pkt \<and> cp_ClientID pkt = msg_ClientID msg \<and>
       HasUsername pkt \<and> Authenticate (sc_auth cfg) (cp_Username pkt) (string_of_bytes (cp_Password pkt)))"
  using mqtt_origin.reachable_inv [OF assms(1)] mqtt_consts.reachable_inv [OF assms(1)] assms(2)
  unfolding origin_inv_def server_inv_def server_consts_def origin_ok_def message_ok_def authenticated_def
  by metis

text \<open>
  C6. Every message the server ever handed to the ingestion channel is on a configured topic,
  carries the configured timezone, and carries the client ID of a session whose CONNECT packet
  passed authentication.
\<close>

theorem published_messages:
  assumes "server_reach cfg topics maxClients bufSize s" and "msg \<in> set (sv_log s)"
  shows "msg_Topic msg \<in> TrimSpace ` set topics \<and> msg_Timezone msg = sc_timezone cfg \<and>
    (\<exists>i ss pkt. sv_sessions s i = Some ss \<and> ss_packet ss = Some pkt \<and> cp_ClientID pkt = msg_ClientID msg \<and>
       HasUsername pkt \<and> Authenticate (sc_auth cfg) (cp_Username pkt) (string_of_bytes (cp_Password pkt)))"
  by (rule published_origin [OF assms])

theorem published_messages_witness:
  "\<exists>s. server_exec demo_cfg demo_start demo_publish = Some s \<and> demo_message \<in> set (sv_log s) \<and>
     (\<exists>i ss pkt. sv_sessions s i = Some ss \<and> ss_packet ss = Some pkt \<and> cp_ClientID pkt = ''A'' \<and>
        Authenticate (sc_auth demo_cfg) (cp_Username pkt) (string_of_bytes (cp_Password pkt)))"
proof -
  obtain s where s: "server_exec demo_cfg demo_start demo_publish = Some s" and m: "sv_log s = [demo_message]"
    using demo_publish_run by blast
  then have "demo_message \<in> set (sv_log s)" "msg_ClientID demo_message = ''A''"
    by (simp_all add: demo_message_def)
  with s published_messages [OF demo_reachable [OF s] this(1)] show ?thesis by auto
qed

subsection \<open>Sessions\<close>

text \<open>
  A session is past the CONNECT phase only with an authenticated CONNECT packet, and its client
  has the packet's ID and keep-alive and its own connection.
\<close>

theorem sessions_authenticated:
  assumes "server_reach cfg topics maxClients bufSize s"
    and "sv_sessions s i = Some ss" "phase_client (ss_phase ss) = Some cl"
  shows "cl_Conn cl = i \<and> (\<exists>pkt. ss_packet ss = Some pkt \<and> HasUsername pkt \<and>
    Authenticate (sc_auth cfg) (cp_Username pkt) (string_of_bytes (cp_Password pkt)) \<and>
    cl_ID cl = cp_ClientID pkt \<and> cl_KeepAlive cl = cp_KeepAlive pkt)"
  using session_ok_client(1) [OF server_inv_session [OF mqtt.reachable_inv [OF assms(1)] assms(2)] assms(3)]
  by (auto simp: client_ok_def authenticated_def)

theorem sessions_authenticated_witness:
  "\<exists>s ss pkt. server_exec demo_cfg demo_start demo_publish = Some s \<and> sv_sessions s 0 = Some ss \<and>
     ss_packet ss = Some pkt \<and> cp_ClientID pkt = ''A'' \<and> HasUsername pkt"
proof -
  obtain s ss cl where s: "server_exec demo_cfg demo_start demo_publish = Some s" "sv_sessions s 0 = Some ss"
    "ss_phase ss = InLoop cl" "cl_ID cl = ''A''" using demo_publish_run by blast
  then have "phase_client (ss_phase ss) = Some cl" by simp
  with sessions_authenticated [OF demo_reachable [OF s(1)] s(2) this] s show ?thesis by auto
qed

text \<open>
  A client that asks for no keep-alive (0) is still cut off five seconds after it was
  accepted: the deadline set for the CONNECT packet is never lifted, so the next read after it
  fails and the session ends, whatever the client sends.
\<close>

theorem keep_alive_zero_cut_off:
  assumes "server_reach cfg topics maxClients bufSize s"
    and "sv_sessions s i = Some ss" "ss_phase ss = InLoop cl" "cl_KeepAlive cl = 0"
    and "\<not> Before (sv_now s) (time_add (ss_accepted ss) (5 * second))"
    and "server_step cfg s (LRead i) t"
  shows "sv_sessions t i = Some (ss\<lparr>ss_phase := Releasing cl\<rparr>)"
proof -
  have "cn_deadline (ss_conn ss) = Some (connect_deadline ss)"
    using session_ok_client(2) [OF server_inv_session [OF mqtt.reachable_inv [OF assms(1)] assms(2)]] assms(3,4)
    by simp
  then have "conn_read (sv_now s) (ss_conn ss) = None"
    using assms(5) by (simp add: conn_read_def conn_live_def connect_deadline_def connectTimeout_def)
  with assms(2,3,6) show ?thesis by (auto simp: do_read_def elim!: server_step_readE)
qed

theorem keep_alive_zero_cut_off_witness:
  "\<exists>s t ss cl. server_reach demo_cfg [''t''] 1 1 s \<and> server_step demo_cfg s (LRead 0) t \<and>
     sv_now s = time_add demo_now (6 * second) \<and> sv_sessions t 0 = Some (ss\<lparr>ss_phase := Releasing cl\<rparr>)"
proof -
  obtain s ss cl where s: "server_exec demo_cfg demo_start [(LAccept 0, demo_packet ''A'' 0), (LConnect 0, [])] = Some s"
    "sv_sessions s 0 = Some ss" "ss_phase ss = InLoop cl" "cl_KeepAlive cl = 0" "ss_accepted ss = demo_now"
    "sv_now s = demo_now" using demo_keep_alive_run by blast
  let ?s = "s\<lparr>sv_now := time_add demo_now (6 * second)\<rparr>"
  have "server_step demo_cfg s LClock ?s"
    by (rule server_step.clock) (simp add: s Before_def second_def)
  then have reach: "server_reach demo_cfg [''t''] 1 1 ?s"
    using reachable.intros(2) [OF demo_reachable [OF s(1)]] by blast
  have step: "server_step demo_cfg ?s (LRead 0) (do_read demo_cfg ?s 0 ss cl)"
    by (rule server_step.read) (simp_all add: s)
  have "sv_sessions (do_read demo_cfg ?s 0 ss cl) 0 = Some (ss\<lparr>ss_phase := Releasing cl\<rparr>)"
    by (rule keep_alive_zero_cut_off [OF reach _ s(3,4) _ step]) (simp_all add: s Before_def second_def)
  with reach step show ?thesis by (intro exI [of _ ?s] exI) auto
qed

subsection \<open>Runs without takeover\<close>


lemma demo_calm_run:
  "\<exists>s. reachable (server_init [''t''] 1 1) (calm_step demo_cfg) s \<and> active s = {0}"
proof -
  let ?s = "accept_conn demo_start 0 (demo_packet ''A'' 60)"
  obtain ss t where ss: "sv_sessions ?s 0 = Some ss" "ss_phase ss = AwaitConnect" and
    t: "t = do_connect demo_cfg ?s 0 ss" "active t = {0}"
    by (simp add: demo_simps)
  have "\<not> takeover demo_cfg ?s 0"
    by (simp add: takeover_def demo_start_def NewServer_def NewClientManager_def Get_def accept_conn_def Let_def
        split: option.split prod.split connect_outcome.split)
  then have t': "calm_step demo_cfg ?s t"
    using server_step.connect [OF ss, of demo_cfg] t by (auto simp: calm_step_def)
  have "server_step demo_cfg demo_start (LAccept 0) ?s"
    by (rule server_step.accept) (simp_all add: demo_start_def NewServer_def)
  then have s': "calm_step demo_cfg demo_start ?s" by (auto simp: calm_step_def)
  have "reachable (server_init [''t''] 1 1) (calm_step demo_cfg) demo_start"
    by (rule reachable.intros(1), rule demo_init)
  then have "reachable (server_init [''t''] 1 1) (calm_step demo_cfg) ?s"
    using s' by (rule reachable.intros(2))
  then have "reachable (server_init [''t''] 1 1) (calm_step demo_cfg) t"
    using t' by (rule reachable.intros(2))
  with t(2) show ?thesis by blast
qed


text \<open>
  C38. A takeover breaks all of this. With \<open>maxClients = 1\<close> two sessions can be in their read loop
  at once with live connections, one of them not registered: the goroutine of the connection that
  was replaced removes, on its way out, the entry of the session that replaced it.
\<close>

theorem takeover_exceeds_limit:
  "\<exists>s. server_reach demo_cfg [''t''] 1 1 s \<and> cm_maxClients (sv_connMgr s) = 1 \<and> {1, 2} \<subseteq> active s \<and>
     (\<exists>ss. sv_sessions s 1 = Some ss \<and> conn_live (sv_now s) (ss_conn ss)) \<and>
     (\<exists>ss. sv_sessions s 2 = Some ss \<and> conn_live (sv_now s) (ss_conn ss)) \<and>
     Get (sv_connMgr s) ''A'' = None"
proof -
  obtain s where s: "server_exec demo_cfg demo_start demo_takeover = Some s" "{1, 2} \<subseteq> active s"
    "Get (sv_connMgr s) ''A'' = None"
    "\<forall>i\<in>{1, 2}. \<exists>ss. sv_sessions s i = Some ss \<and> conn_live (sv_now s) (ss_conn ss)"
    using demo_takeover_run by blast
  note reach = demo_reachable [OF s(1)]
  show ?thesis using reach s mqtt_consts.reachable_inv [OF reach] by (auto simp: server_consts_def)
qed

subsection \<open>A PUBLISH packet from the wire to the channel\<close>

text \<open>
  C9. A client in its read loop that sends a well-formed PUBLISH packet on a topic it may claim
  gets it delivered: the goroutine reads exactly this packet, owns the topic, sends exactly this
  message (its ID, topic, payload, the configured timezone, the time of reception) on the channel
  when there is room, and answers PUBACK with the packet ID if and only if the QoS is 1.
\<close>

theorem publish_delivered:
  assumes "sv_sessions s i = Some ss" "ss_phase ss = InLoop cl" "conn_live (sv_now s) (ss_conn ss)"
    and "cn_input (ss_conn ss) = BuildPublishPacket topic payload qos packetID @ rest"
    and "qos \<le> 2" "topic \<noteq> []" "length topic < 65536" "length payload < 200000000"
    and "topic \<in> reg_allowed (sv_topics s)" "reg_owners (sv_topics s) topic \<in> {None, Some (cl_ID cl)}"
    and "length (ch_buf (sv_msgChan s)) < ch_cap (sv_msgChan s)"
  shows "\<exists>t u ss'. server_step cfg s (LRead i) t \<and> server_step cfg t (LSend i) u \<and>
    reg_owners (sv_topics u) topic = Some (cl_ID cl) \<and> sv_log u = sv_log s @ [message_for cfg s cl topic payload] \<and>
    ch_buf (sv_msgChan u) = ch_buf (sv_msgChan s) @ [message_for cfg s cl topic payload] \<and>
    sv_sessions u i = Some ss' \<and> cn_input (ss_conn ss') = rest \<and>
    cn_output (ss_conn ss') = cn_output (ss_conn ss) @ (if qos = 1 then EncodePuback packetID else [])"
proof -
  let ?m = "message_for cfg s cl topic payload" and ?out = "if qos = 1 then EncodePuback packetID else []"
  obtain r where r: "Claim (sv_topics s) topic (cl_ID cl) = (None, r)" "reg_owners r topic = Some (cl_ID cl)"
    using assms(9,10) by (auto simp: Claim_def)
  let ?ss = "ss\<lparr>ss_conn := (ss_conn ss)\<lparr>cn_input := rest\<rparr>, ss_phase := Sending cl ?m ?out\<rparr>"
  let ?t = "set_session (s\<lparr>sv_topics := r\<rparr>) i ?ss"
  let ?ch = "(sv_msgChan s)\<lparr>ch_buf := ch_buf (sv_msgChan s) @ [?m]\<rparr>"
  have t: "server_step cfg s (LRead i) ?t"
    using server_step.read [of s i ss cl cfg, OF assms(1,2)]
    by (simp add: do_read_built_publish [OF assms(5-8,3,4)] r)
  let ?u = "after_send (?t\<lparr>sv_msgChan := ?ch, sv_log := sv_log s @ [?m]\<rparr>) i ?ss cl ?out"
  have u: "server_step cfg ?t (LSend i) ?u"
    using server_step.send [of ?t i ?ss cl ?m ?out ?ch cfg] assms(11) by (simp add: chan_send_def)
  have live: "conn_live (sv_now s) ((ss_conn ss)\<lparr>cn_input := rest\<rparr>)"
    using assms(3) by (simp add: conn_live_def)
  then have "cn_input (conn_write (sv_now s) ?out ((ss_conn ss)\<lparr>cn_input := rest\<rparr>)) = rest"
    "cn_output (conn_write (sv_now s) ?out ((ss_conn ss)\<lparr>cn_input := rest\<rparr>)) = cn_output (ss_conn ss) @ ?out"
    by (simp_all add: conn_write_def)
  then have "\<exists>ss'. sv_sessions ?u i = Some ss' \<and> cn_input (ss_conn ss') = rest \<and>
    cn_output (ss_conn ss') = cn_output (ss_conn ss) @ ?out"
    by (auto simp: after_send_def enter_loop_def split: prod.split option.split)
  then obtain ss' where ss': "sv_sessions ?u i = Some ss'" "cn_input (ss_conn ss') = rest"
    "cn_output (ss_conn ss') = cn_output (ss_conn ss) @ ?out" by blast
  have "sv_topics ?u = r" "sv_log ?u = sv_log s @ [?m]" "sv_msgChan ?u = ?ch" by (simp_all add: after_send_def)
  then show ?thesis
    by (intro exI [of _ ?t] exI [of _ ?u] exI [of _ ss'] conjI t u ss') (simp_all add: r)
qed

theorem publish_delivered_witness:
  "\<exists>s u. server_reach demo_cfg [''t''] 1 1 s \<and> (any_step demo_cfg)\<^sup>*\<^sup>* s u \<and> sv_log s = [] \<and> sv_log u = [demo_message]"
proof -
  obtain s ss cl where s: "server_exec demo_cfg demo_start [(LAccept 0, demo_packet ''A'' 60 @ BuildPublishPacket ''t'' [42] 1 7), (LConnect 0, [])] = Some s"
    "sv_sessions s 0 = Some ss" "ss_phase ss = InLoop cl" "conn_live (sv_now s) (ss_conn ss)"
    "cn_input (ss_conn ss) = BuildPublishPacket ''t'' [42] 1 7" "cl_ID cl = ''A''" "sv_log s = []" "sv_now s = demo_now"
    "sv_topics s = \<lparr>reg_allowed = {''t''}, reg_owners = Map.empty\<rparr>" "sv_msgChan s = make_chan 1"
    using demo_connected_run [of "BuildPublishPacket ''t'' [42] 1 7"] by blast
  have "\<exists>t u ss'. server_step demo_cfg s (LRead 0) t \<and> server_step demo_cfg t (LSend 0) u \<and>
      reg_owners (sv_topics u) ''t'' = Some (cl_ID cl) \<and> sv_log u = sv_log s @ [message_for demo_cfg s cl ''t'' [42]] \<and>
      ch_buf (sv_msgChan u) = ch_buf (sv_msgChan s) @ [message_for demo_cfg s cl ''t'' [42]] \<and>
      sv_sessions u 0 = Some ss' \<and> cn_input (ss_conn ss') = [] \<and>
      cn_output (ss_conn ss') = cn_output (ss_conn ss) @ (if (1 :: byte) = 1 then EncodePuback 7 else [])"
    by (rule publish_delivered [OF s(2-4)]) (simp_all add: s)
  then obtain t u where "any_step demo_cfg s t" "any_step demo_cfg t u" "sv_log u = [message_for demo_cfg s cl ''t'' [42]]"
    using s(7) by auto
  moreover have "message_for demo_cfg s cl ''t'' [42] = demo_message"
    by (simp add: message_for_def demo_message_def s demo_cfg_def)
  ultimately have "(any_step demo_cfg)\<^sup>*\<^sup>* s u" "sv_log u = [demo_message]"
    using converse_rtranclp_into_rtranclp [of "any_step demo_cfg" s t u] r_into_rtranclp [of "any_step demo_cfg" t u]
    by auto
  with demo_reachable [OF s(1)] s(7) show ?thesis by blast
qed

text \<open>
  C31. A PUBLISH packet on a topic that is not configured, or that another client owns, is dropped:
  no message is sent, no ownership changes, the connection stays open in its read loop, and at
  QoS 1 the client is still answered PUBACK.
\<close>

theorem publish_refused:
  assumes "sv_sessions s i = Some ss" "ss_phase ss = InLoop cl" "conn_live (sv_now s) (ss_conn ss)"
    and "cn_input (ss_conn ss) = BuildPublishPacket topic payload qos packetID @ rest"
    and "qos \<le> 2" "topic \<noteq> []" "length topic < 65536" "length payload < 200000000"
    and "topic \<notin> reg_allowed (sv_topics s) \<or> (\<exists>d. reg_owners (sv_topics s) topic = Some d \<and> d \<noteq> cl_ID cl)"
    and "server_step cfg s (LRead i) t"
  shows "\<exists>ss' cl'. sv_topics t = sv_topics s \<and> sv_log t = sv_log s \<and> sv_msgChan t = sv_msgChan s \<and>
    sv_sessions t i = Some ss' \<and> ss_phase ss' = InLoop cl' \<and> cl_ID cl' = cl_ID cl \<and>
    \<not> cn_closed (ss_conn ss') \<and> cn_input (ss_conn ss') = rest \<and>
    cn_output (ss_conn ss') = cn_output (ss_conn ss) @ (if qos = 1 then EncodePuback packetID else [])"
proof -
  let ?c = "conn_write (sv_now s) (if qos = 1 then EncodePuback packetID else []) ((ss_conn ss)\<lparr>cn_input := rest\<rparr>)"
  obtain e r where "Claim (sv_topics s) topic (cl_ID cl) = (Some e, r)"
    using assms(9) by (cases "topic \<in> reg_allowed (sv_topics s)") (auto simp: Claim_def)
  then have t: "t = set_session s i (enter_loop (sv_now s) cl ?c ss)"
    using assms(1,2,10) by (auto simp: do_read_built_publish [OF assms(5-8,3,4)] elim!: server_step_readE)
  have live: "conn_live (sv_now s) ((ss_conn ss)\<lparr>cn_input := rest\<rparr>)"
    using assms(3) by (simp add: conn_live_def)
  then have "\<not> cn_closed ?c" "cn_input ?c = rest"
    "cn_output ?c = cn_output (ss_conn ss) @ (if qos = 1 then EncodePuback packetID else [])"
    by (simp_all add: conn_write_def conn_live_def)
  with t show ?thesis
    by (auto simp: enter_loop_def split: prod.split option.split dest!: ResetDeadline_fields)
qed

theorem publish_refused_witness:
  "\<exists>s t. server_reach demo_cfg [''t''] 1 1 s \<and> server_step demo_cfg s (LRead 0) t \<and> sv_log t = [] \<and>
     (\<exists>ss cl. sv_sessions t 0 = Some ss \<and> ss_phase ss = InLoop cl)"
proof -
  obtain s ss cl where s: "server_exec demo_cfg demo_start [(LAccept 0, demo_packet ''A'' 60 @ BuildPublishPacket ''x'' [42] 1 7), (LConnect 0, [])] = Some s"
    "sv_sessions s 0 = Some ss" "ss_phase ss = InLoop cl" "conn_live (sv_now s) (ss_conn ss)"
    "cn_input (ss_conn ss) = BuildPublishPacket ''x'' [42] 1 7" "cl_ID cl = ''A''" "sv_log s = []"
    "sv_topics s = \<lparr>reg_allowed = {''t''}, reg_owners = Map.empty\<rparr>"
    using demo_connected_run [of "BuildPublishPacket ''x'' [42] 1 7"] by blast
  note step = server_step.read [OF s(2,3), of demo_cfg]
  have "cn_input (ss_conn ss) = BuildPublishPacket ''x'' [42] 1 7 @ []" by (simp add: s)
  from publish_refused [OF s(2-4) this _ _ _ _ _ step]
  have "\<exists>ss cl. sv_log (do_read demo_cfg s 0 ss cl) = []" "\<exists>ss' cl'. sv_log (do_read demo_cfg s 0 ss cl) = [] \<and>
     sv_sessions (do_read demo_cfg s 0 ss cl) 0 = Some ss' \<and> ss_phase ss' = InLoop cl'"
    by (auto simp: s)
  with step demo_reachable [OF s(1)] show ?thesis by blast
qed

end
