(* ===== verification/Pipeline.thy ===== *)
theory Pipeline
  imports Raw_Store
begin

section \<open>The ingestion pipeline (broker/ingestion)\<close>

text \<open>
  \<open>pipeline/pipeline.go\<close> and \<open>queue/queue.go\<close>: a router goroutine takes messages from the
  server's channel and puts each into the FIFO queue of its topic; every queue has one consumer
  goroutine that saves a message and forwards it to the dispatch channel. The goroutines meet in
  channels only, so the step relation has one rule per channel operation and per call of the
  store:
  \<^item> the router is at its \<open>select\<close> (\<open>RouterSelect\<close>), blocked in \<open>Enqueue\<close>, or returned;
  \<^item> a consumer is at its \<open>select\<close> (\<open>ConsumerSelect\<close>), about to save a message it received
    (\<open>Saving\<close>), blocked in forwarding a saved one (\<open>Forwarding\<close>), or returned, with the saved
    message it dropped when it was cancelled while forwarding.
  A send on a channel with a waiting receiver may pass the message directly (the \<open>handoff\<close>
  rules), which is the only way for a channel of capacity 0. \<open>pl_routed\<close>, \<open>pl_saves\<close> and
  \<open>pl_out\<close> are history: the messages of known topics that the router received, the calls of the
  store with their outcome, the messages sent on the dispatch channel.
\<close>

datatype router = RouterSelect | Enqueuing message | RouterDone

datatype consumer = ConsumerSelect | Saving message | Forwarding message | ConsumerDone "message list"

record pipeline =
  pl_queues :: "string \<rightharpoonup> message chan"
  pl_input :: "message chan"
  pl_dispatch :: "message chan"
  pl_router :: router
  pl_consumers :: "string \<Rightarrow> consumer"
  pl_db :: raw_table
  pl_ctxDone :: bool
  pl_routed :: "message list"
  pl_saves :: "(tx_fault \<times> message) list"
  pl_out :: "message list"

definition NewQueue :: "string \<Rightarrow> nat \<Rightarrow> message chan" where
  "NewQueue topic bufferSize = make_chan bufferSize"

fun new_queues :: "string list \<Rightarrow> nat \<Rightarrow> (string \<rightharpoonup> message chan) \<Rightarrow> (string \<rightharpoonup> message chan)" where
  "new_queues [] bufSize queues = queues"
| "new_queues (topic # topics) bufSize queues =
     new_queues topics bufSize (queues(topic \<mapsto> NewQueue topic bufSize))"

definition NewPipeline :: "string list \<Rightarrow> raw_table \<Rightarrow> message chan \<Rightarrow> message chan \<Rightarrow> nat \<Rightarrow> pipeline" where
  "NewPipeline topics db inputChan dispatchChan bufSize =
     \<lparr>pl_queues = new_queues topics bufSize Map.empty, pl_input = inputChan, pl_dispatch = dispatchChan,
      pl_router = RouterSelect, pl_consumers = (\<lambda>_. ConsumerSelect), pl_db = db, pl_ctxDone = False,
      pl_routed = [], pl_saves = [], pl_out = []\<rparr>"

definition QueueCount :: "pipeline \<Rightarrow> nat" where
  "QueueCount p = card (dom (pl_queues p))"

abbreviation set_consumer :: "pipeline \<Rightarrow> string \<Rightarrow> consumer \<Rightarrow> pipeline" where
  "set_consumer p t c \<equiv> p\<lparr>pl_consumers := (pl_consumers p)(t := c)\<rparr>"

abbreviation set_queue :: "pipeline \<Rightarrow> string \<Rightarrow> message chan \<Rightarrow> pipeline" where
  "set_queue p t q \<equiv> p\<lparr>pl_queues := (pl_queues p)(t \<mapsto> q)\<rparr>"

text \<open>The body of the router's loop for a message, up to \<open>Enqueue\<close>.\<close>

definition route :: "pipeline \<Rightarrow> message \<Rightarrow> pipeline" where
  "route p msg =
     (case pl_queues p (msg_Topic msg) of
        None \<Rightarrow> p
      | Some q \<Rightarrow> p\<lparr>pl_router := Enqueuing msg, pl_routed := pl_routed p @ [msg]\<rparr>)"

text \<open>The consumer's call of the store: a failed save skips the message.\<close>

definition save_step :: "tx_fault \<Rightarrow> pipeline \<Rightarrow> string \<Rightarrow> message \<Rightarrow> pipeline" where
  "save_step fault p t msg =
     (case SaveRawData fault (pl_db p) msg of
        (Some err, db) \<Rightarrow>
          set_consumer (p\<lparr>pl_db := db, pl_saves := pl_saves p @ [(fault, msg)]\<rparr>) t ConsumerSelect
      | (None, db) \<Rightarrow>
          set_consumer (p\<lparr>pl_db := db, pl_saves := pl_saves p @ [(fault, msg)]\<rparr>) t (Forwarding msg))"

definition forwarded :: "pipeline \<Rightarrow> string \<Rightarrow> message \<Rightarrow> pipeline" where
  "forwarded p t msg = set_consumer (p\<lparr>pl_out := pl_out p @ [msg]\<rparr>) t ConsumerSelect"

datatype plabel =
    PInput message | PInputHandoff message | PRoute | PEnqueue | PEnqueueHandoff string | PTake string
  | PSave string tx_fault | PForward string | PForwardHandoff string | PDispatch
  | PCancel | PStopRouter | PStopConsumer string | PStopForward string

inductive pipeline_step :: "pipeline \<Rightarrow> plabel \<Rightarrow> pipeline \<Rightarrow> bool" where
  input: "chan_send (pl_input p) msg = Some ch \<Longrightarrow> pipeline_step p (PInput msg) (p\<lparr>pl_input := ch\<rparr>)"
| input_handoff: "ch_buf (pl_input p) = [] \<Longrightarrow> pl_router p = RouterSelect \<Longrightarrow>
     pipeline_step p (PInputHandoff msg) (route p msg)"
| route: "pl_router p = RouterSelect \<Longrightarrow> chan_recv (pl_input p) = Some (msg, ch) \<Longrightarrow>
     pipeline_step p PRoute (route (p\<lparr>pl_input := ch\<rparr>) msg)"
| enqueue: "pl_router p = Enqueuing msg \<Longrightarrow> pl_queues p (msg_Topic msg) = Some q \<Longrightarrow>
     chan_send q msg = Some q' \<Longrightarrow>
     pipeline_step p PEnqueue ((set_queue p (msg_Topic msg) q')\<lparr>pl_router := RouterSelect\<rparr>)"
| enqueue_handoff: "pl_router p = Enqueuing msg \<Longrightarrow> t = msg_Topic msg \<Longrightarrow> pl_queues p t = Some q \<Longrightarrow>
     ch_buf q = [] \<Longrightarrow> pl_consumers p t = ConsumerSelect \<Longrightarrow>
     pipeline_step p (PEnqueueHandoff t) ((set_consumer p t (Saving msg))\<lparr>pl_router := RouterSelect\<rparr>)"
| take: "pl_queues p t = Some q \<Longrightarrow> pl_consumers p t = ConsumerSelect \<Longrightarrow>
     chan_recv q = Some (msg, q') \<Longrightarrow>
     pipeline_step p (PTake t) (set_consumer (set_queue p t q') t (Saving msg))"
| save: "pl_consumers p t = Saving msg \<Longrightarrow> pipeline_step p (PSave t fault) (save_step fault p t msg)"
| forward: "pl_consumers p t = Forwarding msg \<Longrightarrow> chan_send (pl_dispatch p) msg = Some ch \<Longrightarrow>
     pipeline_step p (PForward t) (forwarded (p\<lparr>pl_dispatch := ch\<rparr>) t msg)"
| forward_handoff: "pl_consumers p t = Forwarding msg \<Longrightarrow> ch_buf (pl_dispatch p) = [] \<Longrightarrow>
     pipeline_step p (PForwardHandoff t) (forwarded p t msg)"
| dispatch: "chan_recv (pl_dispatch p) = Some (msg, ch) \<Longrightarrow>
     pipeline_step p PDispatch (p\<lparr>pl_dispatch := ch\<rparr>)"
| cancel: "pipeline_step p PCancel (p\<lparr>pl_ctxDone := True\<rparr>)"
| stop_router: "pl_ctxDone p \<Longrightarrow> pl_router p = RouterSelect \<Longrightarrow>
     pipeline_step p PStopRouter (p\<lparr>pl_router := RouterDone\<rparr>)"
| stop_consumer: "pl_ctxDone p \<Longrightarrow> pl_consumers p t = ConsumerSelect \<Longrightarrow> pl_queues p t \<noteq> None \<Longrightarrow>
     pipeline_step p (PStopConsumer t) (set_consumer p t (ConsumerDone []))"
| stop_forward: "pl_ctxDone p \<Longrightarrow> pl_consumers p t = Forwarding msg \<Longrightarrow>
     pipeline_step p (PStopForward t) (set_consumer p t (ConsumerDone [msg]))"

definition pipeline_init :: "string list \<Rightarrow> nat \<Rightarrow> nat \<Rightarrow> raw_table \<Rightarrow> pipeline \<Rightarrow> bool" where
  "pipeline_init topics bufSize chanSize db p \<longleftrightarrow>
     p = NewPipeline topics db (make_chan chanSize) (make_chan chanSize) bufSize"

abbreviation any_pstep :: "pipeline \<Rightarrow> pipeline \<Rightarrow> bool" where
  "any_pstep p q \<equiv> \<exists>l. pipeline_step p l q"

abbreviation pipeline_reach :: "string list \<Rightarrow> nat \<Rightarrow> nat \<Rightarrow> raw_table \<Rightarrow> pipeline \<Rightarrow> bool" where
  "pipeline_reach topics bufSize chanSize db \<equiv> reachable (pipeline_init topics bufSize chanSize db) any_pstep"

lemma new_queues_eq:
  "new_queues topics n qs = (\<lambda>t. if t \<in> set topics then Some (make_chan n) else qs t)"
  by (induction topics arbitrary: qs) (auto simp: NewQueue_def fun_eq_iff)

lemma QueueCount_New: "QueueCount (NewPipeline topics db i d n) = card (set topics)"
proof -
  have "dom (new_queues topics n Map.empty) = set topics" by (auto simp: new_queues_eq dom_def)
  then show ?thesis by (simp add: QueueCount_def NewPipeline_def)
qed

subsection \<open>The invariant\<close>

definition saved :: "(tx_fault \<times> message) list \<Rightarrow> message list" where
  "saved saves = map snd (filter (\<lambda>(f, m). f = NoFault) saves)"

lemma saved_simps [simp]:
  "saved [] = []" "saved (xs @ ys) = saved xs @ saved ys"
  "saved [(f, m)] = (if f = NoFault then [m] else [])"
  by (simp_all add: saved_def)

fun saving :: "consumer \<Rightarrow> message list" where
  "saving (Saving m) = [m]"
| "saving _ = []"

fun pending :: "consumer \<Rightarrow> message list" where
  "pending (Forwarding m) = [m]"
| "pending (ConsumerDone ms) = ms"
| "pending _ = []"

fun enqueuing :: "router \<Rightarrow> message list" where
  "enqueuing (Enqueuing m) = [m]"
| "enqueuing _ = []"

text \<open>
  Per topic, every message that was routed is in exactly one place, and the places are in order:
  what the store was called for, what the consumer is about to save, the queue, what the router
  is about to enqueue. What was saved is what was forwarded and the one message in the consumer's
  hands.
\<close>

definition topic_inv :: "pipeline \<Rightarrow> string \<Rightarrow> message chan \<Rightarrow> bool" where
  "topic_inv p t q \<longleftrightarrow>
     of_topic t (pl_routed p) =
       of_topic t (map snd (pl_saves p)) @ saving (pl_consumers p t) @ ch_buf q @ of_topic t (enqueuing (pl_router p)) \<and>
     of_topic t (saved (pl_saves p)) = of_topic t (pl_out p) @ pending (pl_consumers p t) \<and>
     chan_ok q"

definition pipeline_inv :: "raw_table \<Rightarrow> pipeline \<Rightarrow> bool" where
  "pipeline_inv db p \<longleftrightarrow>
     pl_db p = db @ map raw_row_of (saved (pl_saves p)) \<and>
     (\<forall>t q. pl_queues p t = Some q \<longrightarrow> topic_inv p t q) \<and>
     (\<forall>t. pl_queues p t = None \<longrightarrow> pl_consumers p t = ConsumerSelect) \<and>
     (\<forall>m\<in>set (pl_routed p). pl_queues p (msg_Topic m) \<noteq> None) \<and>
     (\<forall>m\<in>set (map snd (pl_saves p)). pl_queues p (msg_Topic m) \<noteq> None) \<and>
     (\<forall>m\<in>set (pl_out p). pl_queues p (msg_Topic m) \<noteq> None) \<and>
     (\<forall>m. pl_router p = Enqueuing m \<longrightarrow> pl_queues p (msg_Topic m) \<noteq> None) \<and>
     chan_ok (pl_input p) \<and> chan_ok (pl_dispatch p)"

lemma of_topic_member: "m \<in> set (of_topic t ms) \<Longrightarrow> msg_Topic m = t"
  by (simp add: of_topic_def)

lemma topic_inv_topics:
  assumes "topic_inv p t q"
  shows "\<forall>m \<in> set (saving (pl_consumers p t)) \<union> set (ch_buf q) \<union> set (pending (pl_consumers p t)). msg_Topic m = t"
proof -
  from assms have r: "of_topic t (pl_routed p) =
      of_topic t (map snd (pl_saves p)) @ saving (pl_consumers p t) @ ch_buf q @ of_topic t (enqueuing (pl_router p))"
    and s: "of_topic t (saved (pl_saves p)) = of_topic t (pl_out p) @ pending (pl_consumers p t)"
    by (simp_all add: topic_inv_def)
  have "set (saving (pl_consumers p t)) \<union> set (ch_buf q) \<subseteq> set (of_topic t (pl_routed p))" unfolding r by auto
  moreover have "set (pending (pl_consumers p t)) \<subseteq> set (of_topic t (saved (pl_saves p)))" unfolding s by auto
  ultimately show ?thesis by (blast dest: of_topic_member)
qed

lemma pipeline_inv_topic: "pipeline_inv db p \<Longrightarrow> pl_queues p t = Some q \<Longrightarrow> topic_inv p t q"
  by (simp add: pipeline_inv_def)

lemma pipeline_inv_consumer: "pipeline_inv db p \<Longrightarrow> pl_consumers p t \<noteq> ConsumerSelect \<Longrightarrow> \<exists>q. pl_queues p t = Some q"
  by (cases "pl_queues p t") (auto simp: pipeline_inv_def)

lemma route_inv: "pipeline_inv db p \<Longrightarrow> pl_router p = RouterSelect \<Longrightarrow> pipeline_inv db (route p msg)"
  by (auto simp: route_def pipeline_inv_def topic_inv_def split: option.split)

lemma enqueue_inv:
  assumes "pipeline_inv db p" "pl_router p = Enqueuing msg" "pl_queues p (msg_Topic msg) = Some q"
    "chan_send q msg = Some q'"
  shows "pipeline_inv db ((set_queue p (msg_Topic msg) q')\<lparr>pl_router := RouterSelect\<rparr>)"
  using assms chan_send_Some [OF assms(4)] chan_ok_send [OF assms(4)]
  by (auto simp: pipeline_inv_def topic_inv_def)

lemma enqueue_handoff_inv:
  assumes "pipeline_inv db p" "pl_router p = Enqueuing msg" "pl_queues p (msg_Topic msg) = Some q"
    "ch_buf q = []" "pl_consumers p (msg_Topic msg) = ConsumerSelect"
  shows "pipeline_inv db ((set_consumer p (msg_Topic msg) (Saving msg))\<lparr>pl_router := RouterSelect\<rparr>)"
  using assms by (auto simp: pipeline_inv_def topic_inv_def)

lemma take_inv:
  assumes "pipeline_inv db p" "pl_queues p t = Some q" "pl_consumers p t = ConsumerSelect"
    "chan_recv q = Some (msg, q')"
  shows "pipeline_inv db (set_consumer (set_queue p t q') t (Saving msg))"
  using assms chan_recv_Some [OF assms(4)] chan_ok_recv [OF assms(4)]
  by (auto simp: pipeline_inv_def topic_inv_def)

lemma save_inv:
  assumes inv: "pipeline_inv db p" and c: "pl_consumers p t = Saving msg"
  shows "pipeline_inv db (save_step fault p t msg)"
proof -
  obtain q where q: "pl_queues p t = Some q" using pipeline_inv_consumer [OF inv, of t] c by auto
  have topic: "msg_Topic msg = t"
    using topic_inv_topics [OF pipeline_inv_topic [OF inv q]] c by simp
  have "SaveRawData fault (pl_db p) msg = (if fault = NoFault then None else fst (SaveRawData fault (pl_db p) msg),
      if fault = NoFault then pl_db p @ [raw_row_of msg] else pl_db p)"
    using raw_store.save_ok [of fault "pl_db p" msg] raw_store.save_fail [of fault "pl_db p" msg]
    by (cases "SaveRawData fault (pl_db p) msg") auto
  moreover have "fault \<noteq> NoFault \<Longrightarrow> fst (SaveRawData fault (pl_db p) msg) \<noteq> None"
    using raw_store.save_fail [of fault "pl_db p" msg] by simp
  ultimately show ?thesis
    using inv c q topic
    by (cases "fault = NoFault") (auto simp: save_step_def pipeline_inv_def topic_inv_def split: option.splits prod.splits)
qed

lemma forwarded_inv:
  assumes inv: "pipeline_inv db p" and c: "pl_consumers p t = Forwarding msg"
  shows "pipeline_inv db (forwarded p t msg)"
proof -
  obtain q where q: "pl_queues p t = Some q" using pipeline_inv_consumer [OF inv, of t] c by auto
  have topic: "msg_Topic msg = t"
    using topic_inv_topics [OF pipeline_inv_topic [OF inv q]] c by simp
  show ?thesis using inv c q topic by (auto simp: forwarded_def pipeline_inv_def topic_inv_def)
qed

lemma pipeline_inv_chans:
  "pipeline_inv db p \<Longrightarrow> chan_ok ch \<Longrightarrow> pipeline_inv db (p\<lparr>pl_input := ch\<rparr>)"
  "pipeline_inv db p \<Longrightarrow> chan_ok ch \<Longrightarrow> pipeline_inv db (p\<lparr>pl_dispatch := ch\<rparr>)"
  by (auto simp: pipeline_inv_def topic_inv_def)

lemma pipeline_inv_stop:
  "pipeline_inv db p \<Longrightarrow> pl_router p = RouterSelect \<Longrightarrow> pipeline_inv db (p\<lparr>pl_router := RouterDone\<rparr>)"
  "pipeline_inv db p \<Longrightarrow> pl_queues p t \<noteq> None \<Longrightarrow> pl_consumers p t = ConsumerSelect \<Longrightarrow>
     pipeline_inv db (set_consumer p t (ConsumerDone []))"
  "pipeline_inv db p \<Longrightarrow> pl_consumers p t = Forwarding msg \<Longrightarrow> pipeline_inv db (set_consumer p t (ConsumerDone [msg]))"
  by (auto simp: pipeline_inv_def topic_inv_def)

lemma pipeline_step_inv: "pipeline_step p l p' \<Longrightarrow> pipeline_inv db p \<Longrightarrow> pipeline_inv db p'"
proof (induction rule: pipeline_step.induct)
  case (input p msg ch)
  then show ?case by (auto intro: pipeline_inv_chans chan_ok_send)
next
  case (route p msg ch)
  then have "chan_ok ch" by (auto simp: pipeline_inv_def intro: chan_ok_recv)
  with route show ?case by (auto intro!: route_inv pipeline_inv_chans)
next
  case (forward p t msg ch)
  then show ?case by (auto intro!: forwarded_inv pipeline_inv_chans intro: chan_ok_send)
next
  case (dispatch p msg ch)
  then have "chan_ok ch" by (auto simp: pipeline_inv_def intro: chan_ok_recv)
  with dispatch show ?case by (auto intro: pipeline_inv_chans)
next
  case (cancel p)
  then show ?case by (simp add: pipeline_inv_def topic_inv_def)
next
  case (take p t q msg q')
  then show ?case by (intro take_inv)
qed (auto intro: route_inv enqueue_inv enqueue_handoff_inv save_inv forwarded_inv pipeline_inv_stop)

lemma pipeline_inv_init: "pipeline_init topics bufSize chanSize db p \<Longrightarrow> pipeline_inv db p"
  by (auto simp: pipeline_init_def NewPipeline_def pipeline_inv_def topic_inv_def new_queues_eq split: if_splits)

interpretation ingestion: invariant_system "pipeline_init topics bufSize chanSize db" any_pstep "pipeline_inv db"
  for topics bufSize chanSize db
  by unfold_locales (blast intro: pipeline_inv_init pipeline_step_inv)+

subsection \<open>Progress\<close>

text \<open>
  Internal steps are those of the pipeline's own goroutines and of the fan-out that receives from
  the dispatch channel: all but new input and the cancellation. Each lowers a weight: a message
  counts less the further it is.
\<close>

definition internal :: "plabel \<Rightarrow> bool" where
  "internal l \<longleftrightarrow> (case l of PInput _ \<Rightarrow> False | PInputHandoff _ \<Rightarrow> False | PCancel \<Rightarrow> False | _ \<Rightarrow> True)"

definition internal_step :: "pipeline \<Rightarrow> pipeline \<Rightarrow> bool" where
  "internal_step p q \<longleftrightarrow> (\<exists>l. internal l \<and> pipeline_step p l q)"

fun router_weight :: "router \<Rightarrow> nat" where
  "router_weight RouterSelect = 1"
| "router_weight (Enqueuing m) = 9"
| "router_weight RouterDone = 0"

fun consumer_weight :: "consumer \<Rightarrow> nat" where
  "consumer_weight ConsumerSelect = 1"
| "consumer_weight (Saving m) = 5"
| "consumer_weight (Forwarding m) = 3"
| "consumer_weight (ConsumerDone ms) = 0"

definition queue_weight :: "message chan option \<Rightarrow> nat" where
  "queue_weight q = (case q of None \<Rightarrow> 0 | Some ch \<Rightarrow> 6 * length (ch_buf ch))"

definition topic_weight :: "pipeline \<Rightarrow> string \<Rightarrow> nat" where
  "topic_weight p t = queue_weight (pl_queues p t) + consumer_weight (pl_consumers p t)"

definition weight :: "pipeline \<Rightarrow> nat" where
  "weight p = 10 * length (ch_buf (pl_input p)) + router_weight (pl_router p) +
     (\<Sum>t\<in>dom (pl_queues p). topic_weight p t) + length (ch_buf (pl_dispatch p))"

definition pipeline_static :: "string list \<Rightarrow> nat \<Rightarrow> nat \<Rightarrow> pipeline \<Rightarrow> bool" where
  "pipeline_static topics bufSize chanSize p \<longleftrightarrow>
     dom (pl_queues p) = set topics \<and> (\<forall>t q. pl_queues p t = Some q \<longrightarrow> ch_cap q = bufSize) \<and>
     ch_cap (pl_input p) = chanSize \<and> ch_cap (pl_dispatch p) = chanSize \<and>
     (pl_router p = RouterDone \<longrightarrow> pl_ctxDone p) \<and>
     (\<forall>t ms. pl_consumers p t = ConsumerDone ms \<longrightarrow> pl_ctxDone p)"

lemma pipeline_static_step:
  "pipeline_step p l p' \<Longrightarrow> pipeline_static topics n k p \<Longrightarrow> pipeline_static topics n k p'"
proof (induction rule: pipeline_step.induct)
  case (save p t msg fault)
  then show ?case
    by (auto simp: pipeline_static_def save_step_def split: prod.split option.split)
qed (auto simp: pipeline_static_def route_def forwarded_def split: option.splits dest: chan_send_Some chan_recv_Some)

interpretation ingestion_static: invariant_system "pipeline_init topics bufSize chanSize db" any_pstep
  "pipeline_static topics bufSize chanSize" for topics bufSize chanSize db
proof unfold_locales
  show "pipeline_static topics bufSize chanSize s" if "pipeline_init topics bufSize chanSize db s" for s
    using that by (auto simp: pipeline_init_def NewPipeline_def pipeline_static_def new_queues_eq dom_def split: if_splits)
qed (blast intro: pipeline_static_step)

lemma pipeline_static_queue:
  "pipeline_static topics n k p \<Longrightarrow> t \<in> set topics \<Longrightarrow> \<exists>q. pl_queues p t = Some q \<and> ch_cap q = n"
  unfolding pipeline_static_def by blast

lemma weight_upd:
  assumes "finite (dom (pl_queues p))" "t \<in> dom (pl_queues p)" "dom (pl_queues p') = dom (pl_queues p)"
    and "\<And>u. u \<noteq> t \<Longrightarrow> topic_weight p' u = topic_weight p u"
  shows "(\<Sum>u\<in>dom (pl_queues p'). topic_weight p' u) + topic_weight p t =
    (\<Sum>u\<in>dom (pl_queues p). topic_weight p u) + topic_weight p' t"
proof -
  have "(\<Sum>u\<in>dom (pl_queues p) - {t}. topic_weight p' u) = (\<Sum>u\<in>dom (pl_queues p) - {t}. topic_weight p u)"
    by (rule sum.cong) (use assms(4) in auto)
  then show ?thesis
    using assms(1-3) by (simp add: sum.remove [of "dom (pl_queues p)" t])
qed

lemma weight_less:
  assumes "finite (dom (pl_queues p))" "t \<in> dom (pl_queues p)" "dom (pl_queues p') = dom (pl_queues p)"
    and "\<And>u. u \<noteq> t \<Longrightarrow> topic_weight p' u = topic_weight p u"
    and "10 * length (ch_buf (pl_input p')) + router_weight (pl_router p') + topic_weight p' t + length (ch_buf (pl_dispatch p'))
      < 10 * length (ch_buf (pl_input p)) + router_weight (pl_router p) + topic_weight p t + length (ch_buf (pl_dispatch p))"
  shows "weight p' < weight p"
  using weight_upd [OF assms(1-4)] assms(5) by (simp add: weight_def)

lemma weight_route:
  "pl_router p = RouterSelect \<Longrightarrow> weight (route p msg) \<le> weight p + 8"
  by (simp add: route_def weight_def topic_weight_def split: option.split)

lemma internal_step_weight:
  assumes "internal_step p p'" "pipeline_inv db p" "finite (dom (pl_queues p))"
  shows "weight p' < weight p"
proof -
  from assms(1) obtain l where l: "internal l" "pipeline_step p l p'" by (auto simp: internal_step_def)
  from l(2,1) assms(2,3) show ?thesis
  proof (induction rule: pipeline_step.induct)
    case (route p msg ch)
    have "weight (p\<lparr>pl_input := ch\<rparr>) + 10 = weight p"
      using chan_recv_Some [OF route(2)] by (simp add: weight_def topic_weight_def)
    with weight_route [of "p\<lparr>pl_input := ch\<rparr>" msg] route(1) show ?case by simp
  next
    case (enqueue p msg q q')
    then show ?case
      using chan_send_Some [OF enqueue(3)]
      by (intro weight_less [of p "msg_Topic msg"]) (auto simp: topic_weight_def queue_weight_def)
  next
    case (enqueue_handoff p msg t q)
    then show ?case by (intro weight_less [of p t]) (auto simp: topic_weight_def queue_weight_def)
  next
    case (take p t q msg q')
    then show ?case
      using chan_recv_Some [OF take(3)]
      by (intro weight_less [of p t]) (auto simp: topic_weight_def queue_weight_def)
  next
    case (save p t msg fault)
    then have "t \<in> dom (pl_queues p)" using pipeline_inv_consumer [of db p t] by auto
    with save show ?case
      by (intro weight_less [of p t]) (auto simp: topic_weight_def save_step_def split: prod.split option.split)
  next
    case (forward p t msg ch)
    then have "t \<in> dom (pl_queues p)" using pipeline_inv_consumer [of db p t] by auto
    with forward chan_send_Some [OF forward(2)] show ?case
      by (intro weight_less [of p t]) (auto simp: topic_weight_def forwarded_def)
  next
    case (forward_handoff p t msg)
    then have "t \<in> dom (pl_queues p)" using pipeline_inv_consumer [of db p t] by auto
    with forward_handoff show ?case
      by (intro weight_less [of p t]) (auto simp: topic_weight_def forwarded_def)
  next
    case (dispatch p msg ch)
    then show ?case using chan_recv_Some [OF dispatch(1)] by (simp add: weight_def topic_weight_def)
  next
    case (stop_router p)
    then show ?case by (simp add: weight_def topic_weight_def)
  next
    case (stop_consumer p t)
    then show ?case by (intro weight_less [of p t]) (auto simp: topic_weight_def)
  next
    case (stop_forward p t msg)
    then have "t \<in> dom (pl_queues p)" using pipeline_inv_consumer [of db p t] by auto
    with stop_forward show ?case by (intro weight_less [of p t]) (auto simp: topic_weight_def)
  qed (simp_all add: internal_def)
qed

definition drained :: "pipeline \<Rightarrow> bool" where
  "drained p \<longleftrightarrow>
     ch_buf (pl_input p) = [] \<and> pl_router p = RouterSelect \<and> ch_buf (pl_dispatch p) = [] \<and>
     (\<forall>t q. pl_queues p t = Some q \<longrightarrow> ch_buf q = [] \<and> pl_consumers p t = ConsumerSelect)"

lemma internalI: "pipeline_step p l q \<Longrightarrow> internal l \<Longrightarrow> \<exists>q. internal_step p q"
  by (auto simp: internal_step_def)

text \<open>As long as the context is not cancelled, a pipeline with work left can make a step.\<close>

lemma consumer_progress:
  assumes "\<not> pl_ctxDone p" "pipeline_static topics n k p" "pl_queues p t = Some q"
    and "ch_buf q \<noteq> [] \<or> pl_consumers p t \<noteq> ConsumerSelect"
  shows "\<exists>p'. internal_step p p'"
proof (cases "pl_consumers p t")
  case ConsumerSelect
  with assms obtain m ms where "ch_buf q = m # ms" by (cases "ch_buf q") auto
  then have "chan_recv q = Some (m, q\<lparr>ch_buf := ms\<rparr>)" by (simp add: chan_recv_def)
  from pipeline_step.take [OF assms(3) ConsumerSelect this] show ?thesis by (rule internalI) (simp add: internal_def)
next
  case (Saving m)
  from pipeline_step.save [OF this, of NoFault] show ?thesis by (rule internalI) (simp add: internal_def)
next
  case (Forwarding m)
  show ?thesis
  proof (cases "ch_buf (pl_dispatch p)")
    case Nil
    from pipeline_step.forward_handoff [OF Forwarding Nil] show ?thesis by (rule internalI) (simp add: internal_def)
  next
    case (Cons x xs)
    then have "chan_recv (pl_dispatch p) = Some (x, (pl_dispatch p)\<lparr>ch_buf := xs\<rparr>)" by (simp add: chan_recv_def)
    from pipeline_step.dispatch [OF this] show ?thesis by (rule internalI) (simp add: internal_def)
  qed
next
  case (ConsumerDone ms)
  with assms show ?thesis by (auto simp: pipeline_static_def)
qed

lemma router_progress:
  assumes "\<not> pl_ctxDone p" "pipeline_static topics n k p" "pipeline_inv db p"
    and "ch_buf (pl_input p) \<noteq> [] \<or> pl_router p \<noteq> RouterSelect"
  shows "\<exists>p'. internal_step p p'"
proof (cases "pl_router p")
  case RouterSelect
  with assms obtain m ms where "ch_buf (pl_input p) = m # ms" by (cases "ch_buf (pl_input p)") auto
  then have "chan_recv (pl_input p) = Some (m, (pl_input p)\<lparr>ch_buf := ms\<rparr>)" by (simp add: chan_recv_def)
  from pipeline_step.route [OF RouterSelect this] show ?thesis by (rule internalI) (simp add: internal_def)
next
  case (Enqueuing m)
  then obtain q where q: "pl_queues p (msg_Topic m) = Some q" using assms(3) by (auto simp: pipeline_inv_def)
  show ?thesis
  proof (cases "ch_buf q \<noteq> [] \<or> pl_consumers p (msg_Topic m) \<noteq> ConsumerSelect")
    case True
    then show ?thesis by (rule consumer_progress [OF assms(1,2) q])
  next
    case False
    from pipeline_step.enqueue_handoff [OF Enqueuing refl q] False show ?thesis
      by (intro internalI) (auto simp: internal_def)
  qed
next
  case RouterDone
  with assms show ?thesis by (auto simp: pipeline_static_def)
qed

lemma progress:
  assumes "\<not> pl_ctxDone p" "pipeline_static topics n k p" "pipeline_inv db p" "\<not> drained p"
  shows "\<exists>p'. internal_step p p'"
proof (cases "ch_buf (pl_dispatch p)")
  case Nil
  with assms(4) consider "ch_buf (pl_input p) \<noteq> [] \<or> pl_router p \<noteq> RouterSelect"
    | t q where "pl_queues p t = Some q" "ch_buf q \<noteq> [] \<or> pl_consumers p t \<noteq> ConsumerSelect"
    unfolding drained_def by blast
  then show ?thesis
    by cases (rule router_progress [OF assms(1-3)], assumption, rule consumer_progress [OF assms(1,2)], assumption+)
next
  case (Cons x xs)
  then have "chan_recv (pl_dispatch p) = Some (x, (pl_dispatch p)\<lparr>ch_buf := xs\<rparr>)" by (simp add: chan_recv_def)
  from pipeline_step.dispatch [OF this] show ?thesis by (rule internalI) (simp add: internal_def)
qed

lemma internal_step_ctx: "internal_step p p' \<Longrightarrow> pl_ctxDone p' = pl_ctxDone p"
proof -
  assume "internal_step p p'"
  then obtain l where "internal l" "pipeline_step p l p'" by (auto simp: internal_step_def)
  from this(2,1) show ?thesis
    by (induction rule: pipeline_step.induct)
      (auto simp: internal_def route_def forwarded_def save_step_def split: option.splits prod.splits)
qed

lemma internal_step_any: "internal_step p q \<Longrightarrow> any_pstep p q"
  by (auto simp: internal_step_def)

lemma internal_steps_any: "internal_step\<^sup>*\<^sup>* p q \<Longrightarrow> any_pstep\<^sup>*\<^sup>* p q"
  by (rule rtranclp_mono [THEN predicate2D, rotated]) (auto dest: internal_step_any)

lemma drains:
  assumes "\<not> pl_ctxDone p" "pipeline_static topics n k p" "pipeline_inv db p"
  shows "\<exists>p'. internal_step\<^sup>*\<^sup>* p p' \<and> drained p'"
  using assms
proof (induction "weight p" arbitrary: p rule: less_induct)
  case less
  show ?case
  proof (cases "drained p")
    case False
    then obtain p' where p': "internal_step p p'" using progress [OF less.prems] by blast
    have fin: "finite (dom (pl_queues p))" using less.prems(2) by (simp add: pipeline_static_def)
    obtain l where "pipeline_step p l p'" using p' by (auto simp: internal_step_def)
    then have "pipeline_static topics n k p'" "pipeline_inv db p'"
      using less.prems pipeline_static_step pipeline_step_inv by blast+
    moreover have "weight p' < weight p" by (rule internal_step_weight [OF p' less.prems(3) fin])
    moreover have "\<not> pl_ctxDone p'" using internal_step_ctx [OF p'] less.prems(1) by simp
    ultimately obtain p'' where "internal_step\<^sup>*\<^sup>* p' p''" "drained p''" using less.hyps [of p'] by blast
    with p' show ?thesis by (blast intro: converse_rtranclp_into_rtranclp)
  qed blast
qed

lemma internal_run_bound:
  assumes "(internal_step ^^ m) p p'" "pipeline_static topics n k p" "pipeline_inv db p"
  shows "m + weight p' \<le> weight p"
  using assms
proof (induction m arbitrary: p)
  case (Suc m)
  then obtain r where r: "internal_step p r" "(internal_step ^^ m) r p'" by (metis relpowp_Suc_D2)
  obtain l where "pipeline_step p l r" using r(1) by (auto simp: internal_step_def)
  then have "m + weight p' \<le> weight r"
    using Suc r(2) pipeline_static_step pipeline_step_inv by blast
  moreover have "weight r < weight p"
    using internal_step_weight [OF r(1) Suc.prems(3)] Suc.prems(2) by (simp add: pipeline_static_def)
  ultimately show ?case by simp
qed simp

subsection \<open>A scheduler\<close>

fun pexec_step :: "pipeline \<Rightarrow> plabel \<Rightarrow> pipeline option" where
  "pexec_step p (PInput msg) = map_option (\<lambda>ch. p\<lparr>pl_input := ch\<rparr>) (chan_send (pl_input p) msg)"
| "pexec_step p PRoute =
     (if pl_router p = RouterSelect
      then map_option (\<lambda>(msg, ch). route (p\<lparr>pl_input := ch\<rparr>) msg) (chan_recv (pl_input p)) else None)"
| "pexec_step p PEnqueue =
     (case pl_router p of
        Enqueuing msg \<Rightarrow>
          (case pl_queues p (msg_Topic msg) of
             None \<Rightarrow> None
           | Some q \<Rightarrow>
             map_option (\<lambda>q'. (set_queue p (msg_Topic msg) q')\<lparr>pl_router := RouterSelect\<rparr>) (chan_send q msg))
      | _ \<Rightarrow> None)"
| "pexec_step p (PTake t) =
     (case pl_queues p t of
        None \<Rightarrow> None
      | Some q \<Rightarrow>
        if pl_consumers p t = ConsumerSelect
        then map_option (\<lambda>(msg, q'). set_consumer (set_queue p t q') t (Saving msg)) (chan_recv q) else None)"
| "pexec_step p (PSave t fault) =
     (case pl_consumers p t of Saving msg \<Rightarrow> Some (save_step fault p t msg) | _ \<Rightarrow> None)"
| "pexec_step p (PForward t) =
     (case pl_consumers p t of
        Forwarding msg \<Rightarrow>
          map_option (\<lambda>ch. forwarded (p\<lparr>pl_dispatch := ch\<rparr>) t msg) (chan_send (pl_dispatch p) msg)
      | _ \<Rightarrow> None)"
| "pexec_step p PCancel = Some (p\<lparr>pl_ctxDone := True\<rparr>)"
| "pexec_step p (PStopConsumer t) =
     (if pl_ctxDone p \<and> pl_consumers p t = ConsumerSelect \<and> pl_queues p t \<noteq> None
      then Some (set_consumer p t (ConsumerDone [])) else None)"
| "pexec_step p l = None"

fun pexec :: "pipeline \<Rightarrow> plabel list \<Rightarrow> pipeline option" where
  "pexec p [] = Some p"
| "pexec p (l # ls) = (case pexec_step p l of None \<Rightarrow> None | Some q \<Rightarrow> pexec q ls)"

lemma pexec_step_sound: "pexec_step p l = Some q \<Longrightarrow> pipeline_step p l q"
  by (cases l) (auto split: option.splits if_splits router.splits consumer.splits
      intro: pipeline_step.intros pipeline_step.take [simplified])

lemma pexec_reachable: "pexec p ls = Some q \<Longrightarrow> reachable init any_pstep p \<Longrightarrow> reachable init any_pstep q"
  by (induction p ls rule: pexec.induct)
    (auto split: option.splits intro: reachable.intros(2) pexec_step_sound)

subsection \<open>Properties\<close>


text \<open>
  A message is dispatched only after it was persisted: in every reachable state the table is
  the initial one followed by the messages whose save succeeded, and every message sent on the
  dispatch channel has its row among them.
\<close>

theorem persisted_before_dispatch:
  assumes "pipeline_reach topics bufSize chanSize db p"
  shows "pl_db p = db @ map raw_row_of (saved (pl_saves p)) \<and> set (pl_out p) \<subseteq> set (saved (pl_saves p))"
proof -
  note inv = ingestion.reachable_inv [OF assms]
  have "m \<in> set (saved (pl_saves p))" if "m \<in> set (pl_out p)" for m
  proof -
    have "pl_queues p (msg_Topic m) \<noteq> None" using inv that unfolding pipeline_inv_def by blast
    then obtain q where "pl_queues p (msg_Topic m) = Some q" by blast
    from pipeline_inv_topic [OF inv this]
    have "set (of_topic (msg_Topic m) (pl_out p)) \<subseteq> set (of_topic (msg_Topic m) (saved (pl_saves p)))"
      by (simp add: topic_inv_def)
    with that show ?thesis by (auto simp: of_topic_def)
  qed
  with inv show ?thesis by (auto simp: pipeline_inv_def)
qed

text \<open>
  C8. Until it is cancelled the pipeline never gets stuck and always drains: from every reachable
  state with the context live there is a run of internal steps to a state with all channels empty
  in which every routed message was handed to the store and every saved one was forwarded; and no
  run of internal steps is longer than the weight of the state.
\<close>

theorem pipeline_drains:
  assumes "pipeline_reach topics bufSize chanSize db p" and "\<not> pl_ctxDone p"
  shows "(\<exists>p'. internal_step\<^sup>*\<^sup>* p p' \<and> drained p' \<and>
      (\<forall>t\<in>set topics. of_topic t (map snd (pl_saves p')) = of_topic t (pl_routed p') \<and>
         of_topic t (pl_out p') = of_topic t (saved (pl_saves p')))) \<and>
    (\<forall>m p'. (internal_step ^^ m) p p' \<longrightarrow> m \<le> weight p) \<and>
    (\<not> drained p \<longrightarrow> (\<exists>p'. internal_step p p'))"
proof (intro conjI allI impI)
  note inv = ingestion.reachable_inv [OF assms(1)] and st = ingestion_static.reachable_inv [OF assms(1)]
  obtain p' where p': "internal_step\<^sup>*\<^sup>* p p'" "drained p'" using drains [OF assms(2) st inv] by blast
  have "pipeline_reach topics bufSize chanSize db p'"
    by (rule reachable_rtranclp [OF assms(1) internal_steps_any [OF p'(1)]])
  note inv' = ingestion.reachable_inv [OF this] and st' = ingestion_static.reachable_inv [OF this]
  have "of_topic t (map snd (pl_saves p')) = of_topic t (pl_routed p') \<and>
      of_topic t (pl_out p') = of_topic t (saved (pl_saves p'))" if t: "t \<in> set topics" for t
  proof -
    obtain q where "pl_queues p' t = Some q" using pipeline_static_queue [OF st' t] by blast
    with pipeline_inv_topic [OF inv' this] p'(2) show ?thesis by (simp add: topic_inv_def drained_def)
  qed
  with p' show "\<exists>p'. internal_step\<^sup>*\<^sup>* p p' \<and> drained p' \<and>
      (\<forall>t\<in>set topics. of_topic t (map snd (pl_saves p')) = of_topic t (pl_routed p') \<and>
         of_topic t (pl_out p') = of_topic t (saved (pl_saves p')))" by blast
  show "m \<le> weight p" if "(internal_step ^^ m) p r" for m r
    using internal_run_bound [OF that st inv] by simp
  show "\<exists>p'. internal_step p p'" if "\<not> drained p" using progress [OF assms(2) st inv that] .
qed

definition router_stuck :: "message \<Rightarrow> pipeline \<Rightarrow> bool" where
  "router_stuck m p \<longleftrightarrow>
     pl_router p = Enqueuing m \<and>
     (\<exists>q ms. pl_queues p (msg_Topic m) = Some q \<and> ch_cap q \<le> length (ch_buf q) \<and>
        pl_consumers p (msg_Topic m) = ConsumerDone ms)"

lemma router_stuck_step: "pipeline_step p l p' \<Longrightarrow> router_stuck m p \<Longrightarrow> router_stuck m p'"
proof (induction rule: pipeline_step.induct)
  case (save p t msg fault)
  then show ?case by (auto simp: router_stuck_def save_step_def split: prod.split option.split)
next
  case (enqueue p msg q q')
  then show ?case by (auto simp: router_stuck_def chan_send_def)
qed (auto simp: router_stuck_def forwarded_def)

definition stuck_demo :: "plabel list" where
  "stuck_demo =
     [PInput (sample_message ''t'' 1), PRoute, PEnqueue, PInput (sample_message ''t'' 2), PRoute,
      PCancel, PStopConsumer ''t'']"

text \<open>
  After the cancellation the router can be stuck for good: \<open>Enqueue\<close> does not look at the
  context, so when the queue is full and its consumer has returned, the router never returns,
  whatever happens next.
\<close>

theorem router_never_returns:
  "\<exists>p m. pipeline_reach [''t''] 1 1 [] p \<and> pl_ctxDone p \<and>
     {p'. any_pstep\<^sup>*\<^sup>* p p'} \<subseteq> {p'. pl_router p' = Enqueuing m}"
proof -
  let ?start = "NewPipeline [''t''] [] (make_chan 1) (make_chan 1) 1"
  have "\<exists>p. pexec ?start stuck_demo = Some p \<and> pl_ctxDone p \<and> router_stuck (sample_message ''t'' 2) p"
    by (simp add: stuck_demo_def NewPipeline_def NewQueue_def make_chan_def chan_send_def chan_recv_def route_def
        sample_message_def router_stuck_def)
  then obtain p where p: "pexec ?start stuck_demo = Some p" "pl_ctxDone p" "router_stuck (sample_message ''t'' 2) p" by blast
  have "pipeline_reach [''t''] 1 1 [] ?start"
    by (rule reachable.intros(1)) (simp add: pipeline_init_def)
  then have "pipeline_reach [''t''] 1 1 [] p" by (rule pexec_reachable [OF p(1)])
  moreover have "router_stuck (sample_message ''t'' 2) p'" if "any_pstep\<^sup>*\<^sup>* p p'" for p'
    using that p(3) by (induction rule: rtranclp_induct) (blast intro: router_stuck_step)+
  ultimately show ?thesis using p(2) unfolding router_stuck_def by blast
qed

subsection \<open>Witnesses\<close>

text \<open>Two messages on one topic, the first save fails, the second is forwarded; a third waits.\<close>

definition pipeline_demo :: "plabel list" where
  "pipeline_demo =
     [PInput (sample_message ''t'' 1), PRoute, PEnqueue, PTake ''t'', PSave ''t'' ExecFails,
      PInput (sample_message ''t'' 2), PRoute, PEnqueue, PTake ''t'', PSave ''t'' NoFault, PForward ''t'',
      PInput (sample_message ''t'' 3), PRoute]"

lemma pipeline_demo_run:
  "\<exists>p. pexec (NewPipeline [''t''] [] (make_chan 1) (make_chan 1) 1) pipeline_demo = Some p \<and>
     pl_out p = [sample_message ''t'' 2] \<and> \<not> pl_ctxDone p \<and> \<not> drained p \<and>
     pl_saves p = [(ExecFails, sample_message ''t'' 1), (NoFault, sample_message ''t'' 2)]"
  by (simp add: pipeline_demo_def NewPipeline_def NewQueue_def make_chan_def chan_send_def chan_recv_def route_def
      save_step_def SaveRawData_def forwarded_def sample_message_def drained_def)

lemma pipeline_demo_reach:
  "\<exists>p. pipeline_reach [''t''] 1 1 [] p \<and> pl_out p = [sample_message ''t'' 2] \<and> \<not> pl_ctxDone p \<and> \<not> drained p \<and>
     pl_saves p = [(ExecFails, sample_message ''t'' 1), (NoFault, sample_message ''t'' 2)]"
proof -
  have "pipeline_reach [''t''] 1 1 [] (NewPipeline [''t''] [] (make_chan 1) (make_chan 1) 1)"
    by (rule reachable.intros(1)) (simp add: pipeline_init_def)
  with pipeline_demo_run pexec_reachable show ?thesis by blast
qed


theorem persisted_before_dispatch_witness:
  "\<exists>p :: pipeline. pl_out p = [sample_message ''t'' 2] \<and> pl_db p = [raw_row_of (sample_message ''t'' 2)]"
proof -
  obtain p where p: "pipeline_reach [''t''] 1 1 [] p" "pl_out p = [sample_message ''t'' 2]"
    "pl_saves p = [(ExecFails, sample_message ''t'' 1), (NoFault, sample_message ''t'' 2)]"
    using pipeline_demo_reach by blast
  from persisted_before_dispatch [OF p(1)] p(2,3) show ?thesis by (auto simp: saved_def)
qed

theorem pipeline_drains_witness:
  "\<exists>p p'. \<not> drained p \<and> internal_step\<^sup>*\<^sup>* p p' \<and> drained p'"
proof -
  obtain p where p: "pipeline_reach [''t''] 1 1 [] p" "\<not> pl_ctxDone p" "\<not> drained p"
    using pipeline_demo_reach by blast
  from pipeline_drains [OF p(1,2)] p(3) show ?thesis by blast
qed

end
