(* ===== verification/Fanout.thy ===== *)
theory Fanout
  imports Message
begin

section \<open>The processing fan-out (processing/fanout)\<close>

text \<open>
  \<open>fanout.go\<close> as a step relation. \<open>Start\<close> selects between the context and the input channel; for
  a message it starts one goroutine per worker and waits for all of them. A goroutine's step runs
  its worker's \<open>Process\<close> on the worker's own state; an error and a panic, which is recovered, are
  logged. Workers share no state with each other, so the steps of the goroutines may come in any
  order. \<open>fo_received\<close> is a ghost: the messages taken from the channel so far.
\<close>

subsection \<open>Workers\<close>

datatype 'st outcome = ProcessOk 'st | ProcessErr string 'st | ProcessPanic string 'st

record 'st Worker =
  wk_Name :: string
  wk_Process :: "'st \<Rightarrow> message \<Rightarrow> 'st outcome"
  wk_Close :: "'st \<Rightarrow> string option"

datatype log_entry = WorkerPanicked string string | WorkerFailed string string string

fun outcome_state :: "'st outcome \<Rightarrow> 'st" where
  "outcome_state (ProcessOk st) = st"
| "outcome_state (ProcessErr err st) = st"
| "outcome_state (ProcessPanic r st) = st"

definition worker_log :: "string \<Rightarrow> message \<Rightarrow> 'st outcome \<Rightarrow> log_entry list" where
  "worker_log name msg res =
     (case res of
        ProcessOk st \<Rightarrow> []
      | ProcessErr err st \<Rightarrow> [WorkerFailed name (msg_Topic msg) err]
      | ProcessPanic r st \<Rightarrow> [WorkerPanicked name r])"

definition LoggerWorker :: "'st Worker" where
  "LoggerWorker = \<lparr>wk_Name = ''logger'', wk_Process = (\<lambda>st msg. ProcessOk st), wk_Close = (\<lambda>st. None)\<rparr>"

subsection \<open>State and steps\<close>

datatype phase = Selecting | Waiting message "nat list" | Returned

record 'st FanOut =
  fo_input :: "message chan"
  fo_closed :: bool
  fo_cancelled :: bool
  fo_phase :: phase
  fo_states :: "'st list"
  fo_log :: "log_entry list"
  fo_received :: "message list"

definition NewFanOut :: "nat \<Rightarrow> 'st list \<Rightarrow> 'st FanOut" where
  "NewFanOut capacity states =
     \<lparr>fo_input = make_chan capacity, fo_closed = False, fo_cancelled = False, fo_phase = Selecting,
      fo_states = states, fo_log = [], fo_received = []\<rparr>"

definition run_worker :: "'st Worker list \<Rightarrow> message \<Rightarrow> nat \<Rightarrow> 'st FanOut \<Rightarrow> 'st FanOut" where
  "run_worker workers msg i f =
     (let res = wk_Process (workers ! i) (fo_states f ! i) msg
      in f\<lparr>fo_states := (fo_states f)[i := outcome_state res],
           fo_log := fo_log f @ worker_log (wk_Name (workers ! i)) msg res\<rparr>)"

inductive fanout_step :: "'st Worker list \<Rightarrow> 'st FanOut \<Rightarrow> 'st FanOut \<Rightarrow> bool" for workers where
  fo_send: "chan_send (fo_input f) msg = Some c \<Longrightarrow> \<not> fo_closed f \<Longrightarrow> fanout_step workers f (f\<lparr>fo_input := c\<rparr>)"
| fo_close: "fanout_step workers f (f\<lparr>fo_closed := True\<rparr>)"
| fo_cancel: "fanout_step workers f (f\<lparr>fo_cancelled := True\<rparr>)"
| fo_done: "fo_phase f = Selecting \<Longrightarrow> fo_cancelled f \<Longrightarrow> fanout_step workers f (f\<lparr>fo_phase := Returned\<rparr>)"
| fo_eof: "fo_phase f = Selecting \<Longrightarrow> fo_closed f \<Longrightarrow> chan_recv (fo_input f) = None \<Longrightarrow>
    fanout_step workers f (f\<lparr>fo_phase := Returned\<rparr>)"
| fo_recv: "fo_phase f = Selecting \<Longrightarrow> chan_recv (fo_input f) = Some (msg, c) \<Longrightarrow>
    fanout_step workers f (f\<lparr>fo_input := c, fo_phase := Waiting msg [0..<length workers], fo_received := fo_received f @ [msg]\<rparr>)"
| fo_handoff: "fo_phase f = Selecting \<Longrightarrow> ch_buf (fo_input f) = [] \<Longrightarrow> \<not> fo_closed f \<Longrightarrow>
    fanout_step workers f (f\<lparr>fo_phase := Waiting msg [0..<length workers], fo_received := fo_received f @ [msg]\<rparr>)"
| fo_work: "fo_phase f = Waiting msg pending \<Longrightarrow> i \<in> set pending \<Longrightarrow>
    fanout_step workers f ((run_worker workers msg i f)\<lparr>fo_phase := Waiting msg (remove1 i pending)\<rparr>)"
| fo_wait: "fo_phase f = Waiting msg [] \<Longrightarrow> fanout_step workers f (f\<lparr>fo_phase := Selecting\<rparr>)"

fun close_loop :: "string option \<Rightarrow> 'st Worker list \<Rightarrow> 'st list \<Rightarrow> string option" where
  "close_loop firstErr (w # workers) (st # states) =
     close_loop (if wk_Close w st \<noteq> None \<and> firstErr = None then wk_Close w st else firstErr) workers states"
| "close_loop firstErr workers states = firstErr"

definition FanOut_Close :: "'st Worker list \<Rightarrow> 'st list \<Rightarrow> string option" where
  "FanOut_Close workers states = close_loop None workers states"

subsection \<open>Every worker sees every message\<close>

definition processed :: "'st Worker \<Rightarrow> 'st \<Rightarrow> message list \<Rightarrow> 'st" where
  "processed w st ms = foldl (\<lambda>st msg. outcome_state (wk_Process w st msg)) st ms"

lemma processed_snoc: "processed w st (ms @ [m]) = outcome_state (wk_Process w (processed w st ms) m)"
  by (simp add: processed_def)

text \<open>The messages that worker \<open>i\<close> has done with: all received ones, but for the last while it is
  still pending.\<close>

definition done_by :: "'st FanOut \<Rightarrow> nat \<Rightarrow> message list" where
  "done_by f i = (case fo_phase f of Waiting msg pending \<Rightarrow> if i \<in> set pending then butlast (fo_received f) else fo_received f
     | _ \<Rightarrow> fo_received f)"

definition fanout_inv :: "'st Worker list \<Rightarrow> 'st list \<Rightarrow> 'st FanOut \<Rightarrow> bool" where
  "fanout_inv workers sts f \<longleftrightarrow> length (fo_states f) = length workers \<and> chan_ok (fo_input f) \<and>
     (\<forall>i<length workers. fo_states f ! i = processed (workers ! i) (sts ! i) (done_by f i)) \<and>
     (case fo_phase f of Waiting msg pending \<Rightarrow> distinct pending \<and> set pending \<subseteq> {..<length workers} \<and>
        fo_received f \<noteq> [] \<and> last (fo_received f) = msg | _ \<Rightarrow> True)"

lemma fanout_inv_step:
  assumes "fanout_inv workers sts f" "fanout_step workers f f'"
  shows "fanout_inv workers sts f'"
  using assms(2)
proof cases
  case (fo_send msg c)
  then show ?thesis using assms(1) chan_ok_send [of "fo_input f" msg c]
    by (simp add: fanout_inv_def done_by_def split: phase.splits)
next
  case (fo_recv msg c)
  then show ?thesis using assms(1) chan_ok_recv [of "fo_input f" msg c] by (simp add: fanout_inv_def done_by_def lessThan_atLeast0)
next
  case (fo_handoff msg)
  then show ?thesis using assms(1) by (simp add: fanout_inv_def done_by_def lessThan_atLeast0)
next
  case (fo_work msg pending i)
  have i: "i < length workers" "distinct pending" "last (fo_received f) = msg" "fo_received f \<noteq> []" "length (fo_states f) = length workers"
    using assms(1) fo_work by (auto simp: fanout_inv_def)
  have "outcome_state (wk_Process (workers ! i) (fo_states f ! i) msg) = processed (workers ! i) (sts ! i) (fo_received f)"
    using assms(1) fo_work i processed_snoc [of "workers ! i" "sts ! i" "butlast (fo_received f)" msg]
    by (simp add: fanout_inv_def done_by_def) (metis append_butlast_last_id)
  then show ?thesis
    using assms(1) fo_work i
    by (auto simp: fanout_inv_def done_by_def run_worker_def Let_def nth_list_update)
next
  case (fo_wait msg)
  then show ?thesis using assms(1) by (simp add: fanout_inv_def done_by_def)
qed (use assms(1) in \<open>auto simp: fanout_inv_def done_by_def split: phase.splits\<close>)

interpretation fanout: invariant_system "\<lambda>f. f = NewFanOut cap sts \<and> length sts = length workers" "fanout_step workers" "fanout_inv workers sts"
  for cap sts and workers :: "'st Worker list"
proof unfold_locales
  show "fanout_inv workers sts f" if "f = NewFanOut cap sts \<and> length sts = length workers" for f
    using that by (simp add: fanout_inv_def NewFanOut_def done_by_def processed_def)
qed (rule fanout_inv_step)

subsection \<open>Claims\<close>

abbreviation "fanout_reachable cap sts workers \<equiv> reachable (\<lambda>f. f = NewFanOut cap sts \<and> length sts = length workers) (fanout_step workers)"

text \<open>C28. Every worker processes every message taken from the channel exactly once and in order,
  whatever the other workers do: in every reachable state its state is the result of processing, one
  after the other, the messages received, except the current one while its goroutine has not run.
  An error or a panic of a worker stops neither the others nor the fan-out.\<close>

theorem workers_see_every_message:
  assumes "fanout_reachable cap sts workers f" "i < length workers"
  shows "fo_states f ! i = foldl (\<lambda>st msg. outcome_state (wk_Process (workers ! i) st msg)) (sts ! i) (done_by f i) \<and>
    (fo_phase f = Selecting \<or> fo_phase f = Returned \<longrightarrow> done_by f i = fo_received f)"
  using fanout.reachable_inv [OF assms(1)] assms(2) by (auto simp: fanout_inv_def processed_def done_by_def)

definition panicking :: "nat Worker" where
  "panicking = \<lparr>wk_Name = ''p'', wk_Process = (\<lambda>n msg. ProcessPanic ''boom'' n), wk_Close = (\<lambda>n. Some ''late'')\<rparr>"

definition counting :: "nat Worker" where
  "counting = \<lparr>wk_Name = ''c'', wk_Process = (\<lambda>n msg. ProcessOk (n + 1)), wk_Close = (\<lambda>n. None)\<rparr>"

definition demo_msg :: message where
  "demo_msg = \<lparr>msg_ClientID = ''c1'', msg_Topic = ''s'', msg_Payload = [1], msg_Timezone = ''UTC'', msg_Timestamp = \<lparr>tm_ns = 0, tm_off = 0\<rparr>\<rparr>"

text \<open>The state after one message, handed over directly, that two workers have processed.\<close>

definition one_round :: "'st Worker list \<Rightarrow> message \<Rightarrow> 'st FanOut \<Rightarrow> 'st FanOut" where
  "one_round workers msg f =
     (run_worker workers msg 1 (run_worker workers msg 0
        (f\<lparr>fo_phase := Waiting msg [0, 1], fo_received := fo_received f @ [msg]\<rparr>)))\<lparr>fo_phase := Selecting\<rparr>"

lemma one_round_reachable:
  assumes "fanout_reachable cap sts workers f" "length workers = 2" "fo_phase f = Selecting" "ch_buf (fo_input f) = []" "\<not> fo_closed f"
  shows "fanout_reachable cap sts workers (one_round workers msg f)"
proof -
  let ?f1 = "f\<lparr>fo_phase := Waiting msg [0, 1], fo_received := fo_received f @ [msg]\<rparr>"
  let ?f2 = "(run_worker workers msg 0 ?f1)\<lparr>fo_phase := Waiting msg [1]\<rparr>"
  let ?f3 = "(run_worker workers msg 1 ?f2)\<lparr>fo_phase := Waiting msg []\<rparr>"
  have f1: "fanout_step workers f ?f1"
    using fo_handoff [OF assms(3-5), of workers msg] assms(2) by (simp add: upt_conv_Cons numeral_2_eq_2)
  have f2: "fanout_step workers ?f1 ?f2" using fo_work [of ?f1 msg "[0, 1]" 0 workers] by simp
  have f3: "fanout_step workers ?f2 ?f3" using fo_work [of ?f2 msg "[1]" 1 workers] by simp
  have f4: "fanout_step workers ?f3 (one_round workers msg f)"
    using fo_wait [of ?f3 msg workers] by (simp add: one_round_def run_worker_def Let_def)
  show ?thesis
    by (rule reachable_step [OF reachable_step [OF reachable_step [OF reachable_step [OF assms(1) f1] f2] f3] f4])
qed

theorem workers_see_every_message_witness:
  "let f = one_round [panicking, counting] demo_msg (NewFanOut 0 [0, 0]) in
   fo_received f = [demo_msg] \<and> fo_states f ! 1 = 1 \<and> length (fo_log f) = 1 \<and>
   fo_states f ! 1 = foldl (\<lambda>st msg. outcome_state (wk_Process counting st msg)) 0 [demo_msg]"
proof -
  have "fanout_reachable 0 [0, 0] [panicking, counting] (one_round [panicking, counting] demo_msg (NewFanOut 0 [0, 0]))"
    by (rule one_round_reachable) (simp_all add: reachable_init, simp_all add: NewFanOut_def make_chan_def)
  from workers_see_every_message [OF this, of 1] show ?thesis
    by (simp add: one_round_def run_worker_def NewFanOut_def panicking_def counting_def worker_log_def Let_def done_by_def)
qed

lemma work_off:
  "fo_phase f = Waiting msg pending \<Longrightarrow>
   \<exists>f'. (fanout_step workers ^^ (length pending + 1)) f f' \<and> fo_phase f' = Selecting \<and> fo_received f' = fo_received f"
proof (induction pending arbitrary: f)
  case Nil
  have "fanout_step workers f (f\<lparr>fo_phase := Selecting\<rparr>)" by (rule fo_wait [OF Nil])
  then show ?case by (intro exI [of _ "f\<lparr>fo_phase := Selecting\<rparr>"]) auto
next
  case (Cons i pending)
  let ?g = "(run_worker workers msg i f)\<lparr>fo_phase := Waiting msg pending\<rparr>"
  have step: "fanout_step workers f ?g" using fo_work [OF Cons.prems, of i workers] by simp
  obtain f' where "(fanout_step workers ^^ (length pending + 1)) ?g f'" "fo_phase f' = Selecting" "fo_received f' = fo_received ?g"
    using Cons.IH [of ?g] by auto
  with step show ?case
    by (intro exI [of _ f']) (auto simp: run_worker_def Let_def relpowp_Suc_I2 simp del: relpowp.simps)
qed

text \<open>A started message is finished, provided \<open>Process\<close> returns as the contract of workers asks:
  while the fan-out waits, every pending goroutine can run at once, whatever the others do; a step
  either takes one goroutine off the pending ones, or leaves them alone, or, with none pending, goes
  back to the select; so the fan-out selects again after one step per pending worker and one more.\<close>

theorem fan_out_finishes:
  assumes "fo_phase f = Waiting msg pending"
  shows "(\<exists>f'. (fanout_step workers ^^ (length pending + 1)) f f' \<and> fo_phase f' = Selecting \<and> fo_received f' = fo_received f) \<and>
    (\<forall>i\<in>set pending. \<exists>f'. fanout_step workers f f' \<and> fo_phase f' = Waiting msg (remove1 i pending)) \<and>
    (\<forall>f'. fanout_step workers f f' \<longrightarrow> fo_phase f' = Waiting msg pending \<or>
       (\<exists>i\<in>set pending. fo_phase f' = Waiting msg (remove1 i pending)) \<or> pending = [] \<and> fo_phase f' = Selecting)"
proof (intro conjI ballI allI impI)
  show "\<exists>f'. (fanout_step workers ^^ (length pending + 1)) f f' \<and> fo_phase f' = Selecting \<and> fo_received f' = fo_received f"
    by (rule work_off [OF assms])
  show "\<exists>f'. fanout_step workers f f' \<and> fo_phase f' = Waiting msg (remove1 i pending)" if "i \<in> set pending" for i
    by (rule exI, rule conjI, rule fo_work [OF assms that]) simp
  show "fo_phase f' = Waiting msg pending \<or> (\<exists>i\<in>set pending. fo_phase f' = Waiting msg (remove1 i pending)) \<or>
      pending = [] \<and> fo_phase f' = Selecting" if "fanout_step workers f f'" for f'
    using that assms by cases auto
qed

theorem fan_out_finishes_witness:
  "\<exists>f'. (fanout_step [panicking, counting] ^^ 3) ((NewFanOut 1 [0, 0])\<lparr>fo_phase := Waiting demo_msg [0, 1]\<rparr>) f' \<and> fo_phase f' = Selecting"
  using fan_out_finishes [of "(NewFanOut 1 [0, 0])\<lparr>fo_phase := Waiting demo_msg [0, 1]\<rparr>" demo_msg "[0, 1]" "[panicking, counting]"]
  by (auto simp: numeral_3_eq_3 simp del: relpowp.simps)

end
