(* ===== verification/Broker_System.thy ===== *)
theory Broker_System
  imports Server_Properties Pipeline Fanout
begin

section \<open>The running broker: server, pipeline and fan-out (bootstrap/server.go)\<close>

text \<open>
  \<open>StartServers\<close> starts the server, the pipeline and the fan-out, each in goroutines of its own. They
  share two channels, made by \<open>InitModules\<close>: \<open>msgChan\<close> from the server to the router, \<open>processChan\<close> from
  the consumers to the fan-out, and one context. Each of the three relations has its own view of a
  channel; here the views are joined: a step on a shared channel is a step of both parties at once,
  every other step is a step of one.
\<close>

record 'st broker =
  bk_server :: server
  bk_pipeline :: pipeline
  bk_fanout :: "'st FanOut"

definition server_internal :: "label \<Rightarrow> bool" where
  "server_internal l \<longleftrightarrow> (case l of LSend _ \<Rightarrow> False | LHandoff _ \<Rightarrow> False | LReceive \<Rightarrow> False | LCancel \<Rightarrow> False | _ \<Rightarrow> True)"

definition pipeline_internal :: "plabel \<Rightarrow> bool" where
  "pipeline_internal l \<longleftrightarrow> (case l of PInput _ \<Rightarrow> False | PInputHandoff _ \<Rightarrow> False | PRoute \<Rightarrow> False | PForward _ \<Rightarrow> False
     | PForwardHandoff _ \<Rightarrow> False | PDispatch \<Rightarrow> False | PCancel \<Rightarrow> False | _ \<Rightarrow> True)"

definition fanout_received :: "'st Worker list \<Rightarrow> message \<Rightarrow> 'st FanOut \<Rightarrow> 'st FanOut" where
  "fanout_received workers msg f = f\<lparr>fo_phase := Waiting msg [0..<length workers], fo_received := fo_received f @ [msg]\<rparr>"

inductive broker_step :: "server_cfg \<Rightarrow> 'st Worker list \<Rightarrow> 'st broker \<Rightarrow> 'st broker \<Rightarrow> bool" for cfg workers where
  serve: "server_step cfg s l s' \<Longrightarrow> server_internal l \<Longrightarrow>
    broker_step cfg workers \<lparr>bk_server = s, bk_pipeline = p, bk_fanout = f\<rparr> \<lparr>bk_server = s', bk_pipeline = p, bk_fanout = f\<rparr>"
| publish: "server_step cfg s (LSend i) s' \<Longrightarrow> sv_log s' = sv_log s @ [msg] \<Longrightarrow> pipeline_step p (PInput msg) p' \<Longrightarrow>
    broker_step cfg workers \<lparr>bk_server = s, bk_pipeline = p, bk_fanout = f\<rparr> \<lparr>bk_server = s', bk_pipeline = p', bk_fanout = f\<rparr>"
| publish_handoff: "server_step cfg s (LHandoff i) s' \<Longrightarrow> sv_log s' = sv_log s @ [msg] \<Longrightarrow> pipeline_step p (PInputHandoff msg) p' \<Longrightarrow>
    broker_step cfg workers \<lparr>bk_server = s, bk_pipeline = p, bk_fanout = f\<rparr> \<lparr>bk_server = s', bk_pipeline = p', bk_fanout = f\<rparr>"
| ingest: "server_step cfg s LReceive s' \<Longrightarrow> pipeline_step p PRoute p' \<Longrightarrow>
    broker_step cfg workers \<lparr>bk_server = s, bk_pipeline = p, bk_fanout = f\<rparr> \<lparr>bk_server = s', bk_pipeline = p', bk_fanout = f\<rparr>"
| pipe: "pipeline_step p l p' \<Longrightarrow> pipeline_internal l \<Longrightarrow>
    broker_step cfg workers \<lparr>bk_server = s, bk_pipeline = p, bk_fanout = f\<rparr> \<lparr>bk_server = s, bk_pipeline = p', bk_fanout = f\<rparr>"
| forward: "pipeline_step p (PForward t) p' \<Longrightarrow> pl_out p' = pl_out p @ [msg] \<Longrightarrow> \<not> fo_closed f \<Longrightarrow> chan_send (fo_input f) msg = Some c \<Longrightarrow>
    broker_step cfg workers \<lparr>bk_server = s, bk_pipeline = p, bk_fanout = f\<rparr> \<lparr>bk_server = s, bk_pipeline = p', bk_fanout = f\<lparr>fo_input := c\<rparr>\<rparr>"
| forward_handoff: "pipeline_step p (PForwardHandoff t) p' \<Longrightarrow> pl_out p' = pl_out p @ [msg] \<Longrightarrow>
    fo_phase f = Selecting \<Longrightarrow> ch_buf (fo_input f) = [] \<Longrightarrow> \<not> fo_closed f \<Longrightarrow>
    broker_step cfg workers \<lparr>bk_server = s, bk_pipeline = p, bk_fanout = f\<rparr> \<lparr>bk_server = s, bk_pipeline = p', bk_fanout = fanout_received workers msg f\<rparr>"
| deliver: "pipeline_step p PDispatch p' \<Longrightarrow> fo_phase f = Selecting \<Longrightarrow> chan_recv (fo_input f) = Some (msg, c) \<Longrightarrow>
    broker_step cfg workers \<lparr>bk_server = s, bk_pipeline = p, bk_fanout = f\<rparr>
      \<lparr>bk_server = s, bk_pipeline = p', bk_fanout = fanout_received workers msg (f\<lparr>fo_input := c\<rparr>)\<rparr>"
| work: "fo_phase f = Waiting msg pending_workers \<Longrightarrow> i \<in> set pending_workers \<Longrightarrow>
    broker_step cfg workers \<lparr>bk_server = s, bk_pipeline = p, bk_fanout = f\<rparr>
      \<lparr>bk_server = s, bk_pipeline = p, bk_fanout = (run_worker workers msg i f)\<lparr>fo_phase := Waiting msg (remove1 i pending_workers)\<rparr>\<rparr>"
| waited: "fo_phase f = Waiting msg [] \<Longrightarrow>
    broker_step cfg workers \<lparr>bk_server = s, bk_pipeline = p, bk_fanout = f\<rparr> \<lparr>bk_server = s, bk_pipeline = p, bk_fanout = f\<lparr>fo_phase := Selecting\<rparr>\<rparr>"
| stop_fanout: "fo_phase f = Selecting \<Longrightarrow> fo_cancelled f \<Longrightarrow>
    broker_step cfg workers \<lparr>bk_server = s, bk_pipeline = p, bk_fanout = f\<rparr> \<lparr>bk_server = s, bk_pipeline = p, bk_fanout = f\<lparr>fo_phase := Returned\<rparr>\<rparr>"
| cancel_all: "server_step cfg s LCancel s' \<Longrightarrow> pipeline_step p PCancel p' \<Longrightarrow>
    broker_step cfg workers \<lparr>bk_server = s, bk_pipeline = p, bk_fanout = f\<rparr>
      \<lparr>bk_server = s', bk_pipeline = p', bk_fanout = f\<lparr>fo_cancelled := True\<rparr>\<rparr>"

definition broker_init :: "string list \<Rightarrow> int \<Rightarrow> nat \<Rightarrow> raw_table \<Rightarrow> 'st list \<Rightarrow> 'st Worker list \<Rightarrow> 'st broker \<Rightarrow> bool" where
  "broker_init topics maxClients bufSize db sts workers b \<longleftrightarrow>
     server_init topics maxClients bufSize (bk_server b) \<and> pipeline_init topics bufSize bufSize db (bk_pipeline b) \<and>
     bk_fanout b = NewFanOut bufSize sts \<and> length sts = length workers"

abbreviation broker_reach ::
  "server_cfg \<Rightarrow> string list \<Rightarrow> int \<Rightarrow> nat \<Rightarrow> raw_table \<Rightarrow> 'st list \<Rightarrow> 'st Worker list \<Rightarrow> 'st broker \<Rightarrow> bool"
where
  "broker_reach cfg topics maxClients bufSize db sts workers \<equiv>
     reachable (broker_init topics maxClients bufSize db sts workers) (broker_step cfg workers)"

subsection \<open>Each part behaves as it does alone\<close>

lemma broker_step_parts:
  assumes "broker_step cfg workers b b'"
  shows "(any_step cfg)\<^sup>=\<^sup>= (bk_server b) (bk_server b')" "any_pstep\<^sup>=\<^sup>= (bk_pipeline b) (bk_pipeline b')"
    "(fanout_step workers)\<^sup>=\<^sup>= (bk_fanout b) (bk_fanout b')"
proof -
  show "(any_step cfg)\<^sup>=\<^sup>= (bk_server b) (bk_server b')" using assms by cases auto
  show "any_pstep\<^sup>=\<^sup>= (bk_pipeline b) (bk_pipeline b')" using assms by cases auto
  show "(fanout_step workers)\<^sup>=\<^sup>= (bk_fanout b) (bk_fanout b')"
    using assms
  proof cases
    case (forward_handoff p t p' msg f s)
    with fo_handoff [of f workers msg] show ?thesis by (auto simp: fanout_received_def)
  next
    case (deliver p p' f msg c s)
    with fo_recv [of f msg c workers] show ?thesis by (auto simp: fanout_received_def)
  qed (auto intro: fanout_step.intros)
qed

lemma reachable_projection:
  assumes "reachable init step s" "\<And>s. init s \<Longrightarrow> init' (h s)" "\<And>s t. step s t \<Longrightarrow> step'\<^sup>=\<^sup>= (h s) (h t)"
  shows "reachable init' step' (h s)"
  using assms(1)
proof (induction rule: reachable.induct)
  case (reachable_step s t)
  from assms(3) [OF reachable_step(2)] reachable_step(3) show ?case by (auto intro: reachable.intros(2))
qed (auto intro: reachable.intros(1) assms(2))

lemma broker_reach_parts:
  assumes "broker_reach cfg topics maxClients bufSize db sts workers b"
  shows "server_reach cfg topics maxClients bufSize (bk_server b)" "pipeline_reach topics bufSize bufSize db (bk_pipeline b)"
    "fanout_reachable bufSize sts workers (bk_fanout b)"
  by (rule reachable_projection [OF assms], simp add: broker_init_def, rule broker_step_parts, assumption)+

subsection \<open>What the parts share\<close>

lemma server_internal_step:
  "server_step cfg s l s' \<Longrightarrow> server_internal l \<Longrightarrow> sv_msgChan s' = sv_msgChan s \<and> sv_log s' = sv_log s"
  by (cases rule: server_step.cases)
    (auto simp: server_internal_def accept_conn_def do_connect_def do_read_def after_send_def do_release_def do_remove_def do_close_all_def Let_def
      split: option.splits prod.splits connect_outcome.splits loop_outcome.splits)

lemma pipeline_internal_step:
  "pipeline_step p l p' \<Longrightarrow> pipeline_internal l \<Longrightarrow>
   pl_input p' = pl_input p \<and> pl_dispatch p' = pl_dispatch p \<and> pl_routed p' = pl_routed p \<and> pl_out p' = pl_out p"
  by (cases rule: pipeline_step.cases)
    (auto simp: pipeline_internal_def save_step_def split: prod.splits option.splits)

definition known :: "string list \<Rightarrow> message list \<Rightarrow> message list" where
  "known topics ms = filter (\<lambda>m. msg_Topic m \<in> set topics) ms"

lemma known_simps [simp]:
  "known topics [] = []" "known topics (ms @ ns) = known topics ms @ known topics ns"
  "known topics (m # ms) = (if msg_Topic m \<in> set topics then m # known topics ms else known topics ms)"
  by (simp_all add: known_def)

lemma of_topic_known: "t \<in> set topics \<Longrightarrow> of_topic t (known topics ms) = of_topic t ms"
  by (induction ms) auto

text \<open>The views of the channels agree; what the server sent was routed or waits in the channel, except
  for topics without a queue, and what the consumers forwarded was received or waits.\<close>

definition joined :: "string list \<Rightarrow> nat \<Rightarrow> 'st broker \<Rightarrow> bool" where
  "joined topics n b \<longleftrightarrow> pipeline_static topics n n (bk_pipeline b) \<and>
     sv_msgChan (bk_server b) = pl_input (bk_pipeline b) \<and> fo_input (bk_fanout b) = pl_dispatch (bk_pipeline b) \<and>
     known topics (sv_log (bk_server b)) = pl_routed (bk_pipeline b) @ known topics (ch_buf (pl_input (bk_pipeline b))) \<and>
     pl_out (bk_pipeline b) = fo_received (bk_fanout b) @ ch_buf (fo_input (bk_fanout b))"

lemma route_sel [simp]:
  "pl_input (route p msg) = pl_input p" "pl_dispatch (route p msg) = pl_dispatch p" "pl_out (route p msg) = pl_out p"
  by (auto simp: route_def split: option.splits)

lemma route_routed: "dom (pl_queues p) = set topics \<Longrightarrow> pl_routed (route p msg) = pl_routed p @ known topics [msg]"
  by (cases "pl_queues p (msg_Topic msg)") (auto simp: route_def dest: domI)

lemma static_dom: "pipeline_static topics n k p \<Longrightarrow> dom (pl_queues p) = set topics"
  by (simp add: pipeline_static_def)

inductive_cases server_channelE [elim!]: "server_step cfg s (LSend i) s'" "server_step cfg s (LHandoff i) s'" "server_step cfg s LReceive s'"
  "server_step cfg s LCancel s'"

inductive_cases pipeline_channelE [elim!]: "pipeline_step p (PInput msg) p'" "pipeline_step p (PInputHandoff msg) p'" "pipeline_step p PRoute p'"
  "pipeline_step p (PForward t) p'" "pipeline_step p (PForwardHandoff t) p'" "pipeline_step p PDispatch p'" "pipeline_step p PCancel p'"

lemma after_send_sel [simp]: "sv_msgChan (after_send s i ss cl out) = sv_msgChan s" "sv_log (after_send s i ss cl out) = sv_log s"
  by (simp_all add: after_send_def)

lemma joined_step:
  assumes "joined topics n b" "broker_step cfg workers b b'"
  shows "joined topics n b'"
proof -
  have static: "pipeline_static topics n n (bk_pipeline b')"
    using assms(1) broker_step_parts(2) [OF assms(2)] by (auto simp: joined_def intro: pipeline_static_step)
  from assms(2) show ?thesis
  proof cases
    case (serve s l s' p f)
    with assms(1) static server_internal_step [OF serve(3,4)] show ?thesis by (simp add: joined_def)
  next
    case (publish s i s' msg p p' f)
    from publish(3-5) assms(1) static show ?thesis unfolding publish(1,2)
      by (auto simp: joined_def chan_send_def split: if_splits)
  next
    case (publish_handoff s i s' msg p p' f)
    from publish_handoff(3-5) assms(1) static show ?thesis unfolding publish_handoff(1,2)
      by (auto simp: joined_def route_routed [OF static_dom])
  next
    case (ingest s s' p p' f)
    obtain msg ch where m: "chan_recv (pl_input p) = Some (msg, ch)" "p' = route (p\<lparr>pl_input := ch\<rparr>) msg" "s' = s\<lparr>sv_msgChan := ch\<rparr>"
      using ingest(3,4) assms(1) unfolding ingest(1) by (auto simp: joined_def)
    have "dom (pl_queues p) = set topics" using assms(1) unfolding ingest(1) by (simp add: joined_def static_dom [of topics n n])
    then have "pl_routed p' = pl_routed p @ known topics [msg]" unfolding m(2) by (subst route_routed) auto
    with m assms(1) static chan_recv_Some [OF m(1)] show ?thesis unfolding ingest(1,2) by (auto simp: joined_def)
  next
    case (pipe p l p' s f)
    with assms(1) static pipeline_internal_step [OF pipe(3,4)] show ?thesis by (simp add: joined_def)
  next
    case (forward p t p' msg f c s)
    from forward(3-6) assms(1) static show ?thesis unfolding forward(1,2)
      by (auto simp: joined_def forwarded_def dest!: chan_send_Some)
  next
    case (forward_handoff p t p' msg f s)
    from forward_handoff(3-7) assms(1) static show ?thesis unfolding forward_handoff(1,2)
      by (auto simp: joined_def forwarded_def fanout_received_def)
  next
    case (deliver p p' f msg c s)
    from deliver(3-5) assms(1) static show ?thesis unfolding deliver(1,2)
      by (auto simp: joined_def fanout_received_def dest!: chan_recv_Some)
  qed (use assms(1) static in \<open>auto simp: joined_def run_worker_def Let_def\<close>)
qed

interpretation joint: invariant_system "broker_init topics maxClients bufSize db sts workers" "broker_step cfg workers" "joined topics bufSize"
  for topics maxClients bufSize db sts workers cfg
proof unfold_locales
  show "joined topics bufSize b" if "broker_init topics maxClients bufSize db sts workers b" for b
  proof -
    have "pipeline_static topics bufSize bufSize (bk_pipeline b)"
      using that by (auto simp: broker_init_def intro: ingestion_static.inv_init)
    with that show ?thesis
      by (auto simp: broker_init_def joined_def server_init_def pipeline_init_def NewPipeline_def NewServer_def NewFanOut_def)
  qed
qed (rule joined_step)

subsection \<open>From publishers to the table and the workers\<close>

text \<open>Nothing is on the way: channels and queues are empty, the router and the consumers wait.\<close>

definition idle :: "'st broker \<Rightarrow> bool" where
  "idle b \<longleftrightarrow> ch_buf (sv_msgChan (bk_server b)) = [] \<and> pl_router (bk_pipeline b) = RouterSelect \<and>
     (\<forall>t. pl_consumers (bk_pipeline b) t = ConsumerSelect) \<and> (\<forall>t q. pl_queues (bk_pipeline b) t = Some q \<longrightarrow> ch_buf q = []) \<and>
     ch_buf (fo_input (bk_fanout b)) = []"

lemma length_of_topic: "length (of_topic t ms) \<le> length ms"
  by (simp add: of_topic_def)

lemma short_lists: "length (saving c) \<le> 1" "length (of_topic t (enqueuing r)) \<le> 1"
  by (cases c; simp) (cases r; simp)

lemma conveyed:
  assumes "broker_reach cfg topics maxClients bufSize db sts workers b" "t \<in> set topics"
  obtains q where "pl_queues (bk_pipeline b) t = Some q" "length (ch_buf q) \<le> bufSize"
    "of_topic t (sv_log (bk_server b)) = of_topic t (map snd (pl_saves (bk_pipeline b))) @ saving (pl_consumers (bk_pipeline b) t) @ ch_buf q @
       of_topic t (enqueuing (pl_router (bk_pipeline b))) @ of_topic t (ch_buf (sv_msgChan (bk_server b)))"
    "of_topic t (saved (pl_saves (bk_pipeline b))) =
       of_topic t (fo_received (bk_fanout b)) @ of_topic t (ch_buf (fo_input (bk_fanout b))) @ pending (pl_consumers (bk_pipeline b) t)"
proof -
  note p = broker_reach_parts(2) [OF assms(1)]
  have j: "joined topics bufSize b" by (rule joint.reachable_inv [OF assms(1)])
  obtain q where q: "pl_queues (bk_pipeline b) t = Some q" "ch_cap q = bufSize"
    using pipeline_static_queue [OF ingestion_static.reachable_inv [OF p] assms(2)] by blast
  note inv = pipeline_inv_topic [OF ingestion.reachable_inv [OF p] q(1)]
  have "of_topic t (known topics (sv_log (bk_server b))) = of_topic t (pl_routed (bk_pipeline b) @ known topics (ch_buf (pl_input (bk_pipeline b))))"
    using j by (simp add: joined_def)
  then have "of_topic t (sv_log (bk_server b)) = of_topic t (pl_routed (bk_pipeline b)) @ of_topic t (ch_buf (sv_msgChan (bk_server b)))"
    using j assms(2) by (simp add: joined_def of_topic_known)
  with inv q(2) j show thesis
    by (intro that [OF q(1)]) (simp_all add: topic_inv_def chan_ok_def joined_def)
qed

text \<open>What is on its way to the store.\<close>

lemma moving_bound:
  assumes "broker_reach cfg topics maxClients bufSize db sts workers b" "t \<in> set topics"
  shows "\<exists>moving. of_topic t (sv_log (bk_server b)) = of_topic t (map snd (pl_saves (bk_pipeline b))) @ moving \<and>
    length moving \<le> 2 * bufSize + 2 \<and> (idle b \<longrightarrow> moving = [])"
proof -
  obtain q where q: "pl_queues (bk_pipeline b) t = Some q" "length (ch_buf q) \<le> bufSize"
    "of_topic t (sv_log (bk_server b)) = of_topic t (map snd (pl_saves (bk_pipeline b))) @ saving (pl_consumers (bk_pipeline b) t) @ ch_buf q @
       of_topic t (enqueuing (pl_router (bk_pipeline b))) @ of_topic t (ch_buf (sv_msgChan (bk_server b)))"
    using assms by (rule conveyed)
  have "length (ch_buf (sv_msgChan (bk_server b))) \<le> bufSize"
    using mqtt.reachable_inv [OF broker_reach_parts(1) [OF assms(1)]] mqtt_consts.reachable_inv [OF broker_reach_parts(1) [OF assms(1)]]
    by (simp add: server_inv_def server_consts_def chan_ok_def)
  then have "length (of_topic t (ch_buf (sv_msgChan (bk_server b)))) \<le> bufSize" using length_of_topic le_trans by blast
  moreover have "length (saving (pl_consumers (bk_pipeline b) t)) \<le> 1" "length (of_topic t (enqueuing (pl_router (bk_pipeline b)))) \<le> 1" by (rule short_lists)+
  ultimately have "length (saving (pl_consumers (bk_pipeline b) t) @ ch_buf q @ of_topic t (enqueuing (pl_router (bk_pipeline b))) @
      of_topic t (ch_buf (sv_msgChan (bk_server b)))) \<le> 2 * bufSize + 2" using q(2) unfolding length_append by linarith
  with q(1,3) show ?thesis by (intro exI conjI) (auto simp: idle_def)
qed

lemma of_topic_transfer: "of_topic (msg_Topic m) xs = of_topic (msg_Topic m) ys @ zs \<Longrightarrow> m \<in> set ys \<Longrightarrow> m \<in> set xs"
proof -
  assume eq: "of_topic (msg_Topic m) xs = of_topic (msg_Topic m) ys @ zs" and "m \<in> set ys"
  then have "m \<in> set (of_topic (msg_Topic m) xs)" unfolding eq by (simp add: of_topic_def)
  then show ?thesis by (simp add: of_topic_def)
qed

lemma received_saved:
  assumes "broker_reach cfg topics maxClients bufSize db sts workers b"
  shows "set (fo_received (bk_fanout b)) \<subseteq> set (saved (pl_saves (bk_pipeline b)))"
    "set (saved (pl_saves (bk_pipeline b))) \<subseteq> set (sv_log (bk_server b))"
proof -
  note p = broker_reach_parts(2) [OF assms]
  note inv = ingestion.reachable_inv [OF p] and static = ingestion_static.reachable_inv [OF p]
  have "pl_out (bk_pipeline b) = fo_received (bk_fanout b) @ ch_buf (fo_input (bk_fanout b))"
    using joint.reachable_inv [OF assms] by (simp add: joined_def)
  then have topic: "msg_Topic m \<in> set topics" if "m \<in> set (fo_received (bk_fanout b)) \<union> set (map snd (pl_saves (bk_pipeline b)))" for m
    using inv static_dom [OF static] that unfolding pipeline_inv_def by (auto simp: domIff simp flip: not_None_eq)
  show "set (fo_received (bk_fanout b)) \<subseteq> set (saved (pl_saves (bk_pipeline b)))"
  proof
    fix m assume m: "m \<in> set (fo_received (bk_fanout b))"
    with topic have "msg_Topic m \<in> set topics" by blast
    from conveyed [OF assms this] show "m \<in> set (saved (pl_saves (bk_pipeline b)))" by (metis of_topic_transfer m)
  qed
  show "set (saved (pl_saves (bk_pipeline b))) \<subseteq> set (sv_log (bk_server b))"
  proof
    fix m assume "m \<in> set (saved (pl_saves (bk_pipeline b)))"
    then have m: "m \<in> set (map snd (pl_saves (bk_pipeline b)))" by (auto simp: saved_def)
    with topic have "msg_Topic m \<in> set topics" by blast
    from conveyed [OF assms this] show "m \<in> set (sv_log (bk_server b))" by (metis of_topic_transfer m)
  qed
qed

subsection \<open>A scheduler\<close>

datatype blabel = BServe label bytes | BPublish conn_id | BIngest | BPipe plabel | BForward string | BDeliver | BWork nat | BWaited

fun bexec_step :: "server_cfg \<Rightarrow> 'st Worker list \<Rightarrow> 'st broker \<Rightarrow> blabel \<Rightarrow> 'st broker option" where
  "bexec_step cfg workers b (BServe l input) =
     (if server_internal l then map_option (\<lambda>s. b\<lparr>bk_server := s\<rparr>) (exec_step cfg (bk_server b) l input) else None)"
| "bexec_step cfg workers b (BPublish i) =
     (case exec_step cfg (bk_server b) (LSend i) [] of
        None \<Rightarrow> None
      | Some s \<Rightarrow>
          if sv_log s = sv_log (bk_server b) @ [last (sv_log s)]
          then map_option (\<lambda>p. b\<lparr>bk_server := s, bk_pipeline := p\<rparr>) (pexec_step (bk_pipeline b) (PInput (last (sv_log s)))) else None)"
| "bexec_step cfg workers b BIngest =
     (case chan_recv (sv_msgChan (bk_server b)) of
        None \<Rightarrow> None
      | Some (msg, ch) \<Rightarrow>
          map_option (\<lambda>p. b\<lparr>bk_server := (bk_server b)\<lparr>sv_msgChan := ch\<rparr>, bk_pipeline := p\<rparr>) (pexec_step (bk_pipeline b) PRoute))"
| "bexec_step cfg workers b (BPipe l) =
     (if pipeline_internal l then map_option (\<lambda>p. b\<lparr>bk_pipeline := p\<rparr>) (pexec_step (bk_pipeline b) l) else None)"
| "bexec_step cfg workers b (BForward t) =
     (case pexec_step (bk_pipeline b) (PForward t) of
        None \<Rightarrow> None
      | Some p \<Rightarrow>
          if pl_out p = pl_out (bk_pipeline b) @ [last (pl_out p)] \<and> \<not> fo_closed (bk_fanout b)
          then map_option (\<lambda>c. b\<lparr>bk_pipeline := p, bk_fanout := (bk_fanout b)\<lparr>fo_input := c\<rparr>\<rparr>)
            (chan_send (fo_input (bk_fanout b)) (last (pl_out p))) else None)"
| "bexec_step cfg workers b BDeliver =
     (if fo_phase (bk_fanout b) = Selecting
      then case (chan_recv (pl_dispatch (bk_pipeline b)), chan_recv (fo_input (bk_fanout b))) of
          (Some (m, d), Some (msg, c)) \<Rightarrow>
            Some (b\<lparr>bk_pipeline := (bk_pipeline b)\<lparr>pl_dispatch := d\<rparr>,
                    bk_fanout := fanout_received workers msg ((bk_fanout b)\<lparr>fo_input := c\<rparr>)\<rparr>)
        | _ \<Rightarrow> None
      else None)"
| "bexec_step cfg workers b (BWork i) =
     (case fo_phase (bk_fanout b) of
        Waiting msg ws \<Rightarrow>
          if i \<in> set ws
          then Some (b\<lparr>bk_fanout := (run_worker workers msg i (bk_fanout b))\<lparr>fo_phase := Waiting msg (remove1 i ws)\<rparr>\<rparr>) else None
      | _ \<Rightarrow> None)"
| "bexec_step cfg workers b BWaited =
     (case fo_phase (bk_fanout b) of Waiting msg [] \<Rightarrow> Some (b\<lparr>bk_fanout := (bk_fanout b)\<lparr>fo_phase := Selecting\<rparr>\<rparr>) | _ \<Rightarrow> None)"

fun bexec :: "server_cfg \<Rightarrow> 'st Worker list \<Rightarrow> 'st broker \<Rightarrow> blabel list \<Rightarrow> 'st broker option" where
  "bexec cfg workers b [] = Some b"
| "bexec cfg workers b (l # ls) = (case bexec_step cfg workers b l of None \<Rightarrow> None | Some b' \<Rightarrow> bexec cfg workers b' ls)"

lemma bexec_step_sound:
  fixes b :: "'st broker"
  assumes "bexec_step cfg workers b l = Some b'"
  shows "broker_step cfg workers b b'"
proof -
  obtain s p f where b: "b = \<lparr>bk_server = s, bk_pipeline = p, bk_fanout = f\<rparr>" by (cases b)
  show ?thesis
  proof (cases l)
    case (BPublish i)
    with assms b show ?thesis
      by (auto split: option.splits if_splits simp del: exec_step.simps pexec_step.simps
          intro!: broker_step.publish [OF exec_step_sound _ pexec_step_sound])
  next
    case BIngest
    with assms b show ?thesis
      by (auto split: option.splits simp del: pexec_step.simps intro!: broker_step.ingest [OF _ pexec_step_sound] server_step.receive)
  next
    case (BForward t)
    with assms b show ?thesis
      by (auto split: option.splits if_splits simp del: pexec_step.simps intro!: broker_step.forward [OF pexec_step_sound])
  next
    case BDeliver
    with assms b show ?thesis
      by (auto split: option.splits if_splits intro!: broker_step.deliver pipeline_step.dispatch)
  qed (use assms b in \<open>auto split: option.splits if_splits phase.splits list.splits simp del: exec_step.simps pexec_step.simps
      intro: broker_step.intros exec_step_sound pexec_step_sound\<close>)
qed

lemma bexec_reachable:
  "bexec cfg workers b ls = Some b' \<Longrightarrow> reachable init (broker_step cfg workers) b \<Longrightarrow> reachable init (broker_step cfg workers) b'"
  by (induction cfg workers b ls rule: bexec.induct) (auto split: option.splits intro: reachable_step bexec_step_sound)

lemma bexec_runs: "bexec cfg workers b ls = Some b' \<Longrightarrow> (broker_step cfg workers)\<^sup>*\<^sup>* b b'"
  by (induction cfg workers b ls rule: bexec.induct)
    (auto split: option.splits intro: converse_rtranclp_into_rtranclp bexec_step_sound)

text \<open>A client connects and publishes one message, which is routed, stored, forwarded and processed.\<close>

definition demo_broker :: "'st list \<Rightarrow> 'st broker" where
  "demo_broker sts = \<lparr>bk_server = demo_start, bk_pipeline = NewPipeline [''t''] [] (make_chan 1) (make_chan 1) 1, bk_fanout = NewFanOut 1 sts\<rparr>"

definition demo_labels :: "bytes \<Rightarrow> blabel list" where
  "demo_labels payload =
     [BServe (LAccept 0) (demo_packet ''A'' 60 @ BuildPublishPacket ''t'' payload 1 7), BServe (LConnect 0) [], BServe (LRead 0) [], BPublish 0,
      BIngest, BPipe PEnqueue, BPipe (PTake ''t''), BPipe (PSave ''t'' NoFault), BForward ''t'', BDeliver, BWork 0, BWork 1, BWaited]"

lemma demo_broker_run:
  assumes "length payload \<le> 1000" "msg = demo_message\<lparr>msg_Payload := payload\<rparr>"
  shows "\<exists>b. bexec demo_cfg [w1, w2] (demo_broker [st1, st2]) (demo_labels payload) = Some b \<and> sv_log (bk_server b) = [msg] \<and> idle b \<and>
     pl_db (bk_pipeline b) = [raw_row_of msg] \<and> pl_saves (bk_pipeline b) = [(NoFault, msg)] \<and>
     fo_phase (bk_fanout b) = Selecting \<and> fo_received (bk_fanout b) = [msg] \<and>
     fo_states (bk_fanout b) = [outcome_state (wk_Process w1 st1 msg), outcome_state (wk_Process w2 st2 msg)]"
  unfolding assms(2) using assms(1)
  by (simp add: demo_labels_def demo_broker_def NewPipeline_def NewFanOut_def server_internal_def pipeline_internal_def demo_exec_simps
      do_read_demo_publish chan_send_def chan_recv_def after_send_def enter_loop_def ResetDeadline_def conn_write_def live_demo
      route_def demo_message_def NewQueue_def save_step_def SaveRawData_def forwarded_def fanout_received_def run_worker_def idle_def)

lemma short_payload: "length ([42] :: bytes) \<le> 1000"
  by simp

lemma demo_broker_reach:
  assumes "bexec demo_cfg [w1, w2] (demo_broker [st1, st2]) (demo_labels payload) = Some b"
  shows "broker_reach demo_cfg [''t''] 1 1 [] [st1, st2] [w1, w2] b"
proof (rule bexec_reachable [OF assms], rule reachable_init)
  show "broker_init [''t''] 1 1 [] [st1, st2] [w1, w2] (demo_broker [st1, st2])"
    using demo_init by (simp add: broker_init_def demo_broker_def pipeline_init_def)
qed

subsection \<open>Claims\<close>

text \<open>C4. End to end, nothing is lost, duplicated or reordered. In every state of the running broker and
  for every configured topic: the messages that the server sent are, in order, those that the
  store was called for followed by at most two buffers and two messages on their way; those stored
  are, in order, those given to the workers followed by what waits for them; the workers have
  processed exactly what they were given. When nothing is on the way, every message sent was handed
  to the store and every stored one to the workers.\<close>

theorem broker_conveys:
  assumes "broker_reach cfg topics maxClients bufSize db sts workers b" "t \<in> set topics"
  shows "\<exists>moving waiting.
    of_topic t (sv_log (bk_server b)) = of_topic t (map snd (pl_saves (bk_pipeline b))) @ moving \<and> length moving \<le> 2 * bufSize + 2 \<and>
    of_topic t (saved (pl_saves (bk_pipeline b))) = of_topic t (fo_received (bk_fanout b)) @ waiting \<and>
    (idle b \<longrightarrow> moving = [] \<and> waiting = []) \<and>
    (\<forall>i<length workers. fo_states (bk_fanout b) ! i = processed (workers ! i) (sts ! i) (done_by (bk_fanout b) i))"
proof -
  have "fanout_inv workers sts (bk_fanout b)" by (rule fanout.reachable_inv [OF broker_reach_parts(3) [OF assms(1)]])
  then have "\<forall>i<length workers. fo_states (bk_fanout b) ! i = processed (workers ! i) (sts ! i) (done_by (bk_fanout b) i)"
    by (simp add: fanout_inv_def)
  moreover have "of_topic t (saved (pl_saves (bk_pipeline b))) =
      of_topic t (fo_received (bk_fanout b)) @ of_topic t (ch_buf (fo_input (bk_fanout b))) @ pending (pl_consumers (bk_pipeline b) t)"
    using assms by (rule conveyed)
  moreover have "idle b \<longrightarrow> of_topic t (ch_buf (fo_input (bk_fanout b))) @ pending (pl_consumers (bk_pipeline b) t) = []"
    by (simp add: idle_def)
  ultimately show ?thesis using moving_bound [OF assms] by blast
qed

theorem broker_conveys_witness:
  "\<exists>b. bexec demo_cfg [panicking, counting] (demo_broker [0, 0]) (demo_labels [42]) = Some b \<and>
     of_topic ''t'' (map snd (pl_saves (bk_pipeline b))) = [demo_message] \<and> of_topic ''t'' (fo_received (bk_fanout b)) = [demo_message] \<and>
     fo_states (bk_fanout b) = [0, 1]"
proof -
  obtain b where b: "bexec demo_cfg [panicking, counting] (demo_broker [0, 0]) (demo_labels [42]) = Some b" "sv_log (bk_server b) = [demo_message]" "idle b"
    "pl_saves (bk_pipeline b) = [(NoFault, demo_message)]"
    "fo_states (bk_fanout b) = [outcome_state (wk_Process panicking 0 demo_message), outcome_state (wk_Process counting 0 demo_message)]"
    using demo_broker_run [OF short_payload demo_message_payload [symmetric], of panicking counting 0 0] by blast
  have t: "msg_Topic demo_message = ''t''" by (simp add: demo_message_def)
  have "of_topic ''t'' (fo_received (bk_fanout b)) = of_topic ''t'' (saved (pl_saves (bk_pipeline b)))"
    using broker_conveys [OF demo_broker_reach [OF b(1)], of "''t''"] b(3) by auto
  also have "\<dots> = [demo_message]" using b(4) t by (simp add: saved_def)
  finally have "of_topic ''t'' (fo_received (bk_fanout b)) = [demo_message]" .
  moreover have "fo_states (bk_fanout b) = [0, 1]" using b(5) by (simp add: panicking_def counting_def)
  moreover have "of_topic ''t'' (map snd (pl_saves (bk_pipeline b))) = [demo_message]" using b(4) t by simp
  ultimately show ?thesis using b(1) by blast
qed

text \<open>C5. Every message that a worker is given is in the table, and every message stored since the
  start was sent by a session that authenticated, on a configured topic, with the configured
  timezone.\<close>

theorem stored_messages_authentic:
  assumes "broker_reach cfg topics maxClients bufSize db sts workers b"
  shows "\<exists>stored. pl_db (bk_pipeline b) = db @ map raw_row_of stored \<and> set (fo_received (bk_fanout b)) \<subseteq> set stored \<and>
    (\<forall>msg\<in>set stored. msg_Topic msg \<in> TrimSpace ` set topics \<and> msg_Timezone msg = sc_timezone cfg \<and>
       (\<exists>i ss pkt. sv_sessions (bk_server b) i = Some ss \<and> ss_packet ss = Some pkt \<and> cp_ClientID pkt = msg_ClientID msg \<and>
          Authenticate (sc_auth cfg) (cp_Username pkt) (string_of_bytes (cp_Password pkt))))"
proof (intro exI [of _ "saved (pl_saves (bk_pipeline b))"] conjI ballI)
  show "pl_db (bk_pipeline b) = db @ map raw_row_of (saved (pl_saves (bk_pipeline b)))"
    using ingestion.reachable_inv [OF broker_reach_parts(2) [OF assms]] by (simp add: pipeline_inv_def)
  show "set (fo_received (bk_fanout b)) \<subseteq> set (saved (pl_saves (bk_pipeline b)))" by (rule received_saved [OF assms])
  fix msg assume "msg \<in> set (saved (pl_saves (bk_pipeline b)))"
  then have "msg \<in> set (sv_log (bk_server b))" using received_saved(2) [OF assms] by blast
  note o = published_origin [OF broker_reach_parts(1) [OF assms] this]
  show "msg_Topic msg \<in> TrimSpace ` set topics" "msg_Timezone msg = sc_timezone cfg"
    "\<exists>i ss pkt. sv_sessions (bk_server b) i = Some ss \<and> ss_packet ss = Some pkt \<and> cp_ClientID pkt = msg_ClientID msg \<and>
       Authenticate (sc_auth cfg) (cp_Username pkt) (string_of_bytes (cp_Password pkt))" using o by blast+
qed

theorem stored_messages_authentic_witness:
  "\<exists>b. bexec demo_cfg [panicking, counting] (demo_broker [0, 0]) (demo_labels [42]) = Some b \<and>
     (\<exists>stored. pl_db (bk_pipeline b) = map raw_row_of stored \<and> stored \<noteq> [] \<and> (\<forall>msg\<in>set stored. msg_Timezone msg = ''UTC''))"
proof -
  obtain b where b: "bexec demo_cfg [panicking, counting] (demo_broker [0, 0]) (demo_labels [42]) = Some b" "pl_db (bk_pipeline b) = [raw_row_of demo_message]"
    using demo_broker_run [OF short_payload demo_message_payload [symmetric], of panicking counting 0 0] by blast
  obtain stored where "pl_db (bk_pipeline b) = [] @ map raw_row_of stored" "\<forall>msg\<in>set stored. msg_Timezone msg = sc_timezone demo_cfg"
    using stored_messages_authentic [OF demo_broker_reach [OF b(1)]] by blast
  then have "pl_db (bk_pipeline b) = map raw_row_of stored" "stored \<noteq> []" "\<forall>msg\<in>set stored. msg_Timezone msg = ''UTC''"
    using b(2) by (auto simp: demo_cfg_def)
  with b(1) show ?thesis by blast
qed

end
