(* ===== verification/Go_JSON.thy ===== *)
theory Go_JSON
  imports Go_Strconv
begin

section \<open>JSON (package encoding/json)\<close>

text \<open>
  What the program uses of \<open>encoding/json\<close>: reading a text, decoding it into structures, and writing
  strings and integers. A text is read by a scanner: the tokens, and then a machine with a stack of
  the open arrays and objects, at most 10000 of them. Numbers and strings keep their text, which is
  what the decoders look at; object members keep their order and may repeat.
\<close>

subsection \<open>Tokens\<close>

datatype token = TLBrace | TRBrace | TLBrack | TRBrack | TColon | TComma | TStr string | TNum string | TTrue | TFalse | TNull

definition quote_char :: char where "quote_char = CHR 0x22"
definition backslash :: char where "backslash = CHR 0x5C"

definition is_hex :: "char \<Rightarrow> bool" where
  "is_hex c \<longleftrightarrow> is_digit c \<or> (of_char c :: nat) \<in> {97..102} \<union> {65..70}"

definition json_space :: "char \<Rightarrow> bool" where
  "json_space c \<longleftrightarrow> c \<in> {CHR '' '', CHR 0x09, CHR 0x0A, CHR 0x0D}"

text \<open>The text of a string up to its closing quote, and the rest.\<close>

fun lex_string :: "string \<Rightarrow> (string \<times> string) option" where
  "lex_string [] = None"
| "lex_string (c # s) =
     (if c = quote_char then Some ([], s)
      else if c = backslash then
        (case s of
           [] \<Rightarrow> None
         | e # r \<Rightarrow>
             if e \<in> set ''bfnrt/'' \<or> e = backslash \<or> e = quote_char then map_option (\<lambda>(raw, rest). (c # e # raw, rest)) (lex_string r)
             else if e = CHR ''u'' \<and> 4 \<le> length r \<and> list_all is_hex (take 4 r) then
               map_option (\<lambda>(raw, rest). (c # e # take 4 r @ raw, rest)) (lex_string (drop 4 r))
             else None)
      else if (of_char c :: nat) < 32 then None
      else map_option (\<lambda>(raw, rest). (c # raw, rest)) (lex_string s))"

definition lex_int :: "string \<Rightarrow> (string \<times> string) option" where
  "lex_int s =
     (case s of
        [] \<Rightarrow> None
      | c # r \<Rightarrow>
          if c = CHR ''0'' then Some ([c], r)
          else if is_digit c then Some (c # takeWhile is_digit r, dropWhile is_digit r) else None)"

definition lex_digits :: "string \<Rightarrow> (string \<times> string) option" where
  "lex_digits s = (if takeWhile is_digit s = [] then None else Some (takeWhile is_digit s, dropWhile is_digit s))"

definition lex_frac :: "string \<Rightarrow> (string \<times> string) option" where
  "lex_frac s =
     (case s of
        [] \<Rightarrow> Some ([], s)
      | c # r \<Rightarrow> if c = CHR ''.'' then map_option (\<lambda>(ds, rest). (c # ds, rest)) (lex_digits r) else Some ([], s))"

definition lex_exp :: "string \<Rightarrow> (string \<times> string) option" where
  "lex_exp s =
     (case s of
        [] \<Rightarrow> Some ([], s)
      | c # r \<Rightarrow>
          if c = CHR ''e'' \<or> c = CHR ''E'' then
            (case r of
               sign # r' \<Rightarrow>
                 if sign = CHR ''+'' \<or> sign = CHR ''-'' then map_option (\<lambda>(ds, rest). (c # sign # ds, rest)) (lex_digits r')
                 else map_option (\<lambda>(ds, rest). (c # ds, rest)) (lex_digits r)
             | [] \<Rightarrow> None)
          else Some ([], s))"

definition lex_number :: "string \<Rightarrow> (string \<times> string) option" where
  "lex_number s =
     do { (sign, s) \<leftarrow> Some (if s \<noteq> [] \<and> hd s = CHR ''-'' then ([hd s], tl s) else ([], s));
          (i, s) \<leftarrow> lex_int s; (f, s) \<leftarrow> lex_frac s; (e, s) \<leftarrow> lex_exp s;
          Some (sign @ i @ f @ e, s) }"

definition lex_literal :: "string \<Rightarrow> token \<Rightarrow> string \<Rightarrow> (token \<times> string) option" where
  "lex_literal lit t s = (if take (length lit) s = lit then Some (t, drop (length lit) s) else None)"

text \<open>One token at the head of a text that does not start with a space.\<close>

definition lex_token :: "string \<Rightarrow> (token \<times> string) option" where
  "lex_token s =
     (case s of
        [] \<Rightarrow> None
      | c # r \<Rightarrow>
          if c = CHR ''{'' then Some (TLBrace, r) else if c = CHR ''}'' then Some (TRBrace, r)
          else if c = CHR ''['' then Some (TLBrack, r) else if c = CHR '']'' then Some (TRBrack, r)
          else if c = CHR '':'' then Some (TColon, r) else if c = CHR '','' then Some (TComma, r)
          else if c = quote_char then map_option (\<lambda>(raw, rest). (TStr raw, rest)) (lex_string r)
          else if c = CHR ''t'' then lex_literal ''true'' TTrue s else if c = CHR ''f'' then lex_literal ''false'' TFalse s
          else if c = CHR ''n'' then lex_literal ''null'' TNull s
          else map_option (\<lambda>(raw, rest). (TNum raw, rest)) (lex_number s))"

lemma lex_string_shorter: "lex_string s = Some (raw, rest) \<Longrightarrow> length rest < length s"
proof (induction s arbitrary: raw rest rule: lex_string.induct)
  case (2 c s)
  then show ?case by (auto split: if_splits list.splits) fastforce+
qed simp

lemma length_dropWhile_digits: "length (dropWhile is_digit s) \<le> length s"
  by (rule length_dropWhile_le)

lemma lex_digits_shorter: "lex_digits s = Some (ds, rest) \<Longrightarrow> length rest \<le> length s"
  by (auto simp: lex_digits_def length_dropWhile_le split: if_splits)

lemma lex_token_shorter:
  assumes "lex_token s = Some (t, rest)"
  shows "length rest < length s"
proof -
  have i: "length r < length u" if "lex_int u = Some (i, r)" for u i r
    using that by (auto simp: lex_int_def length_dropWhile_le le_imp_less_Suc split: list.splits if_splits)
  have f: "length r \<le> length u" if "lex_frac u = Some (i, r)" for u i r
    using that by (auto simp: lex_frac_def split: list.splits if_splits dest!: lex_digits_shorter)
  have e: "length r \<le> length u" if "lex_exp u = Some (i, r)" for u i r
    using that by (auto simp: lex_exp_def split: list.splits if_splits dest!: lex_digits_shorter)
  have n: "length r < length u" if "lex_number u = Some (raw, r)" for u raw r
    using that i f e by (cases u) (fastforce simp: lex_number_def bind_eq_Some_conv split: if_splits prod.splits)+
  show ?thesis
    using assms by (auto simp: lex_token_def lex_literal_def split: list.splits if_splits dest: lex_string_shorter n)
qed

function lex_all :: "string \<Rightarrow> token list option" where
  "lex_all s =
     (let s = dropWhile json_space s
      in if s = [] then Some []
         else case lex_token s of None \<Rightarrow> None | Some (t, rest) \<Rightarrow> map_option (\<lambda>ts. t # ts) (lex_all rest))"
  by pat_completeness auto
termination
proof (relation "measure length")
  fix s u :: string and x t rest
  assume "u = dropWhile json_space s" "lex_token u = Some x" "(t, rest) = x"
  then have "length rest < length u" using lex_token_shorter [of u t rest] by simp
  also have "\<dots> \<le> length s" using \<open>u = dropWhile json_space s\<close> by (simp add: length_dropWhile_le)
  finally show "(rest, s) \<in> measure length" by simp
qed simp

declare lex_all.simps [simp del]

subsection \<open>Values\<close>

datatype json = JNull | JBool bool | JNum string | JStr string | JArr "json list" | JObj "(string \<times> json) list"

datatype frame = FArr "json list" | FObj "(string \<times> json) list" "string option"

datatype expect = BeginValue | BeginValueOrEmpty | BeginKey | BeginKeyOrEmpty | BeginColon | EndValue json

definition maxNestingDepth :: nat where "maxNestingDepth = 10000"

definition push_frame :: "expect \<Rightarrow> frame \<Rightarrow> frame list \<Rightarrow> (expect \<times> frame list) option" where
  "push_frame st f fs = (if length fs < maxNestingDepth then Some (st, f # fs) else None)"

definition begin_value :: "frame list \<Rightarrow> token \<Rightarrow> (expect \<times> frame list) option" where
  "begin_value fs t =
     (case t of
        TLBrack \<Rightarrow> push_frame BeginValueOrEmpty (FArr []) fs
      | TLBrace \<Rightarrow> push_frame BeginKeyOrEmpty (FObj [] None) fs
      | TStr raw \<Rightarrow> Some (EndValue (JStr raw), fs)
      | TNum raw \<Rightarrow> Some (EndValue (JNum raw), fs)
      | TTrue \<Rightarrow> Some (EndValue (JBool True), fs)
      | TFalse \<Rightarrow> Some (EndValue (JBool False), fs)
      | TNull \<Rightarrow> Some (EndValue JNull, fs)
      | _ \<Rightarrow> None)"

definition begin_key :: "frame list \<Rightarrow> token \<Rightarrow> (expect \<times> frame list) option" where
  "begin_key fs t =
     (case (t, fs) of
        (TStr raw, FObj ms None # fs) \<Rightarrow> Some (BeginColon, FObj ms (Some raw) # fs)
      | _ \<Rightarrow> None)"

definition end_value :: "json \<Rightarrow> frame list \<Rightarrow> token \<Rightarrow> (expect \<times> frame list) option" where
  "end_value j fs t =
     (case fs of
        FArr xs # fs \<Rightarrow>
          if t = TComma then Some (BeginValue, FArr (xs @ [j]) # fs)
          else if t = TRBrack then Some (EndValue (JArr (xs @ [j])), fs) else None
      | FObj ms (Some k) # fs \<Rightarrow>
          if t = TComma then Some (BeginKey, FObj (ms @ [(k, j)]) None # fs)
          else if t = TRBrace then Some (EndValue (JObj (ms @ [(k, j)])), fs) else None
      | _ \<Rightarrow> None)"

definition scan_step :: "expect \<times> frame list \<Rightarrow> token \<Rightarrow> (expect \<times> frame list) option" where
  "scan_step s t =
     (case s of
        (BeginValue, fs) \<Rightarrow> begin_value fs t
      | (BeginValueOrEmpty, fs) \<Rightarrow> if t = TRBrack then Some (EndValue (JArr []), tl fs) else begin_value fs t
      | (BeginKey, fs) \<Rightarrow> begin_key fs t
      | (BeginKeyOrEmpty, fs) \<Rightarrow> if t = TRBrace then Some (EndValue (JObj []), tl fs) else begin_key fs t
      | (BeginColon, fs) \<Rightarrow> if t = TColon then Some (BeginValue, fs) else None
      | (EndValue j, fs) \<Rightarrow> end_value j fs t)"

fun scan :: "expect \<times> frame list \<Rightarrow> token list \<Rightarrow> json option" where
  "scan s [] = (case s of (EndValue j, []) \<Rightarrow> Some j | _ \<Rightarrow> None)"
| "scan s (t # ts) = (case scan_step s t of None \<Rightarrow> None | Some s' \<Rightarrow> scan s' ts)"

definition json_parse :: "string \<Rightarrow> json option" where
  "json_parse s = (case lex_all s of None \<Rightarrow> None | Some ts \<Rightarrow> scan (BeginValue, []) ts)"

subsection \<open>Writing values without spaces\<close>

fun join_tokens :: "token list list \<Rightarrow> token list" where
  "join_tokens [] = []"
| "join_tokens [ts] = ts"
| "join_tokens (ts # tss) = ts @ TComma # join_tokens tss"

fun json_tokens :: "json \<Rightarrow> token list" where
  "json_tokens JNull = [TNull]"
| "json_tokens (JBool b) = [if b then TTrue else TFalse]"
| "json_tokens (JNum raw) = [TNum raw]"
| "json_tokens (JStr raw) = [TStr raw]"
| "json_tokens (JArr xs) = TLBrack # join_tokens (map json_tokens xs) @ [TRBrack]"
| "json_tokens (JObj ms) = TLBrace # join_tokens (map (\<lambda>(k, j). TStr k # TColon # json_tokens j) ms) @ [TRBrace]"

fun token_text :: "token \<Rightarrow> string" where
  "token_text TLBrace = ''{''" | "token_text TRBrace = ''}''" | "token_text TLBrack = ''[''" | "token_text TRBrack = '']''"
| "token_text TColon = '':''" | "token_text TComma = '',''"
| "token_text (TStr raw) = quote_char # raw @ [quote_char]"
| "token_text (TNum raw) = raw"
| "token_text TTrue = ''true''" | "token_text TFalse = ''false''" | "token_text TNull = ''null''"

definition json_text :: "json \<Rightarrow> string" where
  "json_text j = concat (map token_text (json_tokens j))"

fun depth :: "json \<Rightarrow> nat" where
  "depth (JArr xs) = Suc (fold max (map depth xs) 0)"
| "depth (JObj ms) = Suc (fold max (map (\<lambda>(k, j). depth j) ms) 0)"
| "depth j = 0"

lemma le_fold_max: "x \<in> set xs \<Longrightarrow> x \<le> fold max xs (a :: nat)"
proof -
  have "fold max xs a = Max (insert a (set xs))" for xs and a :: nat
    by (metis List.finite_set Max.set_eq_fold list.simps(15))
  then show "x \<in> set xs \<Longrightarrow> x \<le> fold max xs a" by simp
qed

text \<open>The machine reads the tokens of a value and is left with the value.\<close>

lemma scan_elements:
  assumes "xs \<noteq> []"
    "\<And>x zs ts. x \<in> set xs \<Longrightarrow> scan (BeginValue, FArr zs # fs) (json_tokens x @ ts) = scan (EndValue x, FArr zs # fs) ts"
  shows "scan (BeginValue, FArr ys # fs) (join_tokens (map json_tokens xs) @ TRBrack # ts) = scan (EndValue (JArr (ys @ xs)), fs) ts"
  using assms
proof (induction xs arbitrary: ys rule: induct_list012)
  case (2 x)
  then show ?case by (simp add: scan_step_def end_value_def)
next
  case (3 x y zs)
  then have "scan (BeginValue, FArr (ys @ [x]) # fs) (join_tokens (map json_tokens (y # zs)) @ TRBrack # ts) =
      scan (EndValue (JArr ((ys @ [x]) @ y # zs)), fs) ts" by (intro 3) auto
  with 3(4) [of x] show ?case by (simp add: scan_step_def end_value_def)
qed simp

abbreviation member_tokens :: "string \<times> json \<Rightarrow> token list" where
  "member_tokens m \<equiv> case m of (k, j) \<Rightarrow> TStr k # TColon # json_tokens j"

lemma scan_members:
  assumes "ms \<noteq> []"
    "\<And>k j zs ts. (k, j) \<in> set ms \<Longrightarrow> scan (BeginValue, FObj zs (Some k) # fs) (json_tokens j @ ts) = scan (EndValue j, FObj zs (Some k) # fs) ts"
  shows "scan (BeginKey, FObj ns None # fs) (join_tokens (map member_tokens ms) @ TRBrace # ts) = scan (EndValue (JObj (ns @ ms)), fs) ts"
  using assms
proof (induction ms arbitrary: ns rule: induct_list012)
  case (2 m)
  obtain k j where "m = (k, j)" by (cases m)
  with 2 show ?case by (simp add: scan_step_def begin_key_def end_value_def)
next
  case (3 m n zs)
  obtain k j where m: "m = (k, j)" by (cases m)
  have "scan (BeginKey, FObj (ns @ [m]) None # fs) (join_tokens (map member_tokens (n # zs)) @ TRBrace # ts) =
      scan (EndValue (JObj ((ns @ [m]) @ n # zs)), fs) ts" using 3 by (intro 3) auto
  with 3(4) [of k j] m show ?case by (simp add: scan_step_def begin_key_def end_value_def)
qed simp

lemma json_tokens_head: "\<exists>t ts. json_tokens j = t # ts \<and> t \<noteq> TRBrack"
  by (cases j) auto

lemma scan_value: "length fs + depth j \<le> maxNestingDepth \<Longrightarrow> scan (BeginValue, fs) (json_tokens j @ ts) = scan (EndValue j, fs) ts"
proof (induction j arbitrary: fs ts)
  case (JArr xs)
  have room: "length fs < maxNestingDepth" using JArr.prems by simp
  have d: "length (FArr zs # fs) + depth x \<le> maxNestingDepth" if "x \<in> set xs" for x zs
    using le_fold_max [of "depth x" "map depth xs" 0] that JArr.prems by simp
  show ?case
  proof (cases xs)
    case Nil
    then show ?thesis using room by (simp add: scan_step_def begin_value_def push_frame_def)
  next
    case (Cons x zs)
    obtain t us where t: "json_tokens x = t # us" "t \<noteq> TRBrack" using json_tokens_head by blast
    then obtain us' where "join_tokens (map json_tokens xs) = t # us'" using Cons by (cases zs) auto
    then have "scan (BeginValue, fs) (json_tokens (JArr xs) @ ts) = scan (BeginValue, FArr [] # fs) (join_tokens (map json_tokens xs) @ TRBrack # ts)"
      using room t(2) by (simp add: scan_step_def begin_value_def push_frame_def)
    also have "\<dots> = scan (EndValue (JArr ([] @ xs)), fs) ts"
      using Cons JArr.IH d by (intro scan_elements) auto
    finally show ?thesis by simp
  qed
next
  case (JObj ms)
  have room: "length fs < maxNestingDepth" using JObj.prems by simp
  have d: "length (FObj zs k' # fs) + depth j \<le> maxNestingDepth" if "(k, j) \<in> set ms" for k j zs k'
    using le_fold_max [of "depth j" "map (\<lambda>(k, j). depth j) ms" 0] that JObj.prems by force
  show ?case
  proof (cases ms)
    case Nil
    then show ?thesis using room by (simp add: scan_step_def begin_value_def push_frame_def)
  next
    case (Cons m zs)
    obtain k j where "m = (k, j)" by (cases m)
    then obtain us where "join_tokens (map member_tokens ms) = TStr k # us" using Cons by (cases zs) auto
    then have "scan (BeginValue, fs) (json_tokens (JObj ms) @ ts) = scan (BeginKey, FObj [] None # fs) (join_tokens (map member_tokens ms) @ TRBrace # ts)"
      using room by (simp add: scan_step_def begin_value_def push_frame_def)
    also have "\<dots> = scan (EndValue (JObj ([] @ ms)), fs) ts"
    proof (rule scan_members)
      show "ms \<noteq> []" using Cons by simp
      show "scan (BeginValue, FObj zs (Some k) # fs) (json_tokens j @ ts) = scan (EndValue j, FObj zs (Some k) # fs) ts"
        if "(k, j) \<in> set ms" for k j zs ts
        by (rule JObj.IH [OF that _ d [OF that]]) simp
    qed
    finally show ?thesis by simp
  qed
qed (simp_all add: scan_step_def begin_value_def)

text \<open>The texts of strings and numbers that the scanner takes whole.\<close>

definition raw_ok :: "string \<Rightarrow> bool" where
  "raw_ok raw \<longleftrightarrow> (\<forall>r. lex_string (raw @ quote_char # r) = Some (raw, r))"

definition closes :: "string \<Rightarrow> bool" where
  "closes r \<longleftrightarrow> r = [] \<or> hd r \<in> set '',]}'' \<or> json_space (hd r)"

definition num_ok :: "string \<Rightarrow> bool" where
  "num_ok raw \<longleftrightarrow> raw \<noteq> [] \<and> (hd raw = CHR ''-'' \<or> is_digit (hd raw)) \<and> (\<forall>r. closes r \<longrightarrow> lex_number (raw @ r) = Some (raw, r))"

fun json_ok :: "json \<Rightarrow> bool" where
  "json_ok (JNum raw) = num_ok raw"
| "json_ok (JStr raw) = raw_ok raw"
| "json_ok (JArr xs) = list_all json_ok xs"
| "json_ok (JObj ms) = list_all (\<lambda>(k, j). raw_ok k \<and> json_ok j) ms"
| "json_ok j = True"

fun token_ok :: "token \<Rightarrow> string \<Rightarrow> bool" where
  "token_ok (TStr raw) r = raw_ok raw"
| "token_ok (TNum raw) r = (num_ok raw \<and> closes r)"
| "token_ok t r = True"

lemma closes_simps [simp]: "closes []" "closes (CHR '','' # r)" "closes (CHR '']'' # r)" "closes (CHR ''}'' # r)"
  by (simp_all add: closes_def)

lemma token_head:
  assumes "token_ok t r"
  shows "\<exists>c u. token_text t = c # u \<and> \<not> json_space c"
proof (cases t)
  case (TNum raw)
  with assms obtain c u where "raw = c # u" "c = CHR ''-'' \<or> is_digit c" by (cases raw) (auto simp: num_ok_def)
  with TNum show ?thesis by (auto simp: json_space_def is_digit_def)
qed (simp_all add: json_space_def quote_char_def)

lemma lex_token_text: "token_ok t r \<Longrightarrow> lex_token (token_text t @ r) = Some (t, r)"
proof (cases t)
  case (TStr raw)
  assume "token_ok t r"
  with TStr show ?thesis by (simp add: lex_token_def raw_ok_def quote_char_def)
next
  case (TNum raw)
  assume "token_ok t r"
  with TNum obtain c u where c: "raw = c # u" "c = CHR ''-'' \<or> is_digit c" "lex_number (raw @ r) = Some (raw, r)"
    by (cases raw) (auto simp: num_ok_def)
  then have "c \<noteq> CHR ''{''" "c \<noteq> CHR ''}''" "c \<noteq> CHR ''[''" "c \<noteq> CHR '']''" "c \<noteq> CHR '':''" "c \<noteq> CHR '',''" "c \<noteq> quote_char"
    "c \<noteq> CHR ''t''" "c \<noteq> CHR ''f''" "c \<noteq> CHR ''n''"
    by (auto simp: is_digit_def quote_char_def)
  with c TNum show ?thesis by (simp add: lex_token_def)
qed (simp_all add: lex_token_def lex_literal_def quote_char_def)

lemma lex_Cons: "token_ok t r \<Longrightarrow> lex_all (token_text t @ r) = map_option (\<lambda>ts. t # ts) (lex_all r)"
  using token_head [of t r] lex_token_text [of t r] by (subst lex_all.simps) auto

abbreviation texts :: "token list \<Rightarrow> string" where
  "texts ts \<equiv> concat (map token_text ts)"

lemma lex_joined:
  assumes "xs \<noteq> []" "end_t = TRBrack \<or> end_t = TRBrace"
    "\<And>x r. x \<in> set xs \<Longrightarrow> closes r \<Longrightarrow> lex_all (texts (g x) @ r) = map_option (\<lambda>ts. g x @ ts) (lex_all r)"
  shows "lex_all (texts (join_tokens (map g xs)) @ token_text end_t @ r) = map_option (\<lambda>ts. join_tokens (map g xs) @ end_t # ts) (lex_all r)"
  using assms
proof (induction xs rule: induct_list012)
  case (2 x)
  have e: "closes (token_text end_t @ r)" "token_ok end_t r" using 2(2) by auto
  show ?case using 2(3) [OF _ e(1)] lex_Cons [OF e(2)] by (simp add: option.map_comp comp_def)
next
  case (3 x y zs)
  have "lex_all (texts (join_tokens (map g (y # zs))) @ token_text end_t @ r) = map_option (\<lambda>ts. join_tokens (map g (y # zs)) @ end_t # ts) (lex_all r)"
    using 3 by (intro 3) auto
  moreover have "closes (token_text TComma @ u)" "lex_all (token_text TComma @ u) = map_option (\<lambda>ts. TComma # ts) (lex_all u)" for u
    using lex_Cons [of TComma u] by simp_all
  ultimately show ?case
    using 3(5) [of x "token_text TComma @ texts (join_tokens (map g (y # zs))) @ token_text end_t @ r"]
    by (simp add: option.map_comp comp_def)
qed simp

lemma append_single: "(@) [x] = (#) x"
  by (rule ext) simp

lemma lex_json: "json_ok j \<Longrightarrow> closes r \<Longrightarrow> lex_all (texts (json_tokens j) @ r) = map_option (\<lambda>ts. json_tokens j @ ts) (lex_all r)"
proof (induction j arbitrary: r)
  case (JArr xs)
  have open_t: "lex_all (token_text TLBrack @ u) = map_option (\<lambda>ts. TLBrack # ts) (lex_all u)" for u using lex_Cons [of TLBrack u] by simp
  show ?case
  proof (cases "xs = []")
    case True
    then show ?thesis using open_t lex_Cons [of TRBrack r] by (simp add: option.map_comp comp_def)
  next
    case False
    have "lex_all (texts (join_tokens (map json_tokens xs)) @ token_text TRBrack @ r) =
        map_option (\<lambda>ts. join_tokens (map json_tokens xs) @ TRBrack # ts) (lex_all r)"
      using False JArr by (intro lex_joined) (auto simp: list_all_iff)
    then show ?thesis using open_t by (simp add: option.map_comp comp_def)
  qed
next
  case (JObj ms)
  have open_t: "lex_all (token_text TLBrace @ u) = map_option (\<lambda>ts. TLBrace # ts) (lex_all u)" for u using lex_Cons [of TLBrace u] by simp
  show ?case
  proof (cases "ms = []")
    case True
    then show ?thesis using open_t lex_Cons [of TRBrace r] by (simp add: option.map_comp comp_def)
  next
    case False
    have "lex_all (texts (member_tokens m) @ u) = map_option (\<lambda>ts. member_tokens m @ ts) (lex_all u)" if "m \<in> set ms" "closes u" for m u
    proof -
      obtain k j where m: "m = (k, j)" by (cases m)
      have "raw_ok k" "json_ok j" using JObj.prems(1) that(1) m by (auto simp: list_all_iff)
      then have "lex_all (texts (json_tokens j) @ u) = map_option (\<lambda>ts. json_tokens j @ ts) (lex_all u)"
        "lex_all (token_text (TStr k) @ v) = map_option (\<lambda>ts. TStr k # ts) (lex_all v)" for v
        using JObj.IH [of m j u] that m lex_Cons [of "TStr k" v] by auto
      then show ?thesis using m lex_Cons [of TColon] by (simp add: option.map_comp comp_def)
    qed
    then have "lex_all (texts (join_tokens (map member_tokens ms)) @ token_text TRBrace @ r) =
        map_option (\<lambda>ts. join_tokens (map member_tokens ms) @ TRBrace # ts) (lex_all r)"
      using False by (intro lex_joined) auto
    then show ?thesis using open_t by (simp add: option.map_comp comp_def)
  qed
qed (use lex_Cons [of TNull] lex_Cons [of TTrue] lex_Cons [of TFalse] lex_Cons [of "TNum _"] lex_Cons [of "TStr _"] in \<open>auto simp: append_single\<close>)

text \<open>A document that is written is read back, with spaces after it.\<close>

lemma json_parse_text_space:
  assumes "json_ok j" "depth j \<le> maxNestingDepth" "list_all json_space sp"
  shows "json_parse (json_text j @ sp) = Some j"
proof -
  have "dropWhile json_space sp = []" using assms(3) by (simp add: list_all_iff)
  then have "lex_all sp = Some []" by (subst lex_all.simps) simp
  moreover have "closes sp" using assms(3) by (cases sp) (simp_all add: closes_def)
  ultimately have "lex_all (json_text j @ sp) = Some (json_tokens j)" using lex_json [OF assms(1), of sp] by (simp add: json_text_def)
  then show ?thesis using scan_value [of "[]" j "[]"] assms(2) by (simp add: json_parse_def)
qed

lemma json_parse_text: "json_ok j \<Longrightarrow> depth j \<le> maxNestingDepth \<Longrightarrow> json_parse (json_text j) = Some j"
  using json_parse_text_space [of j "[]"] by simp

end
