(* ===== verification/Go_JSON_Text.thy ===== *)
theory Go_JSON_Text
  imports Go_JSON
begin

section \<open>Strings and integers in JSON (package encoding/json)\<close>

text \<open>
  How \<open>encoding/json\<close> writes a string (with the characters that matter in HTML escaped, which is its
  default) and reads one back. Go strings are bytes: those that are no valid UTF-8 are replaced by
  U+FFFD in both directions. \<open>utf8_width\<close> is the number of bytes that \<open>utf8.DecodeRune\<close> takes for a
  valid rune, 0 where it reports an error.
\<close>

subsection \<open>UTF-8\<close>

abbreviation code :: "char \<Rightarrow> nat" where "code \<equiv> of_char"

definition cont_byte :: "char \<Rightarrow> bool" where
  "cont_byte c \<longleftrightarrow> 128 \<le> code c \<and> code c \<le> 191"

definition second_byte :: "char \<Rightarrow> char \<Rightarrow> bool" where
  "second_byte a b \<longleftrightarrow>
     (if code a = 224 then 160 else if code a = 240 then 144 else 128) \<le> code b \<and>
     code b \<le> (if code a = 237 then 159 else if code a = 244 then 143 else 191)"

definition utf8_width :: "string \<Rightarrow> nat" where
  "utf8_width s =
     (case s of
        [] \<Rightarrow> 0
      | a # r \<Rightarrow>
          if code a < 128 then 1
          else if 194 \<le> code a \<and> code a \<le> 223 then (case r of b # _ \<Rightarrow> if cont_byte b then 2 else 0 | _ \<Rightarrow> 0)
          else if 224 \<le> code a \<and> code a \<le> 239 then
            (case r of b # c # _ \<Rightarrow> if second_byte a b \<and> cont_byte c then 3 else 0 | _ \<Rightarrow> 0)
          else if 240 \<le> code a \<and> code a \<le> 244 then
            (case r of b # c # d # _ \<Rightarrow> if second_byte a b \<and> cont_byte c \<and> cont_byte d then 4 else 0 | _ \<Rightarrow> 0)
          else 0)"

definition replacement :: string where
  "replacement = [CHR 0xEF, CHR 0xBF, CHR 0xBD]"

definition encode_rune :: "nat \<Rightarrow> string" where
  "encode_rune n =
     (if n < 128 then [char_of n]
      else if n < 2048 then [char_of (192 + n div 64), char_of (128 + n mod 64)]
      else if 55296 \<le> n \<and> n \<le> 57343 then replacement
      else if n < 65536 then [char_of (224 + n div 4096), char_of (128 + n div 64 mod 64), char_of (128 + n mod 64)]
      else [char_of (240 + n div 262144), char_of (128 + n div 4096 mod 64), char_of (128 + n div 64 mod 64), char_of (128 + n mod 64)])"

text \<open>The leading rune of a text as bytes, and the number of bytes it takes.\<close>

definition head_rune :: "string \<Rightarrow> string \<times> nat" where
  "head_rune s = (if utf8_width s = 0 then (replacement, 1) else (take (utf8_width s) s, utf8_width s))"

function utf8_clean :: "string \<Rightarrow> string" where
  "utf8_clean [] = []"
| "utf8_clean (c # s) = fst (head_rune (c # s)) @ utf8_clean (drop (snd (head_rune (c # s))) (c # s))"
  by pat_completeness auto
termination by (relation "measure length") (auto simp: head_rune_def)

function valid_utf8 :: "string \<Rightarrow> bool" where
  "valid_utf8 [] = True"
| "valid_utf8 (c # s) = (utf8_width (c # s) \<noteq> 0 \<and> valid_utf8 (drop (snd (head_rune (c # s))) (c # s)))"
  by pat_completeness auto
termination by (relation "measure length") (auto simp: head_rune_def)

declare utf8_clean.simps(2) [simp del] valid_utf8.simps(2) [simp del]

lemma utf8_clean_valid: "valid_utf8 s \<Longrightarrow> utf8_clean s = s"
proof (induction s rule: valid_utf8.induct)
  case (2 c s)
  then have "utf8_width (c # s) \<noteq> 0" "utf8_clean (drop (snd (head_rune (c # s))) (c # s)) = drop (snd (head_rune (c # s))) (c # s)"
    by (simp_all add: valid_utf8.simps(2))
  then show ?case by (simp add: utf8_clean.simps(2) head_rune_def)
qed simp

definition ascii :: "string \<Rightarrow> bool" where
  "ascii s \<longleftrightarrow> list_all (\<lambda>c. code c < 128) s"

lemma valid_utf8_ascii: "ascii s \<Longrightarrow> valid_utf8 s"
  by (induction s) (simp_all add: ascii_def valid_utf8.simps(2) head_rune_def utf8_width_def)

lemma utf8_width_cases:
  assumes "utf8_width s \<noteq> 0"
  obtains (one) a r where "s = a # r" "code a < 128" "utf8_width s = 1"
  | (two) a b r where "s = a # b # r" "194 \<le> code a" "code a \<le> 223" "cont_byte b" "utf8_width s = 2"
  | (three) a b c r where "s = a # b # c # r" "224 \<le> code a" "code a \<le> 239" "second_byte a b" "cont_byte c" "utf8_width s = 3"
  | (four) a b c d r where "s = a # b # c # d # r" "240 \<le> code a" "code a \<le> 244" "second_byte a b" "cont_byte c" "cont_byte d" "utf8_width s = 4"
proof -
  obtain a r where s: "s = a # r" using assms by (cases s) (auto simp: utf8_width_def)
  consider "code a < 128" | "194 \<le> code a" "code a \<le> 223" | "224 \<le> code a" "code a \<le> 239" | "240 \<le> code a" "code a \<le> 244"
    using assms s by (fastforce simp: utf8_width_def split: if_splits)
  then show thesis
  proof cases
    case 1
    then show thesis using one [of a r] s by (simp add: utf8_width_def)
  next
    case 2
    then show thesis using two [of a] s assms by (cases r) (auto simp: utf8_width_def split: if_splits)
  next
    case 3
    then show thesis using three [of a] s assms by (cases r; cases "tl r") (auto simp: utf8_width_def split: if_splits)
  next
    case 4
    then show thesis using four [of a] s assms
      by (cases r; cases "tl r"; cases "tl (tl r)") (auto simp: utf8_width_def split: if_splits)
  qed
qed

lemma utf8_width_shapes [simp]:
  "code a < 128 \<Longrightarrow> utf8_width (a # r) = 1"
  "194 \<le> code a \<Longrightarrow> code a \<le> 223 \<Longrightarrow> cont_byte b \<Longrightarrow> utf8_width (a # b # r) = 2"
  "224 \<le> code a \<Longrightarrow> code a \<le> 239 \<Longrightarrow> second_byte a b \<Longrightarrow> cont_byte c \<Longrightarrow> utf8_width (a # b # c # r) = 3"
  "240 \<le> code a \<Longrightarrow> code a \<le> 244 \<Longrightarrow> second_byte a b \<Longrightarrow> cont_byte c \<Longrightarrow> cont_byte d \<Longrightarrow> utf8_width (a # b # c # d # r) = 4"
  by (simp_all add: utf8_width_def)

lemma utf8_width_head: "utf8_width s \<noteq> 0 \<Longrightarrow> utf8_width (take (utf8_width s) s @ r) = utf8_width s"
  by (erule utf8_width_cases) simp_all

lemma utf8_width_le: "utf8_width s \<le> length s"
  by (cases "utf8_width s = 0") (simp, erule utf8_width_cases, simp_all)

lemma second_byte_high: "second_byte a b \<Longrightarrow> 128 \<le> code b"
  by (auto simp: second_byte_def split: if_splits)

lemma utf8_width_high: "utf8_width s \<noteq> 0 \<Longrightarrow> code (hd s) \<ge> 128 \<Longrightarrow> list_all (\<lambda>c. code c \<ge> 128) (take (utf8_width s) s)"
  by (erule utf8_width_cases) (simp_all add: cont_byte_def second_byte_high)

subsection \<open>Reading a string: unquoteBytes\<close>

definition hex_value :: "char \<Rightarrow> nat" where
  "hex_value c = (if code c \<le> 57 then code c - 48 else if 97 \<le> code c then code c - 87 else code c - 55)"

definition getu4 :: "string \<Rightarrow> nat option" where
  "getu4 s = (if 4 \<le> length s \<and> list_all is_hex (take 4 s) then Some (foldl (\<lambda>n c. 16 * n + hex_value c) 0 (take 4 s)) else None)"

definition simple_escape :: "char \<Rightarrow> char option" where
  "simple_escape e =
     (if e = quote_char \<or> e = backslash \<or> e = CHR ''/'' then Some e
      else if e = CHR ''b'' then Some (CHR 0x08) else if e = CHR ''f'' then Some (CHR 0x0C) else if e = CHR ''n'' then Some (CHR 0x0A)
      else if e = CHR ''r'' then Some (CHR 0x0D) else if e = CHR ''t'' then Some (CHR 0x09) else None)"

text \<open>A low surrogate that completes the high surrogate \<open>rr\<close>: the rune of the pair.\<close>

definition surrogate_pair :: "nat \<Rightarrow> string \<Rightarrow> nat option" where
  "surrogate_pair rr s =
     (case s of
        b # u # r \<Rightarrow>
          if b = backslash \<and> u = CHR ''u'' \<and> 55296 \<le> rr \<and> rr \<le> 56319 then
            (case getu4 r of
               Some rr1 \<Rightarrow> if 56320 \<le> rr1 \<and> rr1 \<le> 57343 then Some ((rr - 55296) * 1024 + (rr1 - 56320) + 65536) else None
             | None \<Rightarrow> None)
          else None
      | _ \<Rightarrow> None)"

function unquote :: "string \<Rightarrow> string option" where
  "unquote [] = Some []"
| "unquote (c # s) =
     (if c = backslash then
        (case s of
           [] \<Rightarrow> None
         | e # r \<Rightarrow>
             if e = CHR ''u'' then
               (case getu4 r of
                  None \<Rightarrow> None
                | Some rr \<Rightarrow>
                    if 55296 \<le> rr \<and> rr \<le> 57343 then
                      (case surrogate_pair rr (drop 4 r) of
                         Some rune \<Rightarrow> map_option (\<lambda>u. encode_rune rune @ u) (unquote (drop 10 r))
                       | None \<Rightarrow> map_option (\<lambda>u. replacement @ u) (unquote (drop 4 r)))
                    else map_option (\<lambda>u. encode_rune rr @ u) (unquote (drop 4 r)))
             else (case simple_escape e of None \<Rightarrow> None | Some x \<Rightarrow> map_option (\<lambda>u. x # u) (unquote r)))
      else if c = quote_char \<or> code c < 32 then None
      else map_option (\<lambda>u. fst (head_rune (c # s)) @ u) (unquote (drop (snd (head_rune (c # s))) (c # s))))"
  by pat_completeness auto
termination by (relation "measure length") (auto simp: head_rune_def)

declare unquote.simps(2) [simp del]

subsection \<open>Writing a string: appendString\<close>

definition hex_digit :: "nat \<Rightarrow> char" where
  "hex_digit n = char_of (if n < 10 then 48 + n else 87 + n)"

definition html_safe :: "char \<Rightarrow> bool" where
  "html_safe c \<longleftrightarrow> 32 \<le> code c \<and> c \<noteq> quote_char \<and> c \<noteq> backslash \<and> c \<notin> set ''<>&''"

definition ascii_escape :: "char \<Rightarrow> string" where
  "ascii_escape c =
     (if html_safe c then [c]
      else if c = quote_char \<or> c = backslash then [backslash, c]
      else if c = CHR 0x08 then [backslash, CHR ''b''] else if c = CHR 0x0C then [backslash, CHR ''f'']
      else if c = CHR 0x0A then [backslash, CHR ''n''] else if c = CHR 0x0D then [backslash, CHR ''r'']
      else if c = CHR 0x09 then [backslash, CHR ''t'']
      else [backslash, CHR ''u'', CHR ''0'', CHR ''0'', hex_digit (code c div 16), hex_digit (code c mod 16)])"

text \<open>What is written for the head of a text. U+2028 and U+2029 are escaped, for JavaScript.\<close>

definition head_escape :: "string \<Rightarrow> string" where
  "head_escape s =
     (if code (hd s) < 128 then ascii_escape (hd s)
      else if utf8_width s = 0 then backslash # ''ufffd''
      else if take 3 s = [CHR 0xE2, CHR 0x80, CHR 0xA8] then backslash # ''u2028''
      else if take 3 s = [CHR 0xE2, CHR 0x80, CHR 0xA9] then backslash # ''u2029''
      else take (utf8_width s) s)"

function escape_string :: "string \<Rightarrow> string" where
  "escape_string [] = []"
| "escape_string (c # s) = head_escape (c # s) @ escape_string (drop (snd (head_rune (c # s))) (c # s))"
  by pat_completeness auto
termination by (relation "measure length") (auto simp: head_rune_def)

declare escape_string.simps(2) [simp del]

subsection \<open>What is written is read back\<close>

lemma quote_backslash [simp]: "quote_char \<noteq> backslash" "backslash \<noteq> quote_char" "code quote_char = 34" "code backslash = 92"
  "quote_char \<noteq> CHR ''u''" "backslash \<noteq> CHR ''u''" "CHR ''u'' \<noteq> quote_char" "CHR ''u'' \<noteq> backslash"
  by (simp_all add: quote_char_def backslash_def)

lemma lex_plain:
  "list_all (\<lambda>c. 32 \<le> code c \<and> c \<noteq> quote_char \<and> c \<noteq> backslash) p \<Longrightarrow>
   lex_string (p @ r) = map_option (\<lambda>(raw, rest). (p @ raw, rest)) (lex_string r)"
  by (induction p) (auto simp: option.map_comp comp_def case_prod_unfold option.map_ident)

lemma lex_escaped:
  "e \<in> set ''bfnrt/'' \<or> e = backslash \<or> e = quote_char \<Longrightarrow>
   lex_string (backslash # e # r) = map_option (\<lambda>(raw, rest). (backslash # e # raw, rest)) (lex_string r)"
  by (simp only: lex_string.simps(2) list.case quote_backslash if_False if_True simp_thms)

lemma lex_unicode:
  assumes "list_all is_hex [h1, h2, h3, h4]"
  shows "lex_string (backslash # CHR ''u'' # h1 # h2 # h3 # h4 # r) =
    map_option (\<lambda>(raw, rest). (backslash # CHR ''u'' # h1 # h2 # h3 # h4 # raw, rest)) (lex_string r)"
  using assms by (simp add: backslash_def quote_char_def eval_nat_numeral)

lemma unquote_escaped:
  "simple_escape e = Some x \<Longrightarrow> unquote (backslash # e # r) = map_option (\<lambda>u. x # u) (unquote r)"
  by (auto simp: unquote.simps(2) simple_escape_def split: if_splits)

lemma getu4_Cons: "list_all is_hex [h1, h2, h3, h4] \<Longrightarrow>
    getu4 (h1 # h2 # h3 # h4 # r) = Some (16 * (16 * (16 * hex_value h1 + hex_value h2) + hex_value h3) + hex_value h4)"
  by (simp add: getu4_def eval_nat_numeral)

lemma unquote_unicode:
  assumes "list_all is_hex [h1, h2, h3, h4]" "getu4 [h1, h2, h3, h4] = Some rr" "rr < 55296 \<or> 57343 < rr"
  shows "unquote (backslash # CHR ''u'' # h1 # h2 # h3 # h4 # r) = map_option (\<lambda>u. encode_rune rr @ u) (unquote r)"
proof -
  have "getu4 (h1 # h2 # h3 # h4 # r) = Some rr" using assms(2) getu4_Cons [OF assms(1)] by simp
  then show ?thesis using assms(3) by (auto simp: unquote.simps(2))
qed

lemma hex_digit_facts: "n < 16 \<Longrightarrow> is_hex (hex_digit n) \<and> hex_value (hex_digit n) = n"
proof -
  assume "n < 16"
  then consider "n < 10" | "n = 10" | "n = 11" | "n = 12" | "n = 13" | "n = 14" | "n = 15" by linarith
  then show ?thesis by cases (simp_all add: hex_digit_def is_hex_def is_digit_def hex_value_def)
qed

lemma ascii_unicode:
  assumes "code c < 128"
  shows "list_all is_hex [CHR ''0'', CHR ''0'', hex_digit (code c div 16), hex_digit (code c mod 16)]"
    "getu4 [CHR ''0'', CHR ''0'', hex_digit (code c div 16), hex_digit (code c mod 16)] = Some (code c)" "encode_rune (code c) = [c]"
proof -
  have "is_hex (CHR ''0'')" "hex_value (CHR ''0'') = 0" by (simp_all add: is_hex_def is_digit_def hex_value_def)
  moreover have "code c div 16 < 16" "code c mod 16 < 16" using assms by auto
  ultimately show hex: "list_all is_hex [CHR ''0'', CHR ''0'', hex_digit (code c div 16), hex_digit (code c mod 16)]"
    and "getu4 [CHR ''0'', CHR ''0'', hex_digit (code c div 16), hex_digit (code c mod 16)] = Some (code c)"
    using hex_digit_facts [of "code c div 16"] hex_digit_facts [of "code c mod 16"] by (auto simp: getu4_Cons)
  show "encode_rune (code c) = [c]" using assms by (simp add: encode_rune_def)
qed

lemma ascii_escape_cases:
  obtains (safe) "html_safe c"
    | (simple) e where "ascii_escape c = [backslash, e]" "simple_escape e = Some c" "e \<in> set ''bfnrt/'' \<or> e = backslash \<or> e = quote_char"
    | (unicode) "ascii_escape c = [backslash, CHR ''u'', CHR ''0'', CHR ''0'', hex_digit (code c div 16), hex_digit (code c mod 16)]"
proof -
  have ctl: "\<not> html_safe (CHR 0x08)" "\<not> html_safe (CHR 0x0C)" "\<not> html_safe (CHR 0x0A)" "\<not> html_safe (CHR 0x0D)" "\<not> html_safe (CHR 0x09)"
    by (simp_all add: html_safe_def)
  note defs = ascii_escape_def simple_escape_def quote_char_def backslash_def
  show thesis
  proof (cases "c \<in> {quote_char, backslash, CHR 0x08, CHR 0x0C, CHR 0x0A, CHR 0x0D, CHR 0x09}")
    case True
    then consider "c = quote_char \<or> c = backslash" | "c = CHR 0x08" | "c = CHR 0x0C" | "c = CHR 0x0A" | "c = CHR 0x0D" | "c = CHR 0x09" by blast
    then show thesis
    proof cases
      case 1
      then have "\<not> html_safe c" by (auto simp: html_safe_def)
      with 1 show thesis using simple [of c] by (auto simp: defs)
    next
      case 2 then show thesis using simple [of "CHR ''b''"] ctl by (simp add: defs)
    next
      case 3 then show thesis using simple [of "CHR ''f''"] ctl by (simp add: defs)
    next
      case 4 then show thesis using simple [of "CHR ''n''"] ctl by (simp add: defs)
    next
      case 5 then show thesis using simple [of "CHR ''r''"] ctl by (simp add: defs)
    next
      case 6 then show thesis using simple [of "CHR ''t''"] ctl by (simp add: defs)
    qed
  next
    case False
    then show thesis using safe unicode by (cases "html_safe c") (simp_all add: ascii_escape_def)
  qed
qed

lemma ascii_escape_read:
  assumes "code c < 128"
  shows "lex_string (ascii_escape c @ r) = map_option (\<lambda>(raw, rest). (ascii_escape c @ raw, rest)) (lex_string r) \<and>
    unquote (ascii_escape c @ r) = map_option (\<lambda>u. c # u) (unquote r)"
proof (cases rule: ascii_escape_cases [of c])
  case safe
  then have p: "32 \<le> code c" "c \<noteq> quote_char" "c \<noteq> backslash" and a: "ascii_escape c = [c]"
    by (auto simp: html_safe_def ascii_escape_def)
  then show ?thesis using lex_plain [of "[c]" r] assms by (simp add: unquote.simps(2) head_rune_def append_single)
next
  case (simple e)
  then show ?thesis using lex_escaped [OF simple(3), of r] unquote_escaped [OF simple(2), of r] by simp
next
  case unicode
  then show ?thesis
    using lex_unicode [OF ascii_unicode(1) [OF assms], of r] unquote_unicode [OF ascii_unicode(1,2) [OF assms], of r] ascii_unicode(3) [OF assms] assms
    by simp
qed

lemma head_escape_read:
  assumes "s \<noteq> []"
  shows "lex_string (head_escape s @ r) = map_option (\<lambda>(raw, rest). (head_escape s @ raw, rest)) (lex_string r) \<and>
    unquote (head_escape s @ r) = map_option (\<lambda>u. fst (head_rune s) @ u) (unquote r)"
proof -
  have uni: "lex_string ((backslash # CHR ''u'' # [h1, h2, h3, h4]) @ r) =
      map_option (\<lambda>(raw, rest). ((backslash # CHR ''u'' # [h1, h2, h3, h4]) @ raw, rest)) (lex_string r) \<and>
      unquote ((backslash # CHR ''u'' # [h1, h2, h3, h4]) @ r) = map_option (\<lambda>u. encode_rune rr @ u) (unquote r)"
    if "list_all is_hex [h1, h2, h3, h4]" "getu4 [h1, h2, h3, h4] = Some rr" "rr < 55296 \<or> 57343 < rr" for h1 h2 h3 h4 rr
    using lex_unicode [OF that(1), of r] unquote_unicode [OF that, of r] by simp
  have hexes: "list_all is_hex ''fffd''" "list_all is_hex ''2028''" "list_all is_hex ''2029''"
    by (simp_all add: is_hex_def is_digit_def)
  then have rrs: "getu4 ''fffd'' = Some 65533" "getu4 ''2028'' = Some 8232" "getu4 ''2029'' = Some 8233"
    by (simp_all add: getu4_Cons hex_value_def)
  have runes: "encode_rune 65533 = replacement" "encode_rune 8232 = [CHR 0xE2, CHR 0x80, CHR 0xA8]" "encode_rune 8233 = [CHR 0xE2, CHR 0x80, CHR 0xA9]"
    using char_of_char [of "CHR 0xEF", where ?'a = nat] char_of_char [of "CHR 0xBF", where ?'a = nat] char_of_char [of "CHR 0xBD", where ?'a = nat]
      char_of_char [of "CHR 0xE2", where ?'a = nat] char_of_char [of "CHR 0x80", where ?'a = nat] char_of_char [of "CHR 0xA8", where ?'a = nat]
      char_of_char [of "CHR 0xA9", where ?'a = nat]
    by (simp_all add: encode_rune_def replacement_def)
  have w3: "utf8_width s = 3" if "take 3 s = [CHR 0xE2, CHR 0x80, x]" "x \<in> {CHR 0xA8, CHR 0xA9}" for x
  proof -
    have "s = CHR 0xE2 # CHR 0x80 # x # drop 3 s"
      using append_take_drop_id [of 3 s, symmetric] unfolding that(1) append.simps .
    then show ?thesis
      using that(2) utf8_width_shapes(3) [of "CHR 0xE2" "CHR 0x80" x "drop 3 s"] by (auto simp: second_byte_def cont_byte_def)
  qed
  obtain c t where s: "s = c # t" using assms by (cases s) auto
  consider (ascii) "code c < 128" | (invalid) "128 \<le> code c" "utf8_width s = 0"
    | (ls) "128 \<le> code c" "utf8_width s \<noteq> 0" "take 3 s = [CHR 0xE2, CHR 0x80, CHR 0xA8]"
    | (ps) "128 \<le> code c" "utf8_width s \<noteq> 0" "take 3 s = [CHR 0xE2, CHR 0x80, CHR 0xA9]"
    | (plain) "128 \<le> code c" "utf8_width s \<noteq> 0" "take 3 s \<noteq> [CHR 0xE2, CHR 0x80, CHR 0xA8]" "take 3 s \<noteq> [CHR 0xE2, CHR 0x80, CHR 0xA9]"
    by linarith
  then show ?thesis
  proof cases
    case ascii
    then show ?thesis using ascii_escape_read [OF ascii, of r] s by (simp add: head_escape_def head_rune_def append_single)
  next
    case invalid
    then show ?thesis using uni [OF hexes(1) rrs(1)] s runes by (simp add: head_escape_def head_rune_def)
  next
    case ls
    then show ?thesis using uni [OF hexes(2) rrs(2)] s runes w3 [of "CHR 0xA8"] by (simp add: head_escape_def head_rune_def)
  next
    case ps
    then show ?thesis using uni [OF hexes(3) rrs(3)] s runes w3 [of "CHR 0xA9"] by (simp add: head_escape_def head_rune_def)
  next
    case plain
    let ?p = "take (utf8_width s) s"
    have h: "128 \<le> code (hd s)" using plain(1) s by simp
    then have he: "head_escape s = ?p" using plain(2-4) by (simp add: head_escape_def)
    have high: "list_all (\<lambda>c. code c \<ge> 128) ?p" by (rule utf8_width_high [OF plain(2) h])
    then have "list_all (\<lambda>c. 32 \<le> code c \<and> c \<noteq> quote_char \<and> c \<noteq> backslash) ?p" by (auto simp: list_all_iff)
    moreover have "unquote (?p @ r) = map_option (\<lambda>u. ?p @ u) (unquote r)"
    proof -
      obtain u where p: "?p = c # u" using s plain(2) by (cases "utf8_width s") auto
      have w: "utf8_width (?p @ r) = utf8_width s" by (rule utf8_width_head [OF plain(2)])
      have "take (utf8_width s) (?p @ r) = ?p" "drop (utf8_width s) (?p @ r) = r"
        using utf8_width_le [of s] by simp_all
      moreover have "c \<noteq> backslash" "c \<noteq> quote_char" using plain(1) by auto
      ultimately show ?thesis using w plain(1,2) unfolding p append_Cons
        by (cases "unquote r") (simp_all add: unquote.simps(2) head_rune_def)
    qed
    ultimately show ?thesis using lex_plain [of ?p r] plain(2) by (simp add: he head_rune_def)
  qed
qed

lemma raw_ok_escape [simp]: "raw_ok (escape_string s)"
  unfolding raw_ok_def
proof
  show "lex_string (escape_string s @ quote_char # r) = Some (escape_string s, r)" for r
  proof (induction s rule: escape_string.induct)
    case (2 c s)
    then show ?case using head_escape_read [of "c # s"] by (simp add: escape_string.simps(2))
  qed simp
qed

lemma unquote_escape [simp]: "unquote (escape_string s) = Some (utf8_clean s)"
proof (induction s rule: escape_string.induct)
  case (2 c s)
  then show ?case using head_escape_read [of "c # s"] by (simp add: escape_string.simps(2) utf8_clean.simps(2))
qed simp

end
