(* ===== verification/Go_JSON_Decode.thy ===== *)
theory Go_JSON_Decode
  imports Go_JSON_Text Text_Order
begin

section \<open>Decoding JSON values (json.Unmarshal)\<close>

text \<open>
  How \<open>json.Unmarshal\<close> stores a value in a Go variable of type \<open>string\<close>, \<open>int\<close>, \<open>time.Time\<close>, a slice
  or a struct. A decoder takes the value and the old content of the variable; \<open>None\<close> is an error,
  after which the program never looks at the variable. \<open>null\<close> leaves strings, integers, times and
  structs alone and sets a slice to nil. An array overwrites the cells of a slice one by one, so a
  \<open>null\<close> element shows what a cell held before; the cells behind the length stay in memory. A struct
  takes members by exact name, then by folded name, skips unknown ones, and a later member
  overwrites an earlier one.
\<close>

subsection \<open>Decoders\<close>

definition dec_string :: "json \<Rightarrow> string \<Rightarrow> string option" where
  "dec_string j old = (case j of JNull \<Rightarrow> Some old | JStr raw \<Rightarrow> unquote raw | _ \<Rightarrow> None)"

definition dec_int :: "json \<Rightarrow> int \<Rightarrow> int option" where
  "dec_int j old = (case j of JNull \<Rightarrow> Some old | JNum raw \<Rightarrow> Atoi raw | _ \<Rightarrow> None)"

text \<open>\<open>Time.UnmarshalJSON\<close> reads the text between the quotes without unquoting it.\<close>

definition dec_time :: "json \<Rightarrow> gotime \<Rightarrow> gotime option" where
  "dec_time j old = (case j of JNull \<Rightarrow> Some old | JStr raw \<Rightarrow> ParseRFC3339 raw | _ \<Rightarrow> None)"

record 'a slice =
  cells :: "'a list"
  len :: nat

definition nil_slice :: "'a slice" where "nil_slice = \<lparr>cells = [], len = 0\<rparr>"

definition elems :: "'a slice \<Rightarrow> 'a list" where "elems s = take (len s) (cells s)"

fun dec_cells :: "'a \<Rightarrow> (json \<Rightarrow> 'a \<Rightarrow> 'a option) \<Rightarrow> json list \<Rightarrow> 'a list \<Rightarrow> 'a list option" where
  "dec_cells zero rd [] cs = Some cs"
| "dec_cells zero rd (j # js) cs =
     do { c \<leftarrow> rd j (case cs of [] \<Rightarrow> zero | c # _ \<Rightarrow> c); cs \<leftarrow> dec_cells zero rd js (tl cs); Some (c # cs) }"

definition dec_slice :: "'a \<Rightarrow> (json \<Rightarrow> 'a \<Rightarrow> 'a option) \<Rightarrow> json \<Rightarrow> 'a slice \<Rightarrow> 'a slice option" where
  "dec_slice zero rd j old =
     (case j of
        JNull \<Rightarrow> Some nil_slice
      | JArr [] \<Rightarrow> Some nil_slice
      | JArr js \<Rightarrow> map_option (\<lambda>cs. \<lparr>cells = cs, len = length js\<rparr>) (dec_cells zero rd js (cells old))
      | _ \<Rightarrow> None)"

text \<open>
  Folded names: ASCII letters in upper case, and the two other runes that fold to an ASCII letter,
  U+212A (the Kelvin sign) and U+017F (the long s). Every other rune folds to a rune outside ASCII,
  which no field name of the program has; it stands for itself here.
\<close>

function fold_name :: "string \<Rightarrow> string" where
  "fold_name [] = []"
| "fold_name (c # s) =
     (if c = CHR 0xE2 \<and> take 2 s = [CHR 0x84, CHR 0xAA] then CHR ''K'' # fold_name (drop 2 s)
      else if c = CHR 0xC5 \<and> take 1 s = [CHR 0xBF] then CHR ''S'' # fold_name (drop 1 s)
      else if 97 \<le> code c \<and> code c \<le> 122 then char_of (code c - 32) # fold_name s
      else c # fold_name s)"
  by pat_completeness auto
termination by (relation "measure length") auto

type_synonym 'a field_table = "(string \<times> (json \<Rightarrow> 'a \<Rightarrow> 'a option)) list"

definition find_field :: "'a field_table \<Rightarrow> string \<Rightarrow> (json \<Rightarrow> 'a \<Rightarrow> 'a option) option" where
  "find_field fs key =
     (case map_of fs key of
        Some rd \<Rightarrow> Some rd
      | None \<Rightarrow> map_of (map (\<lambda>(name, rd). (fold_name name, rd)) fs) (fold_name key))"

fun dec_members :: "'a field_table \<Rightarrow> (string \<times> json) list \<Rightarrow> 'a \<Rightarrow> 'a option" where
  "dec_members fs [] r = Some r"
| "dec_members fs ((k, j) # ms) r =
     do { key \<leftarrow> unquote k;
          r \<leftarrow> (case find_field fs key of None \<Rightarrow> Some r | Some rd \<Rightarrow> rd j r);
          dec_members fs ms r }"

definition dec_struct :: "'a field_table \<Rightarrow> json \<Rightarrow> 'a \<Rightarrow> 'a option" where
  "dec_struct fs j old = (case j of JNull \<Rightarrow> Some old | JObj ms \<Rightarrow> dec_members fs ms old | _ \<Rightarrow> None)"

text \<open>A field of a struct, by its selector and its update.\<close>

definition field :: "('a \<Rightarrow> 'b) \<Rightarrow> (('b \<Rightarrow> 'b) \<Rightarrow> 'a \<Rightarrow> 'a) \<Rightarrow> (json \<Rightarrow> 'b \<Rightarrow> 'b option) \<Rightarrow> json \<Rightarrow> 'a \<Rightarrow> 'a option" where
  "field get upd rd j r = map_option (\<lambda>x. upd (\<lambda>_. x) r) (rd j (get r))"

definition Unmarshal :: "(json \<Rightarrow> 'a \<Rightarrow> 'a option) \<Rightarrow> 'a \<Rightarrow> string \<Rightarrow> 'a option" where
  "Unmarshal rd zero data = do { j \<leftarrow> json_parse data; rd j zero }"

subsection \<open>Writing strings, integers and times\<close>

definition JText :: "string \<Rightarrow> json" where "JText s = JStr (escape_string s)"
definition JInt :: "int \<Rightarrow> json" where "JInt n = JNum (Itoa n)"
definition JTime :: "gotime \<Rightarrow> json" where "JTime t = JStr (FormatRFC3339Nano t)"

lemma dec_head: "0 < n \<Longrightarrow> hd (dec n) \<noteq> CHR ''0''"
proof (induction n rule: dec.induct)
  case (1 n)
  show ?case
  proof (cases "n < 10")
    case True
    with 1(2) have "digit_value (digit (int n)) \<noteq> 0" using digit_props [of "int n"] by simp
    moreover have "digit_value (CHR ''0'') = 0" by code_simp
    ultimately have "digit (int n) \<noteq> CHR ''0''" by metis
    with True show ?thesis by (simp add: dec.simps [of n])
  next
    case False
    then have "hd (dec (n div 10)) \<noteq> CHR ''0''" "dec (n div 10) \<noteq> []" using 1 dec_digits by auto
    with False show ?thesis by (simp add: dec.simps [of n])
  qed
qed

lemma closes_not_digit: "closes r \<Longrightarrow> takeWhile is_digit r = [] \<and> dropWhile is_digit r = r"
  by (cases r) (auto simp: closes_def is_digit_def json_space_def)

lemma lex_int_dec:
  assumes "closes r"
  shows "lex_int (dec n @ r) = Some (dec n, r)"
proof -
  obtain c u where d: "dec n = c # u" using dec_digits [of n] by (cases "dec n") auto
  have digits: "is_digit c" "\<forall>x\<in>set u. is_digit x" using dec_digits [of n] d by (auto simp: list_all_iff)
  show ?thesis
  proof (cases "c = CHR ''0''")
    case True
    then have "n = 0" using dec_head [of n] d by auto
    then have "u = []" using d by (simp add: dec.simps)
    then show ?thesis using True d by (simp add: lex_int_def)
  next
    case False
    then show ?thesis using d digits closes_not_digit [OF assms]
      by (simp add: lex_int_def takeWhile_append2 dropWhile_append2)
  qed
qed

lemma num_ok_Itoa [simp]: "num_ok (Itoa n)"
proof -
  have tail: "lex_frac r = Some ([], r)" "lex_exp r = Some ([], r)" if "closes r" for r
    using that by (cases r; auto simp: closes_def json_space_def lex_frac_def lex_exp_def)+
  have d: "dec k \<noteq> []" "is_digit (hd (dec k))" for k using dec_digits [of k] by (cases "dec k"; simp)+
  then have h: "hd (dec k) \<noteq> CHR ''-''" for k using not_digit(1) by metis
  have "hd (dec k @ r) = hd (dec k)" for k r using d(1) by simp
  then show ?thesis using d h by (auto simp: num_ok_def Itoa_def lex_number_def lex_int_dec tail)
qed

lemma FormatRFC3339Nano_chars: "c \<in> set (FormatRFC3339Nano t) \<Longrightarrow> is_digit c \<or> c \<in> set ''-:T.Z+''"
proof -
  have i: "is_digit c \<or> c = CHR ''-''" if "c \<in> set (append_int x w)" for c x w
    using that dec_digits [of "nat \<bar>x\<bar>"] by (auto simp: append_int_def Let_def list_all_iff is_digit_def split: if_splits)
  have f: "is_digit c \<or> c = CHR ''.''" if "c \<in> set (format_fraction x)" for c x
    using that trim_zeros_digits [OF fixed_digits, of 9 x] by (auto simp: format_fraction_def list_all_iff simp del: fixed.simps split: if_splits)
  have z: "is_digit c \<or> c \<in> set ''-:Z+''" if "c \<in> set (format_zone x)" for c x
    using that by (auto simp: format_zone_def Let_def split: if_splits dest!: i)
  show "c \<in> set (FormatRFC3339Nano t) \<Longrightarrow> is_digit c \<or> c \<in> set ''-:T.Z+''"
    by (auto simp: FormatRFC3339Nano_def Let_def split: prod.splits dest!: i f z)
qed

lemma raw_ok_plain: "list_all (\<lambda>c. 32 \<le> code c \<and> c \<noteq> quote_char \<and> c \<noteq> backslash) p \<Longrightarrow> raw_ok p"
  by (simp add: raw_ok_def lex_plain)

lemma unquote_plain: "list_all (\<lambda>c. 32 \<le> code c \<and> code c < 128 \<and> c \<noteq> quote_char \<and> c \<noteq> backslash) p \<Longrightarrow> unquote p = Some p"
  by (induction p) (simp_all add: unquote.simps(2) head_rune_def)

lemma raw_ok_Format [simp]: "raw_ok (FormatRFC3339Nano t)"
proof (rule raw_ok_plain)
  have "32 \<le> code c \<and> c \<noteq> quote_char \<and> c \<noteq> backslash" if "is_digit c \<or> c \<in> set ''-:T.Z+''" for c
    using that by (auto simp: is_digit_def quote_char_def backslash_def)
  then show "list_all (\<lambda>c. 32 \<le> code c \<and> c \<noteq> quote_char \<and> c \<noteq> backslash) (FormatRFC3339Nano t)"
    using FormatRFC3339Nano_chars by (auto simp: list_all_iff)
qed

subsection \<open>What is written is decoded\<close>

text \<open>
  A type that is written by \<open>enc\<close> and decoded by \<open>rd\<close>: whatever the variable held before, it stands
  for the written value afterwards. \<open>view\<close> is what the program sees of a variable, for a slice its
  elements. \<open>d\<close> bounds the nesting.
\<close>

locale json_codec =
  fixes ok :: "'a \<Rightarrow> bool" and enc :: "'a \<Rightarrow> json" and rd :: "json \<Rightarrow> 'c \<Rightarrow> 'c option" and view :: "'c \<Rightarrow> 'a" and d :: nat
  assumes enc_ok: "ok x \<Longrightarrow> json_ok (enc x)"
    and enc_depth: "ok x \<Longrightarrow> depth (enc x) \<le> d"
    and dec_enc: "ok x \<Longrightarrow> \<exists>c. rd (enc x) old = Some c \<and> view c = x"
begin

text \<open>With any spaces after the document, such as the newline of \<open>Encoder.Encode\<close>.\<close>

lemma Unmarshal_enc:
  assumes "ok x" "d \<le> maxNestingDepth" "list_all json_space sp"
  shows "\<exists>c. Unmarshal rd zero (json_text (enc x) @ sp) = Some c \<and> view c = x"
  using json_parse_text_space [OF enc_ok [OF assms(1)] _ assms(3)] enc_depth [OF assms(1)] dec_enc [OF assms(1)] assms(2)
  by (auto simp: Unmarshal_def)

lemma dec_cells_enc:
  "list_all ok xs \<Longrightarrow> \<exists>cs. dec_cells zero rd (map enc xs) old = Some cs \<and> map view (take (length xs) cs) = xs"
proof (induction xs arbitrary: old)
  case (Cons x xs)
  obtain c where "rd (enc x) (case old of [] \<Rightarrow> zero | c # _ \<Rightarrow> c) = Some c" "view c = x"
    using dec_enc [of x "case old of [] \<Rightarrow> zero | c # _ \<Rightarrow> c"] Cons.prems by auto
  moreover obtain cs where "dec_cells zero rd (map enc xs) (tl old) = Some cs" "map view (take (length xs) cs) = xs"
    using Cons.IH [of "tl old"] Cons.prems by auto
  ultimately show ?case by simp
qed simp

end

locale json_array = json_codec ok enc rd view d
  for ok :: "'a \<Rightarrow> bool" and enc :: "'a \<Rightarrow> json" and rd :: "json \<Rightarrow> 'c \<Rightarrow> 'c option" and view :: "'c \<Rightarrow> 'a" and d :: nat +
  fixes zero :: 'c

sublocale json_array \<subseteq> array: json_codec "list_all ok" "\<lambda>xs. JArr (map enc xs)" "dec_slice zero rd" "\<lambda>s. map view (elems s)" "Suc d"
proof
  fix xs assume ok: "list_all ok xs"
  then show "json_ok (JArr (map enc xs))" using enc_ok by (auto simp: list_all_iff)
  have "fold max ys a \<le> n" if "\<forall>y\<in>set ys. y \<le> n" "a \<le> n" for ys and a n :: nat
    using that by (induction ys arbitrary: a) auto
  then show "depth (JArr (map enc xs)) \<le> Suc d" using ok enc_depth by (auto simp: list_all_iff)
  show "\<exists>c. dec_slice zero rd (JArr (map enc xs)) old = Some c \<and> map view (elems c) = xs" for old
  proof (cases xs)
    case Nil
    then show ?thesis by (simp add: dec_slice_def nil_slice_def elems_def)
  next
    case (Cons y ys)
    then show ?thesis using dec_cells_enc [OF ok, of zero "cells old"] by (auto simp: dec_slice_def elems_def)
  qed
qed

interpretation jtext: json_codec valid_utf8 JText dec_string id 0
  by unfold_locales (simp_all add: JText_def dec_string_def utf8_clean_valid)

interpretation jint: json_array fits64 JInt dec_int id 0 0
  by unfold_locales (simp_all add: JInt_def dec_int_def Atoi_Itoa)

interpretation jtime: json_codec formattable JTime dec_time id 0
  by unfold_locales (simp_all add: JTime_def dec_time_def ParseRFC3339_Format)

lemma dec_time_JTime [simp]: "formattable t \<Longrightarrow> dec_time (JTime t) old = Some t"
  by (simp add: JTime_def dec_time_def ParseRFC3339_Format)

lemma dec_string_JText [simp]: "dec_string (JText s) old = Some (utf8_clean s)"
  by (simp add: JText_def dec_string_def)

lemma dec_int_JInt [simp]: "fits64 n \<Longrightarrow> dec_int (JInt n) old = Some n"
  by (simp add: JInt_def dec_int_def Atoi_Itoa)

lemma json_leaves [simp]: "json_ok (JText s)" "json_ok (JInt n)" "json_ok (JTime t)" "depth (JText s) = 0" "depth (JInt n) = 0" "depth (JTime t) = 0"
  by (simp_all add: JText_def JInt_def JTime_def)

end
