(* ===== verification/Shift_Store.thy ===== *)
theory Shift_Store
  imports OEE_Planned Go_Strconv Raw_Store
begin

section \<open>Shift configuration (oee/config)\<close>

text \<open>
  The shift repository (\<open>adapters/outbound/database/repository.go\<close>), the loader of shift files and
  the use case that seeds them (\<open>application\<close>). The tables \<open>shifts\<close> and \<open>shift_breaks\<close> are lists of
  rows in key order; \<open>sd_seq\<close> is SQLite's AUTOINCREMENT counter, which never reuses a key.
  \<open>Upsert\<close> is one transaction whose statements may fail one by one. The weekdays of a shift are
  stored as text, numbers separated by commas.
\<close>

subsection \<open>Weekdays as text\<close>

definition weekdaysToCSV :: "int list \<Rightarrow> string" where
  "weekdaysToCSV weekdays = (if weekdays = [] then [] else join_with (CHR '','') (map Itoa weekdays))"

definition csvToWeekdays :: "string \<Rightarrow> int list" where
  "csvToWeekdays csv = (if csv = [] then [] else List.map_filter (\<lambda>p. Atoi (TrimSpace p)) (split_on (CHR '','') csv))"

lemma join_with_Nil_iff: "ws \<noteq> [] \<Longrightarrow> (\<And>w. w \<in> set ws \<Longrightarrow> w \<noteq> []) \<Longrightarrow> join_with sep ws \<noteq> []"
  by (induction sep ws rule: join_with.induct) auto

lemma map_filter_Atoi_Itoa: "list_all fits64 ds \<Longrightarrow> List.map_filter (\<lambda>p. Atoi (TrimSpace p)) (map Itoa ds) = ds"
  by (induction ds) (simp_all add: Atoi_Itoa map_filter_simps)

lemma csvToWeekdays_weekdaysToCSV:
  assumes "list_all fits64 ds"
  shows "csvToWeekdays (weekdaysToCSV ds) = ds"
proof (cases "ds = []")
  case False
  have "split_on (CHR '','') (join_with (CHR '','') (map Itoa ds)) = map Itoa ds"
    using False by (intro split_join) (auto simp: Itoa_no_comma)
  moreover have "join_with (CHR '','') (map Itoa ds) \<noteq> []" using False by (intro join_with_Nil_iff) auto
  ultimately show ?thesis
    using False map_filter_Atoi_Itoa [OF assms] by (simp add: csvToWeekdays_def weekdaysToCSV_def)
qed (simp add: csvToWeekdays_def weekdaysToCSV_def)

subsection \<open>The tables\<close>

record shift_row =
  sr_id :: int
  sr_name :: string
  sr_machine_id :: string
  sr_start_minute :: int
  sr_end_minute :: int
  sr_weekdays :: string
  sr_timezone :: string
  sr_active :: int

record break_row =
  bk_shift_id :: int
  bk_start_minute :: int
  bk_end_minute :: int
  bk_type :: string

record shift_db =
  sd_shifts :: "shift_row list"
  sd_breaks :: "break_row list"
  sd_seq :: int

datatype shift_error = ShBegin | ShDeleteBreaks | ShDeleteShift | ShInsertShift | ShLastInsertId | ShInsertBreak | ShCommit
  | ShQueryShifts | ShQueryBreaks

datatype upsert_fault = UpsertOk | UpBegin | UpDeleteBreaks | UpDeleteShift | UpInsertShift | UpLastInsertId | UpInsertBreak nat | UpCommit

definition no_shifts :: shift_db where
  "no_shifts = \<lparr>sd_shifts = [], sd_breaks = [], sd_seq = 0\<rparr>"

subsection \<open>Upsert\<close>

definition same_key :: "Shift \<Rightarrow> shift_row \<Rightarrow> bool" where
  "same_key s r \<longleftrightarrow> sr_machine_id r = sh_MachineID s \<and> sr_name r = sh_Name s"

text \<open>The loop that inserts the breaks; \<open>n\<close> counts the insertions for the fault.\<close>

fun insert_breaks :: "upsert_fault \<Rightarrow> nat \<Rightarrow> int \<Rightarrow> break_row list \<Rightarrow> Break list \<Rightarrow> shift_error + break_row list" where
  "insert_breaks fault n shiftID tbl [] = Inr tbl"
| "insert_breaks fault n shiftID tbl (b # bs) =
     (if fault = UpInsertBreak n then Inl ShInsertBreak
      else insert_breaks fault (Suc n) shiftID
        (tbl @ [\<lparr>bk_shift_id = shiftID, bk_start_minute = br_StartMin b, bk_end_minute = br_EndMin b, bk_type = br_Type b\<rparr>]) bs)"

definition shift_row_of :: "int \<Rightarrow> Shift \<Rightarrow> shift_row" where
  "shift_row_of shiftID s =
     \<lparr>sr_id = shiftID, sr_name = sh_Name s, sr_machine_id = sh_MachineID s, sr_start_minute = sh_StartMin s,
      sr_end_minute = sh_EndMin s, sr_weekdays = weekdaysToCSV (sh_Weekdays s),
      sr_timezone = (if sh_TZ s = [] then ''UTC'' else sh_TZ s), sr_active = 1\<rparr>"

definition Upsert :: "upsert_fault \<Rightarrow> shift_db \<Rightarrow> Shift \<Rightarrow> shift_error option \<times> shift_db" where
  "Upsert fault db s =
     (if fault = UpBegin then (Some ShBegin, db)
      else if fault = UpDeleteBreaks then (Some ShDeleteBreaks, db)
      else let ids = map sr_id (filter (same_key s) (sd_shifts db));
               breaks = filter (\<lambda>b. bk_shift_id b \<notin> set ids) (sd_breaks db)
      in if fault = UpDeleteShift then (Some ShDeleteShift, db)
      else let shifts = filter (\<lambda>r. \<not> same_key s r) (sd_shifts db)
      in if fault = UpInsertShift then (Some ShInsertShift, db)
      else let shiftID = sd_seq db + 1; shifts = shifts @ [shift_row_of shiftID s]
      in if fault = UpLastInsertId then (Some ShLastInsertId, db)
      else case insert_breaks fault 0 shiftID breaks (sh_Breaks s) of
        Inl err \<Rightarrow> (Some err, db)
      | Inr breaks \<Rightarrow>
          if fault = UpCommit then (Some ShCommit, db)
          else (None, \<lparr>sd_shifts = shifts, sd_breaks = breaks, sd_seq = shiftID\<rparr>))"

subsection \<open>Queries\<close>

definition queryBreaks :: "query_fault \<Rightarrow> shift_db \<Rightarrow> int \<Rightarrow> shift_error + Break list" where
  "queryBreaks fault db shiftID =
     (if fault = QueryFails then Inl ShQueryBreaks
      else Inr (map (\<lambda>b. \<lparr>br_StartMin = bk_start_minute b, br_EndMin = bk_end_minute b, br_Type = bk_type b\<rparr>)
             (filter (\<lambda>b. bk_shift_id b = shiftID) (sd_breaks db))))"

definition shift_of_row :: "shift_row \<Rightarrow> Break list \<Rightarrow> Shift" where
  "shift_of_row sr breaks =
     \<lparr>sh_ID = [], sh_Name = sr_name sr, sh_MachineID = sr_machine_id sr, sh_StartMin = sr_start_minute sr,
      sh_EndMin = sr_end_minute sr, sh_Weekdays = csvToWeekdays (sr_weekdays sr), sh_Breaks = breaks, sh_TZ = sr_timezone sr\<rparr>"

fun collect_shifts :: "(int \<Rightarrow> query_fault) \<Rightarrow> shift_db \<Rightarrow> shift_row list \<Rightarrow> shift_error + Shift list" where
  "collect_shifts bfault db [] = Inr []"
| "collect_shifts bfault db (sr # collected) =
     (case queryBreaks (bfault (sr_id sr)) db (sr_id sr) of
        Inl err \<Rightarrow> Inl err
      | Inr breaks \<Rightarrow>
          (case collect_shifts bfault db collected of
             Inl err \<Rightarrow> Inl err
           | Inr shifts \<Rightarrow> Inr (shift_of_row sr breaks # shifts)))"

definition queryShifts :: "query_fault \<Rightarrow> (int \<Rightarrow> query_fault) \<Rightarrow> shift_db \<Rightarrow> string \<Rightarrow> shift_error + Shift list" where
  "queryShifts fault bfault db machineID =
     (if fault = QueryFails then Inl ShQueryShifts
      else collect_shifts bfault db (filter (\<lambda>r. sr_machine_id r = machineID \<and> sr_active r = 1) (sd_shifts db)))"

fun sum_planned :: "(string \<Rightarrow> location option) \<Rightarrow> Window \<Rightarrow> duration \<Rightarrow> Shift list \<Rightarrow> duration option" where
  "sum_planned tzdata w acc [] = Some acc"
| "sum_planned tzdata w acc (s # shifts) =
     (case PlannedProductionTime tzdata s w of
        None \<Rightarrow> None
      | Some d \<Rightarrow> sum_planned tzdata w (wrap64 (acc + d)) shifts)"

text \<open>\<open>fault\<close> and \<open>fault'\<close> are those of the two queries for shifts. The result is \<open>None\<close> where the
  planned time of a shift is never returned.\<close>

definition ForMachineWindow ::
  "(string \<Rightarrow> location option) \<Rightarrow> query_fault \<times> query_fault \<times> (int \<Rightarrow> query_fault) \<Rightarrow> shift_db \<Rightarrow> string \<Rightarrow> Window \<Rightarrow>
   (shift_error + duration \<times> bool) option"
where
  "ForMachineWindow tzdata faults db machineID w =
     (case faults of (fault, fault', bfault) \<Rightarrow>
      case queryShifts fault bfault db machineID of
        Inl err \<Rightarrow> Some (Inl err)
      | Inr shifts \<Rightarrow>
          (case (if shifts = [] \<and> machineID \<noteq> ''*'' then queryShifts fault' bfault db ''*'' else Inr shifts) of
             Inl err \<Rightarrow> Some (Inl err)
           | Inr shifts \<Rightarrow>
               if shifts = [] then Some (Inr (0, False))
               else map_option (\<lambda>planned. Inr (planned, True)) (sum_planned tzdata w 0 shifts)))"

subsection \<open>Loading and seeding (application)\<close>

record breakJSON =
  bj_StartMin :: int
  bj_EndMin :: int
  bj_Type :: string

record shiftJSON =
  sj_ID :: string
  sj_Name :: string
  sj_MachineID :: string
  sj_StartMin :: int
  sj_EndMin :: int
  sj_Weekdays :: "int list"
  sj_TZ :: string
  sj_Breaks :: "breakJSON list"

definition break_of_json :: "breakJSON \<Rightarrow> Break" where
  "break_of_json b = \<lparr>br_StartMin = bj_StartMin b, br_EndMin = bj_EndMin b, br_Type = bj_Type b\<rparr>"

definition shift_of_json :: "shiftJSON \<Rightarrow> Shift" where
  "shift_of_json r =
     \<lparr>sh_ID = sj_ID r, sh_Name = sj_Name r, sh_MachineID = sj_MachineID r, sh_StartMin = sj_StartMin r,
      sh_EndMin = sj_EndMin r, sh_Weekdays = sj_Weekdays r, sh_Breaks = map break_of_json (sj_Breaks r), sh_TZ = sj_TZ r\<rparr>"

definition LoadShiftsFromJSON :: "(bytes \<Rightarrow> string + shiftJSON list) \<Rightarrow> bytes \<Rightarrow> string + Shift list" where
  "LoadShiftsFromJSON unmarshal data =
     (case unmarshal data of Inl err \<Rightarrow> Inl (''config: invalid shifts JSON: '' @ err) | Inr raw \<Rightarrow> Inr (map shift_of_json raw))"

text \<open>\<open>faults n\<close> is the fault of the \<open>n\<close>-th call to the store.\<close>

fun seed_loop :: "('f \<Rightarrow> 's \<Rightarrow> Shift \<Rightarrow> 'e option \<times> 's) \<Rightarrow> (nat \<Rightarrow> 'f) \<Rightarrow> nat \<Rightarrow> 's \<Rightarrow> Shift list \<Rightarrow> 'e option \<times> 's" where
  "seed_loop upsert faults n store [] = (None, store)"
| "seed_loop upsert faults n store (s # shifts) =
     (case upsert (faults n) store s of
        (Some err, store) \<Rightarrow> (Some err, store)
      | (None, store) \<Rightarrow> seed_loop upsert faults (Suc n) store shifts)"

definition Seed :: "('f \<Rightarrow> 's \<Rightarrow> Shift \<Rightarrow> 'e option \<times> 's) \<Rightarrow> (nat \<Rightarrow> 'f) \<Rightarrow> 's \<Rightarrow> Shift list \<Rightarrow> 'e option \<times> 's" where
  "Seed upsert faults store shifts = seed_loop upsert faults 0 store shifts"

subsection \<open>What the tables stand for\<close>

text \<open>A stored shift: its ID is not kept, and a missing timezone has become UTC.\<close>

definition stored_form :: "Shift \<Rightarrow> Shift" where
  "stored_form s = s\<lparr>sh_ID := [], sh_TZ := (if sh_TZ s = [] then ''UTC'' else sh_TZ s)\<rparr>"

definition breaks_of :: "shift_db \<Rightarrow> int \<Rightarrow> Break list" where
  "breaks_of db i = map (\<lambda>b. \<lparr>br_StartMin = bk_start_minute b, br_EndMin = bk_end_minute b, br_Type = bk_type b\<rparr>)
     (filter (\<lambda>b. bk_shift_id b = i) (sd_breaks db))"

definition shifts_in :: "shift_db \<Rightarrow> Shift list" where
  "shifts_in db = map (\<lambda>r. shift_of_row r (breaks_of db (sr_id r))) (sd_shifts db)"

definition shift_db_ok :: "shift_db \<Rightarrow> bool" where
  "shift_db_ok db \<longleftrightarrow> list_all (\<lambda>r. sr_id r \<le> sd_seq db \<and> sr_active r = 1) (sd_shifts db) \<and>
     list_all (\<lambda>b. bk_shift_id b \<le> sd_seq db) (sd_breaks db) \<and> distinct (map sr_id (sd_shifts db))"

definition put_shift :: "Shift \<Rightarrow> Shift list \<Rightarrow> Shift list" where
  "put_shift s l = filter (\<lambda>x. \<not> (sh_MachineID x = sh_MachineID s \<and> sh_Name x = sh_Name s)) l @ [stored_form s]"

definition weekdays_ok :: "Shift \<Rightarrow> bool" where
  "weekdays_ok s \<longleftrightarrow> list_all fits64 (sh_Weekdays s)"

lemma no_shifts_ok: "shift_db_ok no_shifts" "shifts_in no_shifts = []"
  by (simp_all add: shift_db_ok_def shifts_in_def no_shifts_def)

definition break_row_of :: "int \<Rightarrow> Break \<Rightarrow> break_row" where
  "break_row_of i b = \<lparr>bk_shift_id = i, bk_start_minute = br_StartMin b, bk_end_minute = br_EndMin b, bk_type = br_Type b\<rparr>"

lemma insert_breaks_ok: "(\<And>k. fault \<noteq> UpInsertBreak k) \<Longrightarrow> insert_breaks fault n i tbl bs = Inr (tbl @ map (break_row_of i) bs)"
  by (induction bs arbitrary: n tbl) (simp_all add: break_row_of_def)

lemma insert_breaks_fault:
  "insert_breaks (UpInsertBreak k) n i tbl bs = (if n \<le> k \<and> k < n + length bs then Inl ShInsertBreak else Inr (tbl @ map (break_row_of i) bs))"
  by (induction bs arbitrary: n tbl) (auto simp: break_row_of_def)

text \<open>A fault that strikes: a fault of a break that the shift does not have does not.\<close>

definition upsert_ok :: "upsert_fault \<Rightarrow> Shift \<Rightarrow> bool" where
  "upsert_ok fault s \<longleftrightarrow> (case fault of UpsertOk \<Rightarrow> True | UpInsertBreak k \<Rightarrow> length (sh_Breaks s) \<le> k | _ \<Rightarrow> False)"

definition upserted :: "shift_db \<Rightarrow> Shift \<Rightarrow> shift_db" where
  "upserted db s =
     \<lparr>sd_shifts = filter (\<lambda>r. \<not> same_key s r) (sd_shifts db) @ [shift_row_of (sd_seq db + 1) s],
      sd_breaks = filter (\<lambda>b. bk_shift_id b \<notin> sr_id ` set (filter (same_key s) (sd_shifts db))) (sd_breaks db) @
        map (break_row_of (sd_seq db + 1)) (sh_Breaks s),
      sd_seq = sd_seq db + 1\<rparr>"

lemma Upsert_eq:
  "upsert_ok fault s \<Longrightarrow> Upsert fault db s = (None, upserted db s)"
  "\<not> upsert_ok fault s \<Longrightarrow> \<exists>e. Upsert fault db s = (Some e, db)"
  by (cases fault; simp add: Upsert_def upserted_def upsert_ok_def insert_breaks_ok insert_breaks_fault Let_def)+

lemma shift_db_ok_upserted: "shift_db_ok db \<Longrightarrow> shift_db_ok (upserted db s)"
  by (fastforce simp: shift_db_ok_def upserted_def list_all_iff shift_row_of_def break_row_of_def distinct_map inj_on_def)

lemma filter_eq_notin: "i \<notin> I \<Longrightarrow> filter (\<lambda>b. f b = i) (filter (\<lambda>b. f b \<notin> I) xs) = filter (\<lambda>b. f b = i) xs"
  by (induction xs) auto

lemma Break_eta: "\<lparr>br_StartMin = br_StartMin b, br_EndMin = br_EndMin b, br_Type = br_Type b\<rparr> = (b :: Break)"
  by (cases b) simp

lemma breaks_of_upserted_old:
  assumes "shift_db_ok db" "r \<in> set (sd_shifts db)" "\<not> same_key s r"
  shows "breaks_of (upserted db s) (sr_id r) = breaks_of db (sr_id r)"
proof -
  have "sr_id r \<le> sd_seq db" using assms by (simp add: shift_db_ok_def list_all_iff)
  then have new: "filter (\<lambda>b. bk_shift_id b = sr_id r) (map (break_row_of (sd_seq db + 1)) (sh_Breaks s)) = []"
    by (auto simp: filter_empty_conv break_row_of_def)
  have "sr_id r \<notin> sr_id ` set (filter (same_key s) (sd_shifts db))"
    using assms by (auto simp: shift_db_ok_def distinct_map inj_on_def)
  then have "filter (\<lambda>b. bk_shift_id b = sr_id r) (filter (\<lambda>b. bk_shift_id b \<notin> sr_id ` set (filter (same_key s) (sd_shifts db))) (sd_breaks db)) =
      filter (\<lambda>b. bk_shift_id b = sr_id r) (sd_breaks db)"
    by (intro filter_eq_notin)
  with new show ?thesis by (simp add: breaks_of_def upserted_def)
qed

lemma breaks_of_upserted_new:
  assumes "shift_db_ok db"
  shows "breaks_of (upserted db s) (sd_seq db + 1) = sh_Breaks s"
proof -
  have "filter (\<lambda>b. bk_shift_id b = sd_seq db + 1) (filter P (sd_breaks db)) = []" for P
    using assms by (auto simp: shift_db_ok_def list_all_iff filter_empty_conv)
  then show ?thesis by (simp add: breaks_of_def upserted_def break_row_of_def comp_def Break_eta)
qed

lemma shifts_in_upserted:
  assumes "shift_db_ok db" "weekdays_ok s"
  shows "shifts_in (upserted db s) = put_shift s (shifts_in db)"
proof -
  have new: "shift_of_row (shift_row_of (sd_seq db + 1) s) (sh_Breaks s) = stored_form s"
    using assms(2) by (simp add: shift_of_row_def shift_row_of_def stored_form_def weekdays_ok_def csvToWeekdays_weekdaysToCSV)
  have old: "map (\<lambda>r. shift_of_row r (breaks_of (upserted db s) (sr_id r))) (filter (\<lambda>r. \<not> same_key s r) (sd_shifts db)) =
      map (\<lambda>r. shift_of_row r (breaks_of db (sr_id r))) (filter (\<lambda>r. \<not> same_key s r) (sd_shifts db))"
    using breaks_of_upserted_old [OF assms(1)] by simp
  have "shifts_in (upserted db s) = map (\<lambda>r. shift_of_row r (breaks_of db (sr_id r))) (filter (\<lambda>r. \<not> same_key s r) (sd_shifts db)) @ [stored_form s]"
    using old new breaks_of_upserted_new [OF assms(1), of s] by (simp add: shifts_in_def) (simp add: upserted_def shift_row_of_def)
  then show ?thesis by (simp add: put_shift_def shifts_in_def filter_map comp_def same_key_def shift_of_row_def)
qed

subsection \<open>The interface ShiftStore\<close>

locale shift_store =
  fixes good :: "'s \<Rightarrow> bool"
    and shifts :: "'s \<Rightarrow> Shift list"
    and ok :: "'f \<Rightarrow> Shift \<Rightarrow> bool"
    and upsert :: "'f \<Rightarrow> 's \<Rightarrow> Shift \<Rightarrow> 'e option \<times> 's"
  assumes upsert_ok: "good st \<Longrightarrow> weekdays_ok s \<Longrightarrow> ok f s \<Longrightarrow>
      fst (upsert f st s) = None \<and> good (snd (upsert f st s)) \<and> shifts (snd (upsert f st s)) = put_shift s (shifts st)"
    and upsert_fail: "\<not> ok f s \<Longrightarrow> fst (upsert f st s) \<noteq> None \<and> snd (upsert f st s) = st"
begin

text \<open>Seeding stores the shifts up to the first one that fails.\<close>

lemma seed_loop_prefix:
  "good st \<Longrightarrow> list_all weekdays_ok l \<Longrightarrow>
   \<exists>k\<le>length l. good (snd (seed_loop upsert faults n st l)) \<and>
     shifts (snd (seed_loop upsert faults n st l)) = fold put_shift (take k l) (shifts st) \<and>
     (fst (seed_loop upsert faults n st l) = None \<longleftrightarrow> k = length l)"
proof (induction l arbitrary: n st)
  case (Cons s l)
  obtain e st' where u: "upsert (faults n) st s = (e, st')" by (cases "upsert (faults n) st s")
  show ?case
  proof (cases "ok (faults n) s")
    case True
    then have st': "e = None" "good st'" "shifts st' = put_shift s (shifts st)"
      using upsert_ok [of st s "faults n"] Cons.prems u by auto
    obtain k where "k \<le> length l" "good (snd (seed_loop upsert faults (Suc n) st' l))"
      "shifts (snd (seed_loop upsert faults (Suc n) st' l)) = fold put_shift (take k l) (shifts st')"
      "fst (seed_loop upsert faults (Suc n) st' l) = None \<longleftrightarrow> k = length l"
      using Cons.IH [OF st'(2)] Cons.prems(2) by fastforce
    then show ?thesis using st' u by (intro exI [of _ "Suc k"]) simp
  next
    case False
    then obtain err where "e = Some err" "st' = st" using upsert_fail [OF False, of st] u by auto
    then show ?thesis using u Cons.prems(1) by (intro exI [of _ 0]) simp
  qed
qed simp

lemma seed_all:
  assumes "good st" "list_all weekdays_ok l" "\<And>n s. s \<in> set l \<Longrightarrow> ok (faults n) s"
  shows "fst (seed_loop upsert faults n st l) = None \<and> good (snd (seed_loop upsert faults n st l)) \<and>
    shifts (snd (seed_loop upsert faults n st l)) = fold put_shift l (shifts st)"
  using assms
proof (induction l arbitrary: n st)
  case (Cons s l)
  obtain e st' where u: "upsert (faults n) st s = (e, st')" by (cases "upsert (faults n) st s")
  have "e = None" "good st'" "shifts st' = put_shift s (shifts st)"
    using upsert_ok [of st s "faults n"] Cons.prems u by auto
  then show ?case using Cons.IH [of st' "Suc n"] Cons.prems u by simp
qed simp

end

interpretation shift_repo: shift_store shift_db_ok shifts_in upsert_ok Upsert
proof unfold_locales
  show "fst (Upsert f st s) = None \<and> shift_db_ok (snd (Upsert f st s)) \<and> shifts_in (snd (Upsert f st s)) = put_shift s (shifts_in st)"
    if "shift_db_ok st" "weekdays_ok s" "upsert_ok f s" for st s f
    using that by (simp add: Upsert_eq shift_db_ok_upserted shifts_in_upserted)
  show "fst (Upsert f st s) \<noteq> None \<and> snd (Upsert f st s) = st" if "\<not> upsert_ok f s" for f s st
    using Upsert_eq(2) [OF that, of st] by auto
qed

subsection \<open>Reading planned time back\<close>

abbreviation "no_query_faults \<equiv> (QueryOk, QueryOk, \<lambda>_ :: int. QueryOk)"

lemma collect_shifts_ok: "collect_shifts (\<lambda>_. QueryOk) db rows = Inr (map (\<lambda>r. shift_of_row r (breaks_of db (sr_id r))) rows)"
  by (induction rows) (simp_all add: queryBreaks_def breaks_of_def)

lemma queryShifts_ok:
  assumes "shift_db_ok db"
  shows "queryShifts QueryOk (\<lambda>_. QueryOk) db m = Inr (filter (\<lambda>s. sh_MachineID s = m) (shifts_in db))"
proof -
  have "filter (\<lambda>r. sr_machine_id r = m \<and> sr_active r = 1) (sd_shifts db) = filter (\<lambda>r. sr_machine_id r = m) (sd_shifts db)"
    using assms by (auto simp: shift_db_ok_def list_all_iff intro!: filter_cong)
  then show ?thesis
    by (simp add: queryShifts_def collect_shifts_ok shifts_in_def filter_map comp_def shift_of_row_def)
qed

definition chosen_shifts :: "string \<Rightarrow> Shift list \<Rightarrow> Shift list" where
  "chosen_shifts m l =
     (if filter (\<lambda>s. sh_MachineID s = m) l = [] then filter (\<lambda>s. sh_MachineID s = ''*'') l else filter (\<lambda>s. sh_MachineID s = m) l)"

lemma ForMachineWindow_ok:
  assumes "shift_db_ok db"
  shows "ForMachineWindow tzdata no_query_faults db m w =
    (if chosen_shifts m (shifts_in db) = [] then Some (Inr (0, False))
     else map_option (\<lambda>p. Inr (p, True)) (sum_planned tzdata w 0 (chosen_shifts m (shifts_in db))))"
  by (auto simp: ForMachineWindow_def queryShifts_ok [OF assms] chosen_shifts_def)

text \<open>The planned time depends on the times, days, breaks and zone of the shift only.\<close>

lemma planned_loop_cong:
  assumes "planned_loop loc s w lastDay day acc = Some d"
    "sh_Weekdays s' = sh_Weekdays s" "sh_StartMin s' = sh_StartMin s" "sh_EndMin s' = sh_EndMin s" "sh_Breaks s' = sh_Breaks s"
  shows "planned_loop loc s' w lastDay day acc = Some d"
proof -
  have "\<forall>s'. sh_Weekdays s' = sh_Weekdays s \<and> sh_StartMin s' = sh_StartMin s \<and> sh_EndMin s' = sh_EndMin s \<and> sh_Breaks s' = sh_Breaks s \<longrightarrow>
      planned_loop loc s' w lastDay day acc = Some d"
  proof (rule planned_loop.raw_induct [OF _ assms(1),
        where P = "\<lambda>loc s w lastDay day acc d. \<forall>s'. sh_Weekdays s' = sh_Weekdays s \<and> sh_StartMin s' = sh_StartMin s \<and>
          sh_EndMin s' = sh_EndMin s \<and> sh_Breaks s' = sh_Breaks s \<longrightarrow> planned_loop loc s' w lastDay day acc = Some d"])
    fix pl loc s w lastDay day acc d
    assume IH: "\<And>loc s w lastDay day acc d. pl loc s w lastDay day acc = Some d \<Longrightarrow>
        \<forall>s'. sh_Weekdays s' = sh_Weekdays s \<and> sh_StartMin s' = sh_StartMin s \<and> sh_EndMin s' = sh_EndMin s \<and> sh_Breaks s' = sh_Breaks s \<longrightarrow>
          planned_loop loc s' w lastDay day acc = Some d"
      and body: "(if After day lastDay then Some acc else pl loc s w lastDay (AddDate loc day 1)
        (if sh_Weekdays s = [] \<or> Weekday day \<in> weekdaySet s then wrap64 (acc + plannedTimeOnDay s day w) else acc)) = Some d"
    have "planned_loop loc s' w lastDay day acc = Some d"
      if "sh_Weekdays s' = sh_Weekdays s" "sh_StartMin s' = sh_StartMin s" "sh_EndMin s' = sh_EndMin s" "sh_Breaks s' = sh_Breaks s" for s'
    proof -
      have "plannedTimeOnDay s' day w = plannedTimeOnDay s day w" "weekdaySet s' = weekdaySet s"
        using that by (simp_all add: plannedTimeOnDay_def weekdaySet_def Let_def)
      then show ?thesis using body that IH by (subst planned_loop.simps) (auto split: if_splits)
    qed
    then show "\<forall>s'. sh_Weekdays s' = sh_Weekdays s \<and> sh_StartMin s' = sh_StartMin s \<and> sh_EndMin s' = sh_EndMin s \<and> sh_Breaks s' = sh_Breaks s \<longrightarrow>
        planned_loop loc s' w lastDay day acc = Some d" by blast
  qed
  with assms show ?thesis by blast
qed

lemma planned_loop_eq:
  assumes "sh_Weekdays s' = sh_Weekdays s" "sh_StartMin s' = sh_StartMin s" "sh_EndMin s' = sh_EndMin s" "sh_Breaks s' = sh_Breaks s"
  shows "planned_loop loc s' w lastDay day acc = planned_loop loc s w lastDay day acc"
  using planned_loop_cong [of loc s w lastDay day acc _ s'] planned_loop_cong [of loc s' w lastDay day acc _ s] assms
  by (cases "planned_loop loc s w lastDay day acc"; cases "planned_loop loc s' w lastDay day acc") auto

lemma PlannedProductionTime_stored_form:
  assumes "tzdata ''UTC'' = Some UTC"
  shows "PlannedProductionTime tzdata (stored_form s) w = PlannedProductionTime tzdata s w"
proof -
  have "shift_location tzdata (stored_form s) = shift_location tzdata s"
    using assms by (simp add: shift_location_def stored_form_def)
  moreover have "planned_loop loc (stored_form s) w lastDay day acc = planned_loop loc s w lastDay day acc" for loc lastDay day acc
    by (rule planned_loop_eq) (simp_all add: stored_form_def)
  ultimately show ?thesis by (simp add: PlannedProductionTime_def Let_def)
qed

lemma sum_planned_stored_form:
  "tzdata ''UTC'' = Some UTC \<Longrightarrow> sum_planned tzdata w acc (map stored_form l) = sum_planned tzdata w acc l"
  by (induction l arbitrary: acc) (simp_all add: PlannedProductionTime_stored_form split: option.split)

definition shift_key :: "Shift \<Rightarrow> string \<times> string" where
  "shift_key s = (sh_MachineID s, sh_Name s)"

lemma fold_put_shift:
  "distinct (map shift_key l) \<Longrightarrow> \<forall>x\<in>set l. \<forall>y\<in>set st. shift_key x \<noteq> shift_key y \<Longrightarrow>
   fold put_shift l st = st @ map stored_form l"
proof (induction l arbitrary: st)
  case (Cons s l)
  have "filter (\<lambda>x. \<not> (sh_MachineID x = sh_MachineID s \<and> sh_Name x = sh_Name s)) st = st"
    using Cons.prems(2) by (auto simp: filter_id_conv shift_key_def)
  moreover have "shift_key x \<noteq> shift_key (stored_form s)" if "x \<in> set l" for x
  proof -
    have "shift_key (stored_form s) = shift_key s" by (simp add: shift_key_def stored_form_def)
    moreover have "shift_key s \<notin> shift_key ` set l" using Cons.prems(1) by simp
    ultimately show ?thesis using that by (metis imageI)
  qed
  then have "\<forall>x\<in>set l. \<forall>y\<in>set (st @ [stored_form s]). shift_key x \<noteq> shift_key y"
    using Cons.prems(2) by simp
  ultimately show ?case using Cons.IH [of "st @ [stored_form s]"] Cons.prems(1) by (simp add: put_shift_def)
qed simp

lemma chosen_stored_form: "chosen_shifts m (map stored_form l) = map stored_form (chosen_shifts m l)"
  by (simp add: chosen_shifts_def filter_map comp_def stored_form_def)

subsection \<open>Claims\<close>

text \<open>Seeding stores a prefix of the shifts, whichever statements fail: every shift before the
  first failure replaces the one with the same machine and name, the failing one and the rest leave
  no trace, and no error is reported exactly when all are stored.\<close>

theorem seeding_stores_prefix:
  assumes "shift_db_ok db" "list_all weekdays_ok l"
  shows "\<exists>k\<le>length l. shifts_in (snd (Seed Upsert faults db l)) = fold put_shift (take k l) (shifts_in db) \<and>
    (fst (Seed Upsert faults db l) = None \<longleftrightarrow> k = length l) \<and> shift_db_ok (snd (Seed Upsert faults db l))"
  using shift_repo.seed_loop_prefix [OF assms, of faults 0] by (auto simp: Seed_def)

theorem seeding_stores_prefix_witness:
  "\<exists>k\<le>1. shifts_in (snd (Seed Upsert (\<lambda>_. UpInsertBreak 0) no_shifts [day_shift])) = fold put_shift (take k [day_shift]) [] \<and>
    (fst (Seed Upsert (\<lambda>_. UpInsertBreak 0) no_shifts [day_shift]) = None \<longleftrightarrow> k = 1)"
  using seeding_stores_prefix [OF no_shifts_ok(1), of "[day_shift]" "\<lambda>_. UpInsertBreak 0"]
  by (auto simp: weekdays_ok_def day_shift_def fits64_def no_shifts_ok)



text \<open>The weekday list of a shift survives its text form: numbers of 64 bits, written with
  commas, are read back in order.\<close>

theorem weekdays_round_trip:
  "list_all fits64 ds \<Longrightarrow> csvToWeekdays (weekdaysToCSV ds) = ds"
  by (rule csvToWeekdays_weekdaysToCSV)

theorem weekdays_round_trip_witness: "csvToWeekdays (weekdaysToCSV [1, 2, - 3]) = [1, 2, - 3]"
  by (rule weekdays_round_trip) (simp add: fits64_def)

text \<open>A shift with an empty machine name applies to no machine but the one with the empty name:
  for every other machine nothing is found.\<close>

theorem empty_machine_is_no_wildcard:
  "ForMachineWindow tzdata no_query_faults (snd (Upsert UpsertOk no_shifts (s\<lparr>sh_MachineID := []\<rparr>))) (c # m) w = Some (Inr (0, False))"
  by (simp add: Upsert_eq upsert_ok_def upserted_def no_shifts_def same_key_def shift_row_of_def ForMachineWindow_def queryShifts_def)

end
