(* ===== verification/Payloads.thy ===== *)
theory Payloads
  imports Go_JSON_Decode Ingest_State Shift_Store
begin

section \<open>The JSON documents of the program\<close>

text \<open>
  The two documents that are decoded with \<open>json.Unmarshal\<close>: state changes
  (\<open>ingest-state/application/dto.go\<close>) and the list of shifts (\<open>config/application/dto.go\<close>). The field
  tables are the struct tags. The text of an error, which the program only logs or wraps, is the
  parameter \<open>errtext\<close>. Documents in the form the devices write are decoded to what they say.
\<close>

subsection \<open>State changes\<close>

definition zero_time :: gotime where "zero_time = \<lparr>tm_ns = 0, tm_off = 0\<rparr>"

definition zero_stateChange :: stateChangeJSON where
  "zero_stateChange = \<lparr>sc_Type = [], sc_MachineID = [], sc_State = [], sc_PreviousState = [], sc_Reason = [], sc_Timestamp = zero_time\<rparr>"

definition stateChange_fields :: "stateChangeJSON field_table" where
  "stateChange_fields =
     [(''type'', field sc_Type sc_Type_update dec_string),
      (''machine_id'', field sc_MachineID sc_MachineID_update dec_string),
      (''state'', field sc_State sc_State_update dec_string),
      (''previous_state'', field sc_PreviousState sc_PreviousState_update dec_string),
      (''reason'', field sc_Reason sc_Reason_update dec_string),
      (''timestamp'', field sc_Timestamp sc_Timestamp_update dec_time)]"

definition unmarshal_stateChange :: "(bytes \<Rightarrow> string) \<Rightarrow> bytes \<Rightarrow> string + stateChangeJSON" where
  "unmarshal_stateChange errtext payload =
     (case Unmarshal (dec_struct stateChange_fields) zero_stateChange (string_of_bytes payload) of
        None \<Rightarrow> Inl (errtext payload)
      | Some raw \<Rightarrow> Inr raw)"

subsection \<open>Shifts\<close>

text \<open>A shift while it is decoded: its slices with the cells behind them.\<close>

record shift_cell =
  sl_ID :: string
  sl_Name :: string
  sl_MachineID :: string
  sl_StartMin :: int
  sl_EndMin :: int
  sl_Weekdays :: "int slice"
  sl_TZ :: string
  sl_Breaks :: "breakJSON slice"

definition zero_break :: breakJSON where
  "zero_break = \<lparr>bj_StartMin = 0, bj_EndMin = 0, bj_Type = []\<rparr>"

definition break_fields :: "breakJSON field_table" where
  "break_fields =
     [(''start_minute'', field bj_StartMin bj_StartMin_update dec_int),
      (''end_minute'', field bj_EndMin bj_EndMin_update dec_int),
      (''type'', field bj_Type bj_Type_update dec_string)]"

definition zero_shift :: shift_cell where
  "zero_shift = \<lparr>sl_ID = [], sl_Name = [], sl_MachineID = [], sl_StartMin = 0, sl_EndMin = 0, sl_Weekdays = nil_slice,
     sl_TZ = [], sl_Breaks = nil_slice\<rparr>"

definition shift_fields :: "shift_cell field_table" where
  "shift_fields =
     [(''id'', field sl_ID sl_ID_update dec_string),
      (''name'', field sl_Name sl_Name_update dec_string),
      (''machine_id'', field sl_MachineID sl_MachineID_update dec_string),
      (''start_minute'', field sl_StartMin sl_StartMin_update dec_int),
      (''end_minute'', field sl_EndMin sl_EndMin_update dec_int),
      (''weekdays'', field sl_Weekdays sl_Weekdays_update (dec_slice 0 dec_int)),
      (''timezone'', field sl_TZ sl_TZ_update dec_string),
      (''breaks'', field sl_Breaks sl_Breaks_update (dec_slice zero_break (dec_struct break_fields)))]"

definition shift_seen :: "shift_cell \<Rightarrow> shiftJSON" where
  "shift_seen c = \<lparr>sj_ID = sl_ID c, sj_Name = sl_Name c, sj_MachineID = sl_MachineID c, sj_StartMin = sl_StartMin c,
     sj_EndMin = sl_EndMin c, sj_Weekdays = elems (sl_Weekdays c), sj_TZ = sl_TZ c, sj_Breaks = elems (sl_Breaks c)\<rparr>"

definition unmarshal_shifts :: "(bytes \<Rightarrow> string) \<Rightarrow> bytes \<Rightarrow> string + shiftJSON list" where
  "unmarshal_shifts errtext data =
     (case Unmarshal (dec_slice zero_shift (dec_struct shift_fields)) nil_slice (string_of_bytes data) of
        None \<Rightarrow> Inl (errtext data)
      | Some raw \<Rightarrow> Inr (map shift_seen (elems raw)))"

subsection \<open>The documents\<close>

definition state_doc :: "StateTransition \<Rightarrow> json" where
  "state_doc t = JObj
     [(''type'', JText ''state_change''), (''machine_id'', JText (tr_MachineID t)), (''state'', JText (tr_State t)),
      (''previous_state'', JText (tr_PreviousState t)), (''reason'', JText (tr_Reason t)), (''timestamp'', JTime (tr_Timestamp t))]"

definition break_doc :: "breakJSON \<Rightarrow> json" where
  "break_doc b = JObj [(''start_minute'', JInt (bj_StartMin b)), (''end_minute'', JInt (bj_EndMin b)), (''type'', JText (bj_Type b))]"

definition shift_doc :: "shiftJSON \<Rightarrow> json" where
  "shift_doc s = JObj
     [(''id'', JText (sj_ID s)), (''name'', JText (sj_Name s)), (''machine_id'', JText (sj_MachineID s)),
      (''start_minute'', JInt (sj_StartMin s)), (''end_minute'', JInt (sj_EndMin s)), (''weekdays'', JArr (map JInt (sj_Weekdays s))),
      (''timezone'', JText (sj_TZ s)), (''breaks'', JArr (map break_doc (sj_Breaks s)))]"

definition transition_ok :: "StateTransition \<Rightarrow> bool" where
  "transition_ok t \<longleftrightarrow> tr_MachineID t \<noteq> [] \<and> valid_utf8 (tr_MachineID t) \<and> Valid (tr_State t) \<and> valid_utf8 (tr_PreviousState t) \<and>
     valid_utf8 (tr_Reason t) \<and> formattable (tr_Timestamp t) \<and> \<not> IsZero (tr_Timestamp t)"

definition break_ok :: "breakJSON \<Rightarrow> bool" where
  "break_ok b \<longleftrightarrow> fits64 (bj_StartMin b) \<and> fits64 (bj_EndMin b) \<and> valid_utf8 (bj_Type b)"

definition shift_ok :: "shiftJSON \<Rightarrow> bool" where
  "shift_ok s \<longleftrightarrow> valid_utf8 (sj_ID s) \<and> valid_utf8 (sj_Name s) \<and> valid_utf8 (sj_MachineID s) \<and> fits64 (sj_StartMin s) \<and>
     fits64 (sj_EndMin s) \<and> list_all fits64 (sj_Weekdays s) \<and> valid_utf8 (sj_TZ s) \<and> list_all break_ok (sj_Breaks s)"

subsection \<open>They are decoded to what they say\<close>

text \<open>The member names are read and found as they stand.\<close>

lemma plain_names [simp]:
  "raw_ok ''type''" "raw_ok ''machine_id''" "raw_ok ''state''" "raw_ok ''previous_state''" "raw_ok ''reason''" "raw_ok ''timestamp''"
  "raw_ok ''id''" "raw_ok ''name''" "raw_ok ''start_minute''" "raw_ok ''end_minute''" "raw_ok ''weekdays''" "raw_ok ''timezone''" "raw_ok ''breaks''"
  by (simp_all add: raw_ok_plain quote_char_def backslash_def)

lemma unquote_names [simp]:
  "unquote ''type'' = Some ''type''" "unquote ''machine_id'' = Some ''machine_id''" "unquote ''state'' = Some ''state''"
  "unquote ''previous_state'' = Some ''previous_state''" "unquote ''reason'' = Some ''reason''" "unquote ''timestamp'' = Some ''timestamp''"
  "unquote ''id'' = Some ''id''" "unquote ''name'' = Some ''name''" "unquote ''start_minute'' = Some ''start_minute''"
  "unquote ''end_minute'' = Some ''end_minute''" "unquote ''weekdays'' = Some ''weekdays''" "unquote ''timezone'' = Some ''timezone''"
  "unquote ''breaks'' = Some ''breaks''"
  by (rule unquote_plain, simp add: quote_char_def backslash_def)+

lemma Valid_ascii: "Valid st \<Longrightarrow> valid_utf8 st"
  by (rule valid_utf8_ascii) (auto simp: Valid_def machine_states ascii_def)

interpretation brk: json_array break_ok break_doc "dec_struct break_fields" id 1 zero_break
proof
  fix b old assume ok: "break_ok b"
  show "json_ok (break_doc b)" "depth (break_doc b) \<le> 1" by (simp_all add: break_doc_def)
  show "\<exists>c. dec_struct break_fields (break_doc b) old = Some c \<and> id c = b"
    using ok by (simp add: break_doc_def dec_struct_def break_fields_def find_field_def field_def break_ok_def utf8_clean_valid)
qed

interpretation sft: json_array shift_ok shift_doc "dec_struct shift_fields" shift_seen 3 zero_shift
proof
  fix s and old :: shift_cell
  assume ok: "shift_ok s"
  then have w: "list_all fits64 (sj_Weekdays s)" and b: "list_all break_ok (sj_Breaks s)" by (simp_all add: shift_ok_def)
  show "json_ok (shift_doc s)" using jint.array.enc_ok [OF w] brk.array.enc_ok [OF b] by (simp add: shift_doc_def)
  show "depth (shift_doc s) \<le> 3" using jint.array.enc_depth [OF w] brk.array.enc_depth [OF b] by (simp add: shift_doc_def)
  obtain ws where ws: "dec_slice 0 dec_int (JArr (map JInt (sj_Weekdays s))) (sl_Weekdays old) = Some ws" "elems ws = sj_Weekdays s"
    using jint.array.dec_enc [OF w] by auto
  obtain bs where bs: "dec_slice zero_break (dec_struct break_fields) (JArr (map break_doc (sj_Breaks s))) (sl_Breaks old) = Some bs" "elems bs = sj_Breaks s"
    using brk.array.dec_enc [OF b] by auto
  show "\<exists>c. dec_struct shift_fields (shift_doc s) old = Some c \<and> shift_seen c = s"
    using ok ws bs
    by (simp add: shift_doc_def dec_struct_def shift_fields_def find_field_def field_def shift_ok_def utf8_clean_valid shift_seen_def)
qed

lemma state_doc_decodes:
  assumes "transition_ok t"
  shows "dec_struct stateChange_fields (state_doc t) old = Some \<lparr>sc_Type = ''state_change'', sc_MachineID = tr_MachineID t,
     sc_State = tr_State t, sc_PreviousState = tr_PreviousState t, sc_Reason = tr_Reason t, sc_Timestamp = tr_Timestamp t\<rparr>"
proof -
  have "utf8_clean ''state_change'' = ''state_change''" by (intro utf8_clean_valid valid_utf8_ascii) (simp add: ascii_def)
  then show ?thesis using assms
    by (simp add: state_doc_def dec_struct_def stateChange_fields_def find_field_def field_def transition_ok_def utf8_clean_valid Valid_ascii)
qed

subsection \<open>Properties of the documents\<close>

lemma nesting [simp]: "Suc 0 \<le> maxNestingDepth" "1 \<le> maxNestingDepth" "4 \<le> maxNestingDepth"
  by (simp_all add: maxNestingDepth_def)

lemma state_change_decodes:
  assumes "transition_ok t"
  shows "DecodeStateChange (unmarshal_stateChange errtext) (bytes_of_string (json_text (state_doc t))) = Inr t"
proof -
  have "json_ok (state_doc t)" "depth (state_doc t) \<le> maxNestingDepth" by (simp_all add: state_doc_def)
  then have "json_parse (json_text (state_doc t)) = Some (state_doc t)" by (rule json_parse_text)
  then show ?thesis using assms state_doc_decodes [OF assms]
    by (simp add: DecodeStateChange_def unmarshal_stateChange_def Unmarshal_def transition_ok_def)
qed

text \<open>
  C10. A state change written as a JSON document, with any text in its fields that is valid UTF-8 and any
  time with a four-digit year and a zone below 25 hours, is decoded to the transition it describes.
\<close>

theorem state_change_read_back:
  assumes "transition_ok t"
  shows "DecodeStateChange (unmarshal_stateChange errtext) (bytes_of_string (json_text (state_doc t))) = Inr t"
  by (rule state_change_decodes [OF assms])

definition demo_transition :: StateTransition where
  "demo_transition = \<lparr>tr_MachineID = ''m1'', tr_State = Stopped, tr_PreviousState = [], tr_Reason = quote_char # ''E<3'', tr_Timestamp = utc_day 2026 6 1\<rparr>"

lemma demo_transition_ok: "transition_ok demo_transition"
proof -
  have "\<not> IsZero (utc_day 2026 6 1)" by code_simp
  then show ?thesis by (simp add: transition_ok_def demo_transition_def formattable_days valid_utf8_ascii ascii_def Valid_def)
qed

theorem state_change_read_back_witness:
  "transition_ok demo_transition \<and>
   DecodeStateChange (unmarshal_stateChange (\<lambda>p. ''invalid'')) (bytes_of_string (json_text (state_doc demo_transition))) = Inr demo_transition"
  using state_change_read_back [OF demo_transition_ok] demo_transition_ok by simp

lemma shifts_decode:
  assumes "list_all shift_ok xs"
  shows "LoadShiftsFromJSON (unmarshal_shifts errtext) (bytes_of_string (json_text (JArr (map shift_doc xs)))) = Inr (map shift_of_json xs)"
  using sft.array.Unmarshal_enc [OF assms, of "[]" nil_slice] by (auto simp: LoadShiftsFromJSON_def unmarshal_shifts_def)

text \<open>
  A list of shifts written as a JSON document is loaded as the shifts it describes: the text fields as
  long as they are valid UTF-8, the minutes and weekdays as long as they fit 64 bits.
\<close>

theorem shifts_read_back:
  assumes "list_all shift_ok xs"
  shows "LoadShiftsFromJSON (unmarshal_shifts errtext) (bytes_of_string (json_text (JArr (map shift_doc xs)))) = Inr (map shift_of_json xs)"
  by (rule shifts_decode [OF assms])

definition demo_shiftJSON :: shiftJSON where
  "demo_shiftJSON = \<lparr>sj_ID = ''s1'', sj_Name = ''early'', sj_MachineID = ''m1'', sj_StartMin = 360, sj_EndMin = 840, sj_Weekdays = [1, 2, 3],
     sj_TZ = ''UTC'', sj_Breaks = [\<lparr>bj_StartMin = 600, bj_EndMin = 615, bj_Type = ''lunch''\<rparr>]\<rparr>"

lemma demo_shift_ok: "list_all shift_ok [demo_shiftJSON]"
  by (simp add: shift_ok_def break_ok_def demo_shiftJSON_def valid_utf8_ascii ascii_def fits64_def)

theorem shifts_read_back_witness:
  "list_all shift_ok [demo_shiftJSON] \<and>
   LoadShiftsFromJSON (unmarshal_shifts (\<lambda>p. ''invalid'')) (bytes_of_string (json_text (JArr (map shift_doc [demo_shiftJSON])))) =
     Inr (map shift_of_json [demo_shiftJSON])"
  using shifts_read_back [OF demo_shift_ok] demo_shift_ok by blast

subsection \<open>The times that devices report\<close>

text \<open>What every decoded state change satisfies.\<close>

lemma dec_members_inv:
  assumes "\<And>name rd j r r'. (name, rd) \<in> set fs \<Longrightarrow> rd j r = Some r' \<Longrightarrow> P r \<Longrightarrow> P r'" "P r" "dec_members fs ms r = Some r'"
  shows "P r'"
proof -
  have step: "P r'" if "find_field fs key = Some rd" "rd j r = Some r'" "P r" for key rd j r r'
  proof -
    have "\<exists>name. (name, rd) \<in> set fs" using that(1) by (auto simp: find_field_def split: option.splits dest!: map_of_SomeD)
    then show ?thesis using assms(1) that(2,3) by blast
  qed
  show ?thesis using assms(2,3)
  proof (induction ms arbitrary: r)
    case (Cons m ms)
    then show ?case by (cases m) (auto simp: bind_eq_Some_conv split: option.splits dest: step)
  qed simp
qed

definition reported :: "gotime \<Rightarrow> bool" where
  "reported t \<longleftrightarrow> four_digit_year t \<and> tm_off t mod 60 = 0 \<and> \<bar>tm_off t\<bar> \<le> 90000"

lemma unmarshal_reported:
  assumes "unmarshal_stateChange errtext payload = Inr raw"
  shows "reported (sc_Timestamp raw)"
proof -
  have zero: "reported (sc_Timestamp zero_stateChange)"
    by (simp add: zero_stateChange_def zero_time_def reported_def four_digit_year_def civil_of_days_def year_yday_def Let_def)
  have "reported (sc_Timestamp r')" if "(name, rd) \<in> set stateChange_fields" "rd j r = Some r'" "reported (sc_Timestamp r)" for name rd j r r'
    using that by (auto simp: stateChange_fields_def field_def dec_time_def reported_def split: json.splits dest!: ParseRFC3339_year)
  then have members: "reported (sc_Timestamp r')" if "dec_members stateChange_fields ms zero_stateChange = Some r'" for ms r'
    using dec_members_inv [of stateChange_fields "\<lambda>r. reported (sc_Timestamp r)" zero_stateChange ms r'] zero that by blast
  obtain j where "dec_struct stateChange_fields j zero_stateChange = Some raw"
    using assms by (auto simp: unmarshal_stateChange_def Unmarshal_def bind_eq_Some_conv split: option.splits)
  then show ?thesis using zero members by (cases j) (auto simp: dec_struct_def)
qed

lemma DecodeStateChange_reported:
  "DecodeStateChange (unmarshal_stateChange errtext) payload = Inr t \<Longrightarrow> reported (tr_Timestamp t)"
  by (auto simp: DecodeStateChange_def split: sum.splits if_splits dest!: unmarshal_reported)

lemma reported_formattable: "reported t \<Longrightarrow> \<bar>tm_off t\<bar> \<noteq> 90000 \<Longrightarrow> formattable t"
  by (auto simp: reported_def formattable_def)

text \<open>
  C39. A device that reports a time with the zone offset 24:60, which the decoder accepts, stops the
  recording of its machine: the start of the interval is stored as a text with the offset 25:00 that is
  not read back, and every later state change of that machine fails and leaves no trace.
\<close>

theorem offset_25h_blocks_machine:
  assumes "DecodeStateChange (unmarshal_stateChange errtext) payload = Inr t" "\<bar>tm_off (tr_Timestamp t)\<bar> = 90000"
    "list_all (\<lambda>r. ir_machine_id r = tr_MachineID t \<longrightarrow> ir_ended_at r \<noteq> None) db"
    "repo_Apply observe no_faults db ob t = (None, db', ob')" "tr_MachineID t' = tr_MachineID t"
  shows "\<exists>err. repo_Apply observe faults db' ob'' t' = (Some err, db', ob'')"
proof -
  have "four_digit_year (tr_Timestamp t)" using DecodeStateChange_reported [OF assms(1)] by (simp add: reported_def)
  then have unread: "ParseRFC3339 (FormatRFC3339Nano (tr_Timestamp t)) = None" using assms(2) by (rule ParseRFC3339_Format_25h)
  have none: "filter (\<lambda>r. ir_machine_id r = tr_MachineID t \<and> ir_ended_at r = None) db = []"
    using assms(3) by (auto simp: list_all_iff filter_empty_conv)
  have "LastOpen QueryOk db (tr_MachineID t) = Inr None" by (simp add: LastOpen_def none)
  then have "db' = snd (OpenInterval NoFault db (tr_MachineID t) (tr_State t) (tr_Timestamp t))"
    using assms(4) by (auto simp: repo_Apply_def Apply_def open_and_notify_def split: prod.splits option.splits sum.splits)
  then have "\<exists>err. LastOpen fault db' (tr_MachineID t) = Inl err" for fault
    by (simp add: LastOpen_def OpenInterval_def none unread Let_def)
  then obtain err where "LastOpen (fst faults) db' (tr_MachineID t) = Inl err" by blast
  then show ?thesis using assms(5) by (cases faults) (simp add: repo_Apply_def Apply_def)
qed

definition offset_doc :: json where
  "offset_doc = JObj [(''machine_id'', JText ''m1''), (''state'', JText Running), (''timestamp'', JStr ''2026-06-01T00:00:00+24:60'')]"

definition offset_transition :: StateTransition where
  "offset_transition = \<lparr>tr_MachineID = ''m1'', tr_State = Running, tr_PreviousState = [], tr_Reason = [],
     tr_Timestamp = \<lparr>tm_ns = 63915778800000000000, tm_off = 90000\<rparr>\<rparr>"

lemma offset_doc_decodes: "DecodeStateChange (unmarshal_stateChange errtext) (bytes_of_string (json_text offset_doc)) = Inr offset_transition"
proof -
  have "raw_ok ''2026-06-01T00:00:00+24:60''" by (rule raw_ok_plain) (simp add: quote_char_def backslash_def)
  then have "json_parse (json_text offset_doc) = Some offset_doc" by (intro json_parse_text) (simp_all add: offset_doc_def)
  moreover have "ParseRFC3339 ''2026-06-01T00:00:00+24:60'' = Some (tr_Timestamp offset_transition)" unfolding offset_transition_def by code_simp
  moreover have "utf8_clean ''m1'' = ''m1''" "utf8_clean Running = Running" "Valid Running"
    by (simp_all add: utf8_clean_valid valid_utf8_ascii ascii_def Valid_ascii Valid_def)
  ultimately show ?thesis
    by (simp add: DecodeStateChange_def unmarshal_stateChange_def Unmarshal_def offset_doc_def dec_struct_def stateChange_fields_def
      find_field_def field_def dec_time_def zero_stateChange_def IsZero_def offset_transition_def)
qed

theorem offset_25h_blocks_machine_witness:
  "DecodeStateChange (unmarshal_stateChange (\<lambda>p. [])) (bytes_of_string (json_text offset_doc)) = Inr offset_transition \<and>
   (\<exists>db seen. repo_Apply record_observed no_faults [] [] offset_transition = (None, db, seen) \<and>
      (\<exists>err. repo_Apply record_observed no_faults db seen (tr_demo Stopped (utc_day 2026 6 5)) = (Some err, db, seen)))"
proof -
  obtain db seen where step: "repo_Apply record_observed no_faults [] [] offset_transition = (None, db, seen)"
    by (simp add: repo_Apply_def Apply_def LastOpen_def OpenInterval_def open_and_notify_def)
  have "\<exists>err. repo_Apply record_observed no_faults db seen (tr_demo Stopped (utc_day 2026 6 5)) = (Some err, db, seen)"
    by (rule offset_25h_blocks_machine [OF offset_doc_decodes [of "\<lambda>p. []"] _ _ step]) (simp_all add: offset_transition_def tr_demo_def)
  with step offset_doc_decodes show ?thesis by blast
qed

end
