(* ===== verification/State_Worker.thy ===== *)
theory State_Worker
  imports Broker_System Payloads Live_Engine
begin

section \<open>From state-change messages to intervals, through the fan-out\<close>

text \<open>
  The state-change worker as a worker of the fan-out, over the interval table and the live engine,
  with the decoder of payloads of the previous theories. The faults of the database are given per
  message processed, \<open>faults n\<close> for the \<open>n\<close>-th, and the worker's state counts the messages. The table
  may hold intervals of earlier runs. Then the whole path, from what clients publish to the timeline
  of a machine.
\<close>

definition error_text :: "interval_error \<Rightarrow> string" where
  "error_text err =
     ''interval repo: '' @
     (case err of IvBeginTx \<Rightarrow> ''begin tx'' | IvInsert \<Rightarrow> ''insert'' | IvUpdate \<Rightarrow> ''update'' | IvCommit \<Rightarrow> ''commit''
      | IvQuery \<Rightarrow> ''query'' | IvParseTimestamp \<Rightarrow> ''parse timestamp'')"

type_synonym ingest_state = "nat \<times> interval_table \<times> machines"

definition state_worker ::
  "(bytes \<Rightarrow> string) \<Rightarrow> string \<Rightarrow> (nat \<Rightarrow> query_fault \<times> tx_fault \<times> tx_fault) \<Rightarrow> ingest_state Worker"
where
  "state_worker errtext stateTopic faults =
     \<lparr>wk_Name = ''oee-state-change'',
      wk_Process = (\<lambda>(n, db, ms) msg.
        case StateChangeWorker_Process (unmarshal_stateChange errtext) stateTopic
               (\<lambda>(db, ms) t. case repo_Apply Engine_Apply (faults n) db ms t of (err, db, ms) \<Rightarrow> (err, db, ms)) (db, ms) msg of
          (None, db, ms) \<Rightarrow> ProcessOk (Suc n, db, ms)
        | (Some err, db, ms) \<Rightarrow> ProcessErr (error_text err) (Suc n, db, ms)),
      wk_Close = (\<lambda>st. None)\<rparr>"

text \<open>The transitions that a sequence of messages stands for: those on the state topic that decode.\<close>

fun transitions ::
  "(bytes \<Rightarrow> string) \<Rightarrow> string \<Rightarrow> (nat \<Rightarrow> 'f) \<Rightarrow> nat \<Rightarrow> message list \<Rightarrow> ('f \<times> StateTransition) list"
where
  "transitions errtext stateTopic faults n [] = []"
| "transitions errtext stateTopic faults n (msg # msgs) =
     (if msg_Topic msg \<noteq> stateTopic then transitions errtext stateTopic faults (Suc n) msgs
      else case DecodeStateChange (unmarshal_stateChange errtext) (msg_Payload msg) of
        Inl err \<Rightarrow> transitions errtext stateTopic faults (Suc n) msgs
      | Inr t \<Rightarrow> (faults n, t) # transitions errtext stateTopic faults (Suc n) msgs)"

lemma state_worker_run:
  "\<exists>n'. foldl (\<lambda>st msg. outcome_state (wk_Process (state_worker errtext stateTopic faults) st msg)) (n, db, ms) msgs =
     (n', apply_run (repo_Apply Engine_Apply) db ms (transitions errtext stateTopic faults n msgs))"
proof (induction msgs arbitrary: n db ms)
  case (Cons msg msgs)
  let ?w = "state_worker errtext stateTopic faults"
  consider "msg_Topic msg \<noteq> stateTopic" | err where "msg_Topic msg = stateTopic" "DecodeStateChange (unmarshal_stateChange errtext) (msg_Payload msg) = Inl err"
    | t where "msg_Topic msg = stateTopic" "DecodeStateChange (unmarshal_stateChange errtext) (msg_Payload msg) = Inr t"
    by (cases "DecodeStateChange (unmarshal_stateChange errtext) (msg_Payload msg)") blast+
  then show ?case
  proof cases
    case 3
    obtain err db' ms' where a: "repo_Apply Engine_Apply (faults n) db ms t = (err, db', ms')"
      by (cases "repo_Apply Engine_Apply (faults n) db ms t")
    have "outcome_state (wk_Process ?w (n, db, ms) msg) = (Suc n, db', ms')"
      using 3 a by (cases err) (simp_all add: state_worker_def StateChangeWorker_Process_def)
    with Cons.IH [of "Suc n" db' ms'] 3 a show ?thesis by simp
  qed (use Cons.IH [of "Suc n" db ms] in \<open>simp_all add: state_worker_def StateChangeWorker_Process_def\<close>)
qed simp

text \<open>A message whose time, if it decodes, does not have the zone offset of 25 hours that is not read back.\<close>

definition ordinary :: "(bytes \<Rightarrow> string) \<Rightarrow> message \<Rightarrow> bool" where
  "ordinary errtext msg \<longleftrightarrow>
     (case DecodeStateChange (unmarshal_stateChange errtext) (msg_Payload msg) of Inl err \<Rightarrow> True | Inr t \<Rightarrow> \<bar>tm_off (tr_Timestamp t)\<bar> \<noteq> 90000)"

lemma transitions_formattable:
  "list_all (\<lambda>msg. msg_Topic msg = stateTopic \<longrightarrow> ordinary errtext msg) msgs \<Longrightarrow>
   list_all (\<lambda>(f, t). formattable (tr_Timestamp t)) (transitions errtext stateTopic faults n msgs)"
proof (induction msgs arbitrary: n)
  case (Cons msg msgs)
  have "formattable (tr_Timestamp t)"
    if "msg_Topic msg = stateTopic" "DecodeStateChange (unmarshal_stateChange errtext) (msg_Payload msg) = Inr t" for t
    using that Cons.prems DecodeStateChange_reported [OF that(2)] by (auto simp: ordinary_def intro: reported_formattable)
  with Cons show ?case by (auto split: sum.splits)
qed simp

lemma state_worker_result:
  assumes "fanout_reachable cap [st0, (0, iv, Map.empty)] [w, state_worker errtext stateTopic faults] f" "fo_phase f = Selecting"
  shows "snd (fo_states f ! 1) =
      apply_run (repo_Apply Engine_Apply) iv Map.empty (transitions errtext stateTopic faults 0 (fo_received f))"
proof -
  let ?ws = "[w, state_worker errtext stateTopic faults]"
  have "fanout_inv ?ws [st0, (0, iv, Map.empty)] f" by (rule fanout.reachable_inv [OF assms(1)])
  then have "fo_states f ! 1 = processed (?ws ! 1) ([st0, (0, iv, Map.empty)] ! 1) (done_by f 1)" by (auto simp: fanout_inv_def)
  then show ?thesis
    using state_worker_run [of errtext stateTopic faults 0 iv Map.empty "fo_received f"] assms(2)
    by (auto simp: processed_def done_by_def)
qed

text \<open>
  C11. Whatever messages arrive, whatever the other workers do and whatever statements fail: between
  messages the interval table and the live engine are the result of applying, one after the other, the
  transitions decoded from the JSON payloads of the messages on the state topic, starting from the
  table of the earlier runs; and the table stays well kept as long as no device reports a zone
  offset of 25 hours.
\<close>

theorem state_messages_become_intervals:
  assumes "fanout_reachable cap [st0, (0, iv, Map.empty)] [w, state_worker errtext stateTopic faults] f" "fo_phase f = Selecting"
  shows "snd (fo_states f ! 1) =
      apply_run (repo_Apply Engine_Apply) iv Map.empty (transitions errtext stateTopic faults 0 (fo_received f)) \<and>
    (well_kept iv \<and> list_all (\<lambda>msg. msg_Topic msg = stateTopic \<longrightarrow> ordinary errtext msg) (fo_received f) \<longrightarrow>
     well_kept (fst (snd (fo_states f ! 1))))"
proof (intro conjI impI)
  show run: "snd (fo_states f ! 1) =
      apply_run (repo_Apply Engine_Apply) iv Map.empty (transitions errtext stateTopic faults 0 (fo_received f))"
    by (rule state_worker_result [OF assms])
  assume "well_kept iv \<and> list_all (\<lambda>msg. msg_Topic msg = stateTopic \<longrightarrow> ordinary errtext msg) (fo_received f)"
  then show "well_kept (fst (snd (fo_states f ! 1)))"
    unfolding run well_kept_sound repo_Apply_def by (blast intro: repo.run_sound transitions_formattable)
qed

text \<open>The message of the examples: the document of \<open>demo_transition\<close>.\<close>

definition state_payload :: bytes where
  "state_payload = bytes_of_string (json_text (state_doc demo_transition))"

lemma state_payload_facts:
  "length state_payload \<le> 1000" "DecodeStateChange (unmarshal_stateChange errtext) state_payload = Inr demo_transition"
proof -
  show "length state_payload \<le> 1000" by code_simp
  show "DecodeStateChange (unmarshal_stateChange errtext) state_payload = Inr demo_transition"
    unfolding state_payload_def by (rule state_change_decodes [OF demo_transition_ok])
qed

definition state_msg :: "string \<Rightarrow> message" where
  "state_msg topic = demo_msg\<lparr>msg_Topic := topic, msg_Payload := state_payload\<rparr>"

lemma state_msg_decodes [simp]:
  "DecodeStateChange (unmarshal_stateChange errtext) (msg_Payload (state_msg topic)) = Inr demo_transition" "ordinary errtext (state_msg topic)"
  "msg_Topic (state_msg topic) = topic"
  by (simp_all add: state_msg_def ordinary_def state_payload_facts(2)) (simp add: demo_transition_def utc_day_def)

theorem state_messages_become_intervals_witness:
  "let f = one_round [LoggerWorker, state_worker (\<lambda>p. []) ''s'' (\<lambda>n. no_faults)] (state_msg ''s'') (NewFanOut 0 [(0, [], Map.empty), (0, [], Map.empty)]) in
   well_kept (fst (snd (fo_states f ! 1))) \<and> map ir_started_at (fst (snd (fo_states f ! 1))) = [''2026-06-01T00:00:00Z'']"
proof -
  let ?sts = "[(0, [], Map.empty), (0, [], Map.empty)] :: ingest_state list"
  let ?ws = "[LoggerWorker, state_worker (\<lambda>p. []) ''s'' (\<lambda>n. no_faults)]"
  let ?f = "one_round ?ws (state_msg ''s'') (NewFanOut 0 ?sts)"
  let ?db = "fst (snd (fo_states ?f ! 1))"
  have r: "fanout_reachable 0 ?sts ?ws ?f"
    by (rule one_round_reachable) (simp_all add: reachable_init, simp_all add: NewFanOut_def make_chan_def)
  have p: "fo_phase ?f = Selecting" and m: "fo_received ?f = [state_msg ''s'']" by (simp_all add: one_round_def run_worker_def NewFanOut_def Let_def)
  note holds = state_messages_become_intervals [OF r p, unfolded m]
  have "?db = fst (apply_run (repo_Apply Engine_Apply) [] Map.empty [(no_faults, demo_transition)])"
    using conjunct1 [OF holds] by simp
  moreover have "map ir_started_at (fst (apply_run (repo_Apply Engine_Apply) [] Map.empty [(no_faults, demo_transition)])) = [''2026-06-01T00:00:00Z'']"
    by code_simp
  moreover have "well_kept ?db" using conjunct2 [OF holds] well_kept_Nil by simp
  ultimately show ?thesis unfolding Let_def by simp
qed

section \<open>From the wire to the timeline of a machine\<close>

definition decoded :: "(bytes \<Rightarrow> string) \<Rightarrow> message list \<Rightarrow> StateTransition list" where
  "decoded errtext msgs =
     concat (map (\<lambda>msg. case DecodeStateChange (unmarshal_stateChange errtext) (msg_Payload msg) of Inl err \<Rightarrow> [] | Inr t \<Rightarrow> [t]) msgs)"

lemma transitions_decoded:
  "transitions errtext stateTopic (\<lambda>n. fault) n msgs = map (Pair fault) (decoded errtext (of_topic stateTopic msgs))"
  by (induction msgs arbitrary: n) (auto simp: decoded_def split: sum.split)

lemma ordinary_arrived:
  "list_all (ordinary errtext) (of_topic stateTopic msgs) \<Longrightarrow> list_all (\<lambda>msg. msg_Topic msg = stateTopic \<longrightarrow> ordinary errtext msg) msgs"
  by (simp add: of_topic_def list_all_iff)

lemma faultless_saved: "list_all (\<lambda>(fault, m). fault = NoFault) saves \<Longrightarrow> saved saves = map snd saves"
  by (induction saves) (auto simp: saved_def)

lemma timelines:
  assumes "broker_reach cfg topics maxClients bufSize db [st0, (0, iv, Map.empty)] [w, state_worker errtext stateTopic (\<lambda>n. no_faults)] b"
    "stateTopic \<in> set topics" "well_kept iv" "fo_phase (bk_fanout b) = Selecting"
    "list_all (ordinary errtext) (of_topic stateTopic (sv_log (bk_server b)))"
    "list_all (\<lambda>(fault, m). fault = NoFault) (pl_saves (bk_pipeline b))"
    "snd (fo_states (bk_fanout b) ! 1) = (intervals, machines)"
  shows "\<exists>arrived moving. of_topic stateTopic (sv_log (bk_server b)) = arrived @ moving \<and> (idle b \<longrightarrow> moving = []) \<and>
    history intervals m = fold advance (filter (\<lambda>t. tr_MachineID t = m) (decoded errtext arrived)) (history iv m) \<and>
    (iv = [] \<longrightarrow> engine_intervals machines m = history intervals m)"
proof -
  let ?arrived = "of_topic stateTopic (fo_received (bk_fanout b))"
  let ?ts = "transitions errtext stateTopic (\<lambda>n. no_faults) 0 (fo_received (bk_fanout b))"
  obtain q where q: "pl_queues (bk_pipeline b) stateTopic = Some q" "length (ch_buf q) \<le> bufSize"
    "of_topic stateTopic (sv_log (bk_server b)) = of_topic stateTopic (map snd (pl_saves (bk_pipeline b))) @
       saving (pl_consumers (bk_pipeline b) stateTopic) @ ch_buf q @
       of_topic stateTopic (enqueuing (pl_router (bk_pipeline b))) @ of_topic stateTopic (ch_buf (sv_msgChan (bk_server b)))"
    "of_topic stateTopic (saved (pl_saves (bk_pipeline b))) = ?arrived @
       of_topic stateTopic (ch_buf (fo_input (bk_fanout b))) @ pending (pl_consumers (bk_pipeline b) stateTopic)"
    using assms(1,2) by (rule conveyed)
  note all = faultless_saved [OF assms(6)]
  have run: "apply_run (repo_Apply Engine_Apply) iv Map.empty ?ts = (intervals, machines)"
    using state_worker_result [OF broker_reach_parts(3) [OF assms(1)] assms(4)] assms(7) by simp
  have "list_all (ordinary errtext) ?arrived" using assms(5) q(3,4) by (simp add: all)
  then have "list_all (\<lambda>(f, t). formattable (tr_Timestamp t)) ?ts" by (intro transitions_formattable ordinary_arrived)
  then have ok: "list_all (\<lambda>(f, t). repo.faultless f \<and> formattable (tr_Timestamp t)) ?ts"
    unfolding transitions_decoded by (simp add: list_all_iff repo.faultless_def)
  have "history intervals m = fold advance (filter (\<lambda>t. tr_MachineID t = m) (map snd ?ts)) (history iv m)"
    using repo.run_faultless [OF assms(3) [unfolded well_kept_sound] ok, of Engine_Apply Map.empty m] run by (simp add: repo_Apply_def)
  then have "history intervals m = fold advance (filter (\<lambda>t. tr_MachineID t = m) (decoded errtext ?arrived)) (history iv m)"
    by (simp add: transitions_decoded comp_def)
  moreover have "mirrors machines (history intervals)" if "iv = []"
    using repo.run_mirrored [OF assms(3) [unfolded well_kept_sound] _ ok run [unfolded repo_Apply_def]] mirrors_empty that
    by (simp add: history_def [abs_def])
  ultimately show ?thesis
    using q all by (intro exI [of _ ?arrived] exI conjI) (auto simp: idle_def mirrors_def)
qed

end
