(* ===== verification/Migrator.thy ===== *)
theory Migrator
  imports Go_Strings "HOL-Library.List_Lexorder" "HOL-Library.Char_ord"
begin

section \<open>Schema migrations (platform/database/migrator.go)\<close>

text \<open>
  The migrator applies the SQL files of an embedded directory in the order of their names, each in a
  transaction together with the record that it was applied. What a SQL statement does to the schema
  is SQLite's: \<open>exec\<close> is a parameter, and may fail. The files are given as the entries of the
  directory; the faults of the migrator's own statements are arguments.
\<close>

datatype migrator_error = TrackingFailed | QueryAppliedFailed | ReadingFailed string | BeginFailed string | ExecutingFailed string
  | RecordingFailed string | CommitFailed string

datatype migration_fault = MigOk | MigBegin | MigRecord | MigCommit

record dir_entry =
  de_Name :: string
  de_IsDir :: bool
  de_Content :: "string option"

record 'd database =
  db_tracking :: bool
  db_applied :: "string list"
  db_schema :: 'd

definition splitStatements :: "string \<Rightarrow> string list" where
  "splitStatements content = split_on (CHR '';'') content"

fun exec_statements :: "('d \<Rightarrow> string \<Rightarrow> 'd option) \<Rightarrow> 'd \<Rightarrow> string list \<Rightarrow> 'd option" where
  "exec_statements exec d [] = Some d"
| "exec_statements exec d (stmt # stmts) =
     (let stmt = TrimSpace stmt
      in if stmt = [] then exec_statements exec d stmts
         else case exec d stmt of None \<Rightarrow> None | Some d' \<Rightarrow> exec_statements exec d' stmts)"

text \<open>The record has the name as its primary key: recording a name twice fails.\<close>

definition applyMigration ::
  "('d \<Rightarrow> string \<Rightarrow> 'd option) \<Rightarrow> migration_fault \<Rightarrow> 'd database \<Rightarrow> string \<Rightarrow> string \<Rightarrow> migrator_error option \<times> 'd database"
where
  "applyMigration exec fault db name content =
     (if fault = MigBegin then (Some (BeginFailed name), db)
      else case exec_statements exec (db_schema db) (splitStatements content) of
        None \<Rightarrow> (Some (ExecutingFailed name), db)
      | Some schema \<Rightarrow>
          if fault = MigRecord \<or> name \<in> set (db_applied db) then (Some (RecordingFailed name), db)
          else let tx = db\<lparr>db_schema := schema, db_applied := db_applied db @ [name]\<rparr>
               in if fault = MigCommit then (Some (CommitFailed name), db) else (None, tx))"

definition has_sql_suffix :: "string \<Rightarrow> bool" where
  "has_sql_suffix name \<longleftrightarrow> length name \<ge> 4 \<and> drop (length name - 4) name = ''.sql''"

fun run_entries ::
  "('d \<Rightarrow> string \<Rightarrow> 'd option) \<Rightarrow> (string \<Rightarrow> migration_fault) \<Rightarrow> string set \<Rightarrow> 'd database \<Rightarrow> dir_entry list \<Rightarrow>
   migrator_error option \<times> 'd database"
where
  "run_entries exec faults applied db [] = (None, db)"
| "run_entries exec faults applied db (e # es) =
     (if de_IsDir e then run_entries exec faults applied db es
      else if \<not> has_sql_suffix (de_Name e) then run_entries exec faults applied db es
      else if de_Name e \<in> applied then run_entries exec faults applied db es
      else case de_Content e of
        None \<Rightarrow> (Some (ReadingFailed (de_Name e)), db)
      | Some content \<Rightarrow>
          (case applyMigration exec (faults (de_Name e)) db (de_Name e) content of
             (Some err, db) \<Rightarrow> (Some err, db)
           | (None, db) \<Rightarrow> run_entries exec faults applied db es))"

definition ensureTrackingTable :: "bool \<Rightarrow> 'd database \<Rightarrow> migrator_error option \<times> 'd database" where
  "ensureTrackingTable fails db = (if fails then (Some TrackingFailed, db) else (None, db\<lparr>db_tracking := True\<rparr>))"

definition getApplied :: "bool \<Rightarrow> 'd database \<Rightarrow> migrator_error + string set" where
  "getApplied fails db = (if fails \<or> \<not> db_tracking db then Inl QueryAppliedFailed else Inr (set (db_applied db)))"

definition Run ::
  "('d \<Rightarrow> string \<Rightarrow> 'd option) \<Rightarrow> bool \<times> bool \<times> (string \<Rightarrow> migration_fault) \<Rightarrow> dir_entry list \<Rightarrow> 'd database \<Rightarrow>
   migrator_error option \<times> 'd database"
where
  "Run exec faults entries db =
     (case faults of (tfault, qfault, mfaults) \<Rightarrow>
      case ensureTrackingTable tfault db of
        (Some err, db) \<Rightarrow> (Some err, db)
      | (None, db) \<Rightarrow>
          (case getApplied qfault db of
             Inl err \<Rightarrow> (Some err, db)
           | Inr applied \<Rightarrow> run_entries exec mfaults applied db (sort_key de_Name entries)))"

subsection \<open>What a run does\<close>

definition pending_entries :: "string set \<Rightarrow> dir_entry list \<Rightarrow> dir_entry list" where
  "pending_entries applied es = filter (\<lambda>e. \<not> de_IsDir e \<and> has_sql_suffix (de_Name e) \<and> de_Name e \<notin> applied) es"

text \<open>All statements of some migrations, one after the other.\<close>

fun exec_migrations :: "('d \<Rightarrow> string \<Rightarrow> 'd option) \<Rightarrow> 'd \<Rightarrow> dir_entry list \<Rightarrow> 'd option" where
  "exec_migrations exec d [] = Some d"
| "exec_migrations exec d (e # es) =
     (case de_Content e of
        None \<Rightarrow> None
      | Some content \<Rightarrow>
          (case exec_statements exec d (splitStatements content) of None \<Rightarrow> None | Some d' \<Rightarrow> exec_migrations exec d' es))"

lemma run_entries_pending:
  "run_entries exec faults applied db es = run_entries exec faults applied db (pending_entries applied es)"
  by (induction es arbitrary: db) (auto simp: pending_entries_def split: option.split prod.split)

lemma applyMigration_cases:
  obtains (ok) schema where "applyMigration exec fault db name content = (None, db\<lparr>db_schema := schema, db_applied := db_applied db @ [name]\<rparr>)"
    "exec_statements exec (db_schema db) (splitStatements content) = Some schema"
  | (fail) err where "applyMigration exec fault db name content = (Some err, db)"
proof (cases "fault = MigOk \<and> name \<notin> set (db_applied db) \<and> exec_statements exec (db_schema db) (splitStatements content) \<noteq> None")
  case True
  then obtain schema where "exec_statements exec (db_schema db) (splitStatements content) = Some schema" by blast
  with True show thesis by (intro ok [of schema]) (simp_all add: applyMigration_def Let_def)
next
  case False
  then have "\<exists>err. applyMigration exec fault db name content = (Some err, db)"
    by (cases fault) (auto simp: applyMigration_def Let_def split: option.split)
  then show thesis using fail by blast
qed

lemma run_pending:
  "\<forall>e\<in>set es. \<not> de_IsDir e \<and> has_sql_suffix (de_Name e) \<and> de_Name e \<notin> applied \<Longrightarrow>
   \<exists>k\<le>length es. \<exists>schema.
     run_entries exec faults applied db es =
       (fst (run_entries exec faults applied db es), db\<lparr>db_schema := schema, db_applied := db_applied db @ map de_Name (take k es)\<rparr>) \<and>
     exec_migrations exec (db_schema db) (take k es) = Some schema \<and>
     (fst (run_entries exec faults applied db es) = None \<longleftrightarrow> k = length es)"
proof (induction es arbitrary: db)
  case Nil
  show ?case by (rule exI [of _ 0]) simp
next
  case (Cons e es)
  have e: "\<not> de_IsDir e" "has_sql_suffix (de_Name e)" "de_Name e \<notin> applied" using Cons.prems by simp_all
  show ?case
  proof (cases "de_Content e")
    case None
    with e show ?thesis by (intro exI [of _ 0]) simp
  next
    case (Some content)
    show ?thesis
    proof (cases rule: applyMigration_cases [of exec "faults (de_Name e)" db "de_Name e" content])
      case (ok schema)
      let ?db = "db\<lparr>db_schema := schema, db_applied := db_applied db @ [de_Name e]\<rparr>"
      have step: "run_entries exec faults applied db (e # es) = run_entries exec faults applied ?db es" using e Some ok by simp
      obtain k s where "k \<le> length es"
        "run_entries exec faults applied ?db es =
          (fst (run_entries exec faults applied ?db es), ?db\<lparr>db_schema := s, db_applied := db_applied ?db @ map de_Name (take k es)\<rparr>)"
        "exec_migrations exec (db_schema ?db) (take k es) = Some s"
        "fst (run_entries exec faults applied ?db es) = None \<longleftrightarrow> k = length es"
        using Cons.IH [of ?db] Cons.prems by auto
      then show ?thesis unfolding step using ok Some by (intro exI [of _ "Suc k"]) simp
    next
      case (fail err)
      with e Some show ?thesis by (intro exI [of _ 0]) simp
    qed
  qed
qed

lemma Run_pending:
  assumes "Run exec (False, False, faults) entries db = (err, db')"
  obtains k schema where "k \<le> length (pending_entries (set (db_applied db)) (sort_key de_Name entries))"
    "db' = db\<lparr>db_tracking := True, db_schema := schema,
       db_applied := db_applied db @ map de_Name (take k (pending_entries (set (db_applied db)) (sort_key de_Name entries)))\<rparr>"
    "exec_migrations exec (db_schema db) (take k (pending_entries (set (db_applied db)) (sort_key de_Name entries))) = Some schema"
    "err = None \<longleftrightarrow> k = length (pending_entries (set (db_applied db)) (sort_key de_Name entries))"
proof -
  let ?p = "pending_entries (set (db_applied db)) (sort_key de_Name entries)" and ?d = "db\<lparr>db_tracking := True\<rparr>"
  have "Run exec (False, False, faults) entries db = run_entries exec faults (set (db_applied db)) ?d ?p"
    unfolding run_entries_pending [symmetric] by (simp add: Run_def ensureTrackingTable_def getApplied_def)
  moreover have "\<forall>e\<in>set ?p. \<not> de_IsDir e \<and> has_sql_suffix (de_Name e) \<and> de_Name e \<notin> set (db_applied db)" by (simp add: pending_entries_def)
  note run_pending [OF this, of exec faults ?d]
  ultimately show thesis using that assms by fastforce
qed

lemma pending_done:
  "pending_entries (set (xs @ map de_Name (pending_entries (set xs) es))) es = []"
  by (auto simp: pending_entries_def filter_empty_conv)

subsection \<open>Claims\<close>

text \<open>C29. Migrations are applied in the order of their names, each entirely or not at all. Once
  the record of applied migrations can be read, whatever fails: the names recorded by a run are a
  prefix of the pending ones, the schema is the result of exactly their statements, and no error is
  reported exactly when all pending ones were applied.\<close>

theorem migrations_apply_prefix:
  assumes "Run exec (False, False, faults) entries db = (err, db')"
  shows "\<exists>k schema. db_applied db' = db_applied db @ map de_Name (take k (pending_entries (set (db_applied db)) (sort_key de_Name entries))) \<and>
    exec_migrations exec (db_schema db) (take k (pending_entries (set (db_applied db)) (sort_key de_Name entries))) = Some schema \<and>
    db_schema db' = schema \<and>
    (err = None \<longleftrightarrow> k \<ge> length (pending_entries (set (db_applied db)) (sort_key de_Name entries))) \<and>
    sorted (map de_Name (pending_entries (set (db_applied db)) (sort_key de_Name entries)))"
proof -
  have "sorted (map de_Name (pending_entries (set (db_applied db)) (sort_key de_Name entries)))"
    unfolding pending_entries_def by (rule sorted_filter) simp
  with assms show ?thesis by (elim Run_pending) (auto intro!: exI)
qed

definition demo_entries :: "dir_entry list" where
  "demo_entries =
     [\<lparr>de_Name = ''002.sql'', de_IsDir = False, de_Content = Some ''C;''\<rparr>,
      \<lparr>de_Name = ''001.sql'', de_IsDir = False, de_Content = Some ''A; B''\<rparr>]"

definition demo_db :: "string list database" where
  "demo_db = \<lparr>db_tracking = False, db_applied = [], db_schema = []\<rparr>"

definition demo_exec :: "string list \<Rightarrow> string \<Rightarrow> string list option" where
  "demo_exec d stmt = (if stmt = ''C'' then None else Some (d @ [stmt]))"

lemma demo_Run: "Run demo_exec (False, False, \<lambda>_. MigOk) demo_entries demo_db =
    (Some (ExecutingFailed ''002.sql''), \<lparr>db_tracking = True, db_applied = [''001.sql''], db_schema = [''A'', ''B'']\<rparr>)"
  by code_simp

theorem migrations_apply_prefix_witness:
  "\<exists>k schema. [''001.sql''] = [] @ map de_Name (take k (pending_entries {} (sort_key de_Name demo_entries))) \<and>
    exec_migrations demo_exec [] (take k (pending_entries {} (sort_key de_Name demo_entries))) = Some schema \<and> [''A'', ''B''] = schema"
  using migrations_apply_prefix [OF demo_Run] unfolding demo_db_def database.simps by (simp only: list.set) blast

text \<open>Migrating is idempotent: after a run without error, another run succeeds and changes
  nothing.\<close>

theorem migrations_idempotent:
  assumes "Run exec (False, False, faults) entries db = (None, db')"
  shows "Run exec (False, False, faults') entries db' = (None, db')"
proof -
  let ?p = "pending_entries (set (db_applied db)) (sort_key de_Name entries)"
  obtain schema where db': "db' = db\<lparr>db_tracking := True, db_schema := schema, db_applied := db_applied db @ map de_Name ?p\<rparr>"
    using assms by (rule Run_pending) auto
  have "pending_entries (set (db_applied db')) (sort_key de_Name entries) = []" unfolding db' using pending_done by simp
  then have "run_entries exec faults' (set (db_applied db')) db' (sort_key de_Name entries) = (None, db')"
    by (subst run_entries_pending) simp
  moreover have same: "db'\<lparr>db_tracking := True\<rparr> = db'" and "db_tracking db'" by (simp_all add: db')
  ultimately show ?thesis by (simp add: Run_def ensureTrackingTable_def getApplied_def same)
qed

theorem migrations_idempotent_witness:
  "Run (\<lambda>d s. Some (d @ [s])) (False, False, \<lambda>_. MigOk) demo_entries \<lparr>db_tracking = True, db_applied = [''001.sql'', ''002.sql''], db_schema = [''A'', ''B'', ''C'']\<rparr> =
     (None, \<lparr>db_tracking = True, db_applied = [''001.sql'', ''002.sql''], db_schema = [''A'', ''B'', ''C'']\<rparr>)"
proof -
  have "Run (\<lambda>d s. Some (d @ [s])) (False, False, \<lambda>_. MigOk) demo_entries demo_db =
      (None, \<lparr>db_tracking = True, db_applied = [''001.sql'', ''002.sql''], db_schema = [''A'', ''B'', ''C'']\<rparr>)" by code_simp
  then show ?thesis by (rule migrations_idempotent)
qed

end
