(* ===== verification/Bootstrap.thy ===== *)
theory Bootstrap
  imports Broker_Config Live_Sinks Avail_Query State_Worker Migrator
begin

section \<open>Putting the broker together (cmd/broker)\<close>

text \<open>
  \<open>bootstrap/modules.go\<close>, \<open>database.go\<close>, \<open>server.go\<close>, \<open>shutdown.go\<close>, \<open>platform/database/sqlite.go\<close> and
  \<open>main.go\<close>: from the environment to the running broker, whose initial state is the one that
  \<open>Broker_System\<close> starts from. Construction can fail with an error, and it can panic: \<open>make(chan T, n)\<close>
  with a size that is negative or more than the runtime allocates (\<open>wo_chan_max\<close>), \<open>time.NewTicker\<close>
  with an interval that is not positive. What the process finds outside (files, the SQLite
  connection, the faults of statements, the clock) is in the record \<open>world\<close>.
\<close>

datatype 'a go_result = Panics string | Returns 'a

definition make_chan_go :: "int \<Rightarrow> int \<Rightarrow> 'a chan go_result" where
  "make_chan_go chan_max n = (if n < 0 \<or> n > chan_max then Panics ''makechan: size out of range'' else Returns (make_chan (nat n)))"

record tables =
  tb_raw :: raw_table
  tb_shifts :: shift_db
  tb_intervals :: interval_table

text \<open>
  The outside. \<open>wo_mkParent\<close> creates the directory of a path; \<open>wo_open\<close> and \<open>wo_ping\<close> are \<open>sql.Open\<close> and
  \<open>Ping\<close> of the driver; \<open>wo_exec\<close> is the effect of an SQL statement of a migration; \<open>wo_tables\<close> gives
  the tables of a migrated database.
\<close>

record 'd world =
  wo_env :: env
  wo_mkParent :: "string \<Rightarrow> string option"
  wo_open :: "string \<Rightarrow> string + 'd database"
  wo_ping :: "'d database \<Rightarrow> string option"
  wo_exec :: "'d \<Rightarrow> string \<Rightarrow> 'd option"
  wo_migrationFaults :: "bool \<times> bool \<times> (string \<Rightarrow> migration_fault)"
  wo_migrations :: "dir_entry list"
  wo_tables :: "'d database \<Rightarrow> tables"
  wo_readFile :: "string \<Rightarrow> string + bytes"
  wo_jsonError :: "bytes \<Rightarrow> string"
  wo_seedFaults :: "nat \<Rightarrow> upsert_fault"
  wo_stateFaults :: "nat \<Rightarrow> query_fault \<times> tx_fault \<times> tx_fault"
  wo_chan_max :: int
  wo_now :: gotime

subsection \<open>The database (sqlite.go, database.go)\<close>

definition sqlite_dsn :: "string \<Rightarrow> string" where
  "sqlite_dsn dbPath =
     (if dbPath \<noteq> '':memory:'' then dbPath @ ''?_journal_mode=WAL&_busy_timeout=5000&_synchronous=NORMAL'' else dbPath)"

definition NewSQLiteConnection :: "'d world \<Rightarrow> string \<Rightarrow> string + 'd database" where
  "NewSQLiteConnection w dbPath =
     (case wo_open w (sqlite_dsn dbPath) of
        Inl err \<Rightarrow> Inl (''opening sqlite at '' @ dbPath @ '': '' @ err)
      | Inr db \<Rightarrow> (case wo_ping w db of Some err \<Rightarrow> Inl (''pinging sqlite: '' @ err) | None \<Rightarrow> Inr db))"

definition InitDatabase :: "'d world \<Rightarrow> string \<Rightarrow> (string + migrator_error) + 'd database" where
  "InitDatabase w dbPath =
     (case wo_mkParent w dbPath of
        Some err \<Rightarrow> Inl (Inl err)
      | None \<Rightarrow>
          (case NewSQLiteConnection w dbPath of
             Inl err \<Rightarrow> Inl (Inl err)
           | Inr db \<Rightarrow>
               (case Run (wo_exec w) (wo_migrationFaults w) (wo_migrations w) db of
                  (Some err, db) \<Rightarrow> Inl (Inr err)
                | (None, db) \<Rightarrow> Inr db)))"

subsection \<open>The OEE modules (modules.go)\<close>

datatype seed_error = SeedRead string | SeedLoad string | SeedStore shift_error

definition seedShifts :: "'d world \<Rightarrow> shift_db \<Rightarrow> string \<Rightarrow> seed_error option \<times> shift_db" where
  "seedShifts w store path =
     (case wo_readFile w path of
        Inl err \<Rightarrow> (Some (SeedRead err), store)
      | Inr data \<Rightarrow>
          (case LoadShiftsFromJSON (unmarshal_shifts (wo_jsonError w)) data of
             Inl err \<Rightarrow> (Some (SeedLoad err), store)
           | Inr shifts \<Rightarrow> (case Seed Upsert (wo_seedFaults w) store shifts of (err, store) \<Rightarrow> (map_option SeedStore err, store))))"

record oee_modules =
  oe_sink :: CompositeSink
  oe_latest :: LogSink
  oe_hub :: Hub
  oe_tickInterval :: int
  oe_shifts :: shift_db

text \<open>A worker and the state it holds. The state worker holds the interval table and the machines of
  the live engine, which it feeds.\<close>

type_synonym held_worker = "ingest_state Worker \<times> ingest_state"

text \<open>A failed seeding is only logged.\<close>

definition buildOEEModules :: "'d world \<Rightarrow> Config \<Rightarrow> tables \<Rightarrow> held_worker list \<Rightarrow> oee_modules \<times> held_worker list" where
  "buildOEEModules w cfg db allWorkers =
     (let shiftRepo = (if cf_OEEShiftsPath cfg \<noteq> [] then snd (seedShifts w (tb_shifts db) (cf_OEEShiftsPath cfg)) else tb_shifts db);
          stateWorker = state_worker (wo_jsonError w) (cf_OEEStateTopic cfg) (wo_stateFaults w)
      in (\<lparr>oe_sink = NewCompositeSink 2, oe_latest = Map.empty, oe_hub = NewHub, oe_tickInterval = cf_OEETickInterval cfg, oe_shifts = shiftRepo\<rparr>,
          allWorkers @ [(stateWorker, (0, tb_intervals db, Map.empty))]))"

subsection \<open>The modules (modules.go)\<close>

record Modules =
  mo_Pipeline :: pipeline
  mo_FanOut :: "ingest_state FanOut"
  mo_Workers :: "ingest_state Worker list"
  mo_Server :: server
  mo_ServerCfg :: server_cfg
  mo_OEE :: "oee_modules option"

definition InitModules :: "'d world \<Rightarrow> Config \<Rightarrow> tables \<Rightarrow> (topic_error + Modules) go_result" where
  "InitModules w cfg db =
     (case make_chan_go (wo_chan_max w) (cf_QueueBufferSize cfg) of
        Panics p \<Rightarrow> Panics p
      | Returns msgChan \<Rightarrow>
          (case make_chan_go (wo_chan_max w) (cf_QueueBufferSize cfg) of
             Panics p \<Rightarrow> Panics p
           | Returns processChan \<Rightarrow>
               let lw = (LoggerWorker, (0, [], Map.empty))
               in (case (if cf_OEEEnabled cfg
                         then (case buildOEEModules w cfg db [lw] of (oee, allWorkers) \<Rightarrow> (Some oee, allWorkers))
                         else (None, [lw])) of
                     (oee, allWorkers) \<Rightarrow>
                       let p = NewPipeline (cf_Topics cfg) (tb_raw db) msgChan processChan (nat (cf_QueueBufferSize cfg));
                           fo = NewFanOut (ch_cap processChan) (map snd allWorkers);
                           authenticator = NewEnvAuthenticator (cf_Username cfg) (cf_Password cfg)
                       in (case NewTopicRegistry (cf_Topics cfg) of
                             Inl err \<Rightarrow> Returns (Inl err)
                           | Inr topics \<Rightarrow>
                               let connMgr = NewClientManager (cf_MaxClients cfg)
                               in Returns (Inr \<lparr>mo_Pipeline = p, mo_FanOut = fo, mo_Workers = map fst allWorkers,
                                    mo_Server = NewServer topics connMgr msgChan (wo_now w),
                                    mo_ServerCfg = \<lparr>sc_auth = authenticator, sc_timezone = cf_Timezone cfg\<rparr>, mo_OEE = oee\<rparr>)))))"

subsection \<open>Starting and stopping (server.go, shutdown.go)\<close>

text \<open>\<open>Engine.Start\<close> up to its ticker loop.\<close>

definition Engine_Start :: "int \<Rightarrow> (string \<Rightarrow> 'e + StateInterval option) \<Rightarrow> machines \<Rightarrow> string list \<Rightarrow> machines go_result" where
  "Engine_Start tickInterval lastOpen machines machineIDs =
     (let machines = rehydrate lastOpen machines machineIDs
      in if tickInterval \<le> 0 then Panics ''non-positive interval for NewTicker'' else Returns machines)"

text \<open>
  The running process: the pipeline, the fan-out and the server as one system, what it runs with, the
  routes of the HTTP server and the parts of the live engine. A panic of the engine's goroutine ends the
  process, so it counts as a panic of \<open>StartServers\<close>. The engine is started with no machines to
  rehydrate.
\<close>

record Servers =
  sr_broker :: "ingest_state broker"
  sr_workers :: "ingest_state Worker list"
  sr_cfg :: server_cfg
  sr_routes :: "string list"
  sr_OEE :: "oee_modules option"

definition audit_routes :: "string list" where
  "audit_routes = [''GET /audit/{topic...}'', ''GET /audit-count/{topic...}'']"

definition oee_routes :: "string list" where
  "oee_routes = [''GET /availability/{machine}'', ''GET /availability/{machine}/ws'']"

definition StartServers :: "Modules \<Rightarrow> Servers go_result" where
  "StartServers modules =
     (let broker = \<lparr>bk_server = mo_Server modules, bk_pipeline = mo_Pipeline modules, bk_fanout = mo_FanOut modules\<rparr>;
          servers = (\<lambda>broker routes. \<lparr>sr_broker = broker, sr_workers = mo_Workers modules, sr_cfg = mo_ServerCfg modules, sr_routes = routes,
             sr_OEE = mo_OEE modules\<rparr>)
      in (case mo_OEE modules of
            None \<Rightarrow> Returns (servers broker audit_routes)
          | Some oee \<Rightarrow>
              (case last (fo_states (mo_FanOut modules)) of
                 (n, intervals, machines) \<Rightarrow>
                   (case Engine_Start (oe_tickInterval oee) (LastOpen QueryOk intervals) machines [] of
                      Panics p \<Rightarrow> Panics p
                    | Returns machines \<Rightarrow>
                        Returns (servers (broker\<lparr>bk_fanout := (mo_FanOut modules)\<lparr>fo_states :=
                            butlast (fo_states (mo_FanOut modules)) @ [(n, intervals, machines)]\<rparr>\<rparr>) (audit_routes @ oee_routes))))))"

text \<open>The shutdown: the listener, the HTTP server (which has no state here), the workers (whose \<open>Close\<close>
  does nothing), every client, the composite sink.\<close>

definition GracefulShutdown :: "Servers \<Rightarrow> Servers" where
  "GracefulShutdown servers =
     servers\<lparr>sr_broker := (sr_broker servers)\<lparr>bk_server := do_close_all ((bk_server (sr_broker servers))\<lparr>sv_listening := False\<rparr>)\<rparr>,
             sr_OEE := map_option (\<lambda>oee. oee\<lparr>oe_sink := (oe_sink oee)\<lparr>cs_cancelled := True\<rparr>\<rparr>) (sr_OEE servers)\<rparr>"

subsection \<open>The process (main.go)\<close>

datatype process = Exited int | Crashed string | Serving Servers

definition broker_main :: "'d world \<Rightarrow> process" where
  "broker_main w =
     (case Load (wo_env w) of
        Inl err \<Rightarrow> Exited 1
      | Inr cfg \<Rightarrow>
          (case InitDatabase w (cf_DBPath cfg) of
             Inl err \<Rightarrow> Exited 1
           | Inr db \<Rightarrow>
               (case InitModules w cfg (wo_tables w db) of
                  Panics p \<Rightarrow> Crashed p
                | Returns (Inl err) \<Rightarrow> Exited 1
                | Returns (Inr modules) \<Rightarrow>
                    (case StartServers modules of Panics p \<Rightarrow> Crashed p | Returns servers \<Rightarrow> Serving servers))))"

subsection \<open>Loaded configurations\<close>

lemma registry_of_config:
  assumes "config_ok c"
  shows "(\<exists>r. NewTopicRegistry (cf_Topics c) = Inr r) \<longleftrightarrow> length (cf_Topics c) \<le> 5"
proof -
  have "\<forall>t\<in>set (cf_Topics c). TrimSpace t \<noteq> []" using assms by (simp add: config_ok_def list_all_iff)
  moreover have "1 \<le> length (cf_Topics c)" using assms by (cases "cf_Topics c") (simp_all add: config_ok_def)
  ultimately show ?thesis by (simp add: NewTopicRegistry_iff)
qed

lemma TrimSpace_topics: "config_ok c \<Longrightarrow> TrimSpace ` set (cf_Topics c) = set (cf_Topics c)"
  by (auto simp: config_ok_def list_all_iff)

text \<open>The workers that a configuration asks for, with what they hold.\<close>

definition held_workers :: "'d world \<Rightarrow> Config \<Rightarrow> tables \<Rightarrow> held_worker list" where
  "held_workers w cfg db =
     (LoggerWorker, (0, [], Map.empty)) #
     (if cf_OEEEnabled cfg
      then [(state_worker (wo_jsonError w) (cf_OEEStateTopic cfg) (wo_stateFaults w), (0, tb_intervals db, Map.empty))] else [])"

definition configured_oee :: "'d world \<Rightarrow> Config \<Rightarrow> tables \<Rightarrow> oee_modules option" where
  "configured_oee w cfg db = (if cf_OEEEnabled cfg then Some (fst (buildOEEModules w cfg db [])) else None)"

lemma InitModules_cases:
  assumes "0 \<le> cf_QueueBufferSize cfg" "cf_QueueBufferSize cfg \<le> wo_chan_max w"
  shows "case NewTopicRegistry (cf_Topics cfg) of
      Inl err \<Rightarrow> InitModules w cfg db = Returns (Inl err)
    | Inr topics \<Rightarrow>
        InitModules w cfg db = Returns (Inr
          \<lparr>mo_Pipeline = NewPipeline (cf_Topics cfg) (tb_raw db) (make_chan (nat (cf_QueueBufferSize cfg))) (make_chan (nat (cf_QueueBufferSize cfg)))
              (nat (cf_QueueBufferSize cfg)),
           mo_FanOut = NewFanOut (nat (cf_QueueBufferSize cfg)) (map snd (held_workers w cfg db)),
           mo_Workers = map fst (held_workers w cfg db),
           mo_Server = NewServer topics (NewClientManager (cf_MaxClients cfg)) (make_chan (nat (cf_QueueBufferSize cfg))) (wo_now w),
           mo_ServerCfg = \<lparr>sc_auth = NewEnvAuthenticator (cf_Username cfg) (cf_Password cfg), sc_timezone = cf_Timezone cfg\<rparr>,
           mo_OEE = configured_oee w cfg db\<rparr>)"
  using assms
  by (auto simp: InitModules_def make_chan_go_def make_chan_def held_workers_def configured_oee_def buildOEEModules_def Let_def split: sum.splits)

lemma configured_oee_tick: "configured_oee w cfg db = Some oee \<Longrightarrow> cf_OEEEnabled cfg \<and> oe_tickInterval oee = cf_OEETickInterval cfg"
  by (auto simp: configured_oee_def buildOEEModules_def Let_def split: if_splits)

lemma configured_oee_None: "configured_oee w cfg db = None \<longleftrightarrow> \<not> cf_OEEEnabled cfg"
  by (simp add: configured_oee_def)

lemma StartServers_cases:
  assumes "fo_states (mo_FanOut modules) \<noteq> []"
  shows "StartServers modules =
    (case mo_OEE modules of
       Some oee \<Rightarrow> if oe_tickInterval oee \<le> 0 then Panics ''non-positive interval for NewTicker''
         else Returns \<lparr>sr_broker = \<lparr>bk_server = mo_Server modules, bk_pipeline = mo_Pipeline modules, bk_fanout = mo_FanOut modules\<rparr>,
           sr_workers = mo_Workers modules, sr_cfg = mo_ServerCfg modules, sr_routes = audit_routes @ oee_routes, sr_OEE = mo_OEE modules\<rparr>
     | None \<Rightarrow> Returns \<lparr>sr_broker = \<lparr>bk_server = mo_Server modules, bk_pipeline = mo_Pipeline modules, bk_fanout = mo_FanOut modules\<rparr>,
           sr_workers = mo_Workers modules, sr_cfg = mo_ServerCfg modules, sr_routes = audit_routes, sr_OEE = mo_OEE modules\<rparr>)"
proof -
  have "butlast (fo_states (mo_FanOut modules)) @ [last (fo_states (mo_FanOut modules))] = fo_states (mo_FanOut modules)"
    using assms by simp
  then show ?thesis
    by (cases "last (fo_states (mo_FanOut modules))") (auto simp: StartServers_def Engine_Start_def Let_def split: option.splits)
qed

lemma StartServers_Returns:
  assumes "StartServers modules = Returns s" "fo_states (mo_FanOut modules) \<noteq> []"
  shows "sr_broker s = \<lparr>bk_server = mo_Server modules, bk_pipeline = mo_Pipeline modules, bk_fanout = mo_FanOut modules\<rparr>"
    "sr_workers s = mo_Workers modules" "sr_cfg s = mo_ServerCfg modules" "sr_OEE s = mo_OEE modules"
  using assms by (auto simp: StartServers_cases split: option.splits if_splits)

lemma fo_states_NewFanOut [simp]: "fo_states (NewFanOut n sts) = sts"
  by (simp add: NewFanOut_def)

lemma held_workers_nonempty [simp]: "held_workers w cfg db \<noteq> []"
  by (simp add: held_workers_def)

lemma InitModules_panics:
  "\<not> (0 \<le> cf_QueueBufferSize cfg \<and> cf_QueueBufferSize cfg \<le> wo_chan_max w) \<Longrightarrow> InitModules w cfg db = Panics ''makechan: size out of range''"
  by (auto simp: InitModules_def make_chan_go_def)

text \<open>What is known of a process that serves.\<close>

lemma broker_main_Serving:
  assumes "broker_main w = Serving s"
  obtains cfg db where "Load (wo_env w) = Inr cfg" "InitDatabase w (cf_DBPath cfg) = Inr db"
    "broker_init (cf_Topics cfg) (cf_MaxClients cfg) (nat (cf_QueueBufferSize cfg)) (tb_raw (wo_tables w db))
       (map snd (held_workers w cfg (wo_tables w db))) (sr_workers s) (sr_broker s)"
    "sr_workers s = map fst (held_workers w cfg (wo_tables w db))"
    "sr_cfg s = \<lparr>sc_auth = NewEnvAuthenticator (cf_Username cfg) (cf_Password cfg), sc_timezone = cf_Timezone cfg\<rparr>"
    "sr_OEE s = configured_oee w cfg (wo_tables w db)"
proof -
  obtain cfg db where l: "Load (wo_env w) = Inr cfg" and d: "InitDatabase w (cf_DBPath cfg) = Inr db"
    and m: "(case InitModules w cfg (wo_tables w db) of Panics p \<Rightarrow> Crashed p | Returns (Inl err) \<Rightarrow> Exited 1
      | Returns (Inr modules) \<Rightarrow> (case StartServers modules of Panics p \<Rightarrow> Crashed p | Returns servers \<Rightarrow> Serving servers)) = Serving s"
    using assms by (auto simp: broker_main_def split: sum.splits)
  have buf: "0 \<le> cf_QueueBufferSize cfg" "cf_QueueBufferSize cfg \<le> wo_chan_max w"
    using m InitModules_panics [of cfg w "wo_tables w db"] by (auto split: go_result.splits)
  obtain topics where t: "NewTopicRegistry (cf_Topics cfg) = Inr topics"
    using m InitModules_cases [OF buf, of "wo_tables w db"] by (cases "NewTopicRegistry (cf_Topics cfg)") auto
  note mods = InitModules_cases [OF buf, of "wo_tables w db", unfolded t sum.case]
  obtain modules where r: "InitModules w cfg (wo_tables w db) = Returns (Inr modules)"
    and f: "mo_FanOut modules = NewFanOut (nat (cf_QueueBufferSize cfg)) (map snd (held_workers w cfg (wo_tables w db)))"
      "mo_Workers modules = map fst (held_workers w cfg (wo_tables w db))"
      "mo_Server modules = NewServer topics (NewClientManager (cf_MaxClients cfg)) (make_chan (nat (cf_QueueBufferSize cfg))) (wo_now w)"
      "mo_Pipeline modules = NewPipeline (cf_Topics cfg) (tb_raw (wo_tables w db)) (make_chan (nat (cf_QueueBufferSize cfg)))
         (make_chan (nat (cf_QueueBufferSize cfg))) (nat (cf_QueueBufferSize cfg))"
      "mo_ServerCfg modules = \<lparr>sc_auth = NewEnvAuthenticator (cf_Username cfg) (cf_Password cfg), sc_timezone = cf_Timezone cfg\<rparr>"
      "mo_OEE modules = configured_oee w cfg (wo_tables w db)"
    by (rule that [OF mods]) simp_all
  have "StartServers modules = Returns s" using m r by (auto split: go_result.splits)
  note started = StartServers_Returns [OF this, unfolded f]
  have "0 \<le> cf_MaxClients cfg" using Load_ok [OF l] by (simp add: config_ok_def)
  then show thesis
    using t by (intro that [OF l d]) (auto simp: started broker_init_def server_init_def pipeline_init_def)
qed

abbreviation runs_to :: "Servers \<Rightarrow> ingest_state broker \<Rightarrow> bool" where
  "runs_to s b \<equiv> (broker_step (sr_cfg s) (sr_workers s))\<^sup>*\<^sup>* (sr_broker s) b"

text \<open>A broker that serves is one of the brokers whose behaviour was studied.\<close>

lemma served_reach:
  assumes "broker_main w = Serving s" "runs_to s b"
  obtains cfg db where "Load (wo_env w) = Inr cfg" "InitDatabase w (cf_DBPath cfg) = Inr db"
    "broker_reach (sr_cfg s) (cf_Topics cfg) (cf_MaxClients cfg) (nat (cf_QueueBufferSize cfg)) (tb_raw (wo_tables w db))
       (map snd (held_workers w cfg (wo_tables w db))) (map fst (held_workers w cfg (wo_tables w db))) b"
    "sr_cfg s = \<lparr>sc_auth = NewEnvAuthenticator (cf_Username cfg) (cf_Password cfg), sc_timezone = cf_Timezone cfg\<rparr>"
proof -
  obtain cfg db where l: "Load (wo_env w) = Inr cfg" "InitDatabase w (cf_DBPath cfg) = Inr db"
    and i: "broker_init (cf_Topics cfg) (cf_MaxClients cfg) (nat (cf_QueueBufferSize cfg)) (tb_raw (wo_tables w db))
       (map snd (held_workers w cfg (wo_tables w db))) (sr_workers s) (sr_broker s)"
    and ws: "sr_workers s = map fst (held_workers w cfg (wo_tables w db))"
    and c: "sr_cfg s = \<lparr>sc_auth = NewEnvAuthenticator (cf_Username cfg) (cf_Password cfg), sc_timezone = cf_Timezone cfg\<rparr>"
    using broker_main_Serving [OF assms(1)] by blast
  have "broker_reach (sr_cfg s) (cf_Topics cfg) (cf_MaxClients cfg) (nat (cf_QueueBufferSize cfg)) (tb_raw (wo_tables w db))
       (map snd (held_workers w cfg (wo_tables w db))) (map fst (held_workers w cfg (wo_tables w db))) b"
    using reachable_rtranclp [OF reachable_init [of "broker_init (cf_Topics cfg) (cf_MaxClients cfg) (nat (cf_QueueBufferSize cfg))
      (tb_raw (wo_tables w db)) (map snd (held_workers w cfg (wo_tables w db))) (sr_workers s)", OF i] assms(2)] unfolding ws .
  from that [OF l this c] show thesis .
qed

subsection \<open>An environment that works\<close>

definition good_env :: env where
  "good_env k =
     (if k = ''BROKER_TOPICS'' then '' t ,'' else if k = ''BROKER_USERNAME'' then ''u'' else if k = ''BROKER_PASSWORD'' then ''p''
      else if k = ''BROKER_MAX_CLIENTS'' then ''1'' else if k = ''BROKER_QUEUE_BUFFER_SIZE'' then ''1''
      else if k = ''BROKER_OEE_ENABLED'' then ''true'' else if k = ''BROKER_OEE_STATE_TOPIC'' then ''t'' else [])"

definition good_world :: "unit world" where
  "good_world = \<lparr>wo_env = good_env, wo_mkParent = (\<lambda>p. None), wo_open = (\<lambda>dsn. Inr \<lparr>db_tracking = False, db_applied = [], db_schema = ()\<rparr>),
     wo_ping = (\<lambda>db. None), wo_exec = (\<lambda>d stmt. Some d), wo_migrationFaults = (False, False, \<lambda>name. MigOk), wo_migrations = [],
     wo_tables = (\<lambda>db. \<lparr>tb_raw = [], tb_shifts = no_shifts, tb_intervals = []\<rparr>), wo_readFile = (\<lambda>path. Inl ''no such file''),
     wo_jsonError = (\<lambda>data. []), wo_seedFaults = (\<lambda>n. UpsertOk), wo_stateFaults = (\<lambda>n. no_faults), wo_chan_max = 100000,
     wo_now = demo_now\<rparr>"

lemma good_world_starts:
  "Load good_env = Inr (read_config good_env)" "InitDatabase good_world path = Inr \<lparr>db_tracking = True, db_applied = [], db_schema = ()\<rparr>"
  "cf_QueueBufferSize (read_config good_env) = 1" "cf_Topics (read_config good_env) = [''t'']" "cf_MaxClients (read_config good_env) = 1"
  "cf_OEEEnabled (read_config good_env)" "cf_OEEStateTopic (read_config good_env) = ''t''" "0 < cf_OEETickInterval (read_config good_env)"
  "cf_Username (read_config good_env) = ''u''" "cf_Password (read_config good_env) = ''p''" "cf_Timezone (read_config good_env) = ''UTC''"
proof -
  have "validate (read_config good_env) = None" by code_simp
  then show "Load good_env = Inr (read_config good_env)" by (simp add: Load_Inr)
  show "InitDatabase good_world path = Inr \<lparr>db_tracking = True, db_applied = [], db_schema = ()\<rparr>"
    by (simp add: InitDatabase_def NewSQLiteConnection_def good_world_def Run_def ensureTrackingTable_def getApplied_def)
qed code_simp+

lemma good_world_fields [simp]: "wo_env good_world = good_env" "wo_chan_max good_world = 100000" "wo_stateFaults good_world = (\<lambda>n. no_faults)"
  "wo_now good_world = demo_now" "wo_tables good_world db = \<lparr>tb_raw = [], tb_shifts = no_shifts, tb_intervals = []\<rparr>" "wo_jsonError good_world = (\<lambda>data. [])"
  by (simp_all add: good_world_def)

subsection \<open>Claims\<close>

lemma main_serves:
  "case Load (wo_env w) of
     Inl err \<Rightarrow> broker_main w = Exited 1
   | Inr cfg \<Rightarrow>
       (case InitDatabase w (cf_DBPath cfg) of
          Inl err \<Rightarrow> broker_main w = Exited 1
        | Inr db \<Rightarrow>
            if cf_QueueBufferSize cfg < 0 \<or> wo_chan_max w < cf_QueueBufferSize cfg then broker_main w = Crashed ''makechan: size out of range''
            else if 5 < length (cf_Topics cfg) then broker_main w = Exited 1
            else if cf_OEEEnabled cfg \<and> cf_OEETickInterval cfg \<le> 0 then broker_main w = Crashed ''non-positive interval for NewTicker''
            else \<exists>s. broker_main w = Serving s)"
proof (cases "Load (wo_env w)")
  case (Inr cfg)
  note l = Inr
  show ?thesis
  proof (cases "InitDatabase w (cf_DBPath cfg)")
    case (Inr db)
    let ?bad = "cf_QueueBufferSize cfg < 0 \<or> wo_chan_max w < cf_QueueBufferSize cfg"
    have main: "broker_main w = (case InitModules w cfg (wo_tables w db) of Panics p \<Rightarrow> Crashed p | Returns (Inl err) \<Rightarrow> Exited 1
        | Returns (Inr modules) \<Rightarrow> (case StartServers modules of Panics p \<Rightarrow> Crashed p | Returns servers \<Rightarrow> Serving servers))"
      using l Inr by (simp add: broker_main_def)
    have reg: "(\<exists>r. NewTopicRegistry (cf_Topics cfg) = Inr r) \<longleftrightarrow> length (cf_Topics cfg) \<le> 5" by (rule registry_of_config [OF Load_ok [OF l]])
    show ?thesis
    proof (cases ?bad)
      case True
      then show ?thesis using InitModules_panics [of cfg w "wo_tables w db"] main l Inr by auto
    next
      case False
      then have "0 \<le> cf_QueueBufferSize cfg" "cf_QueueBufferSize cfg \<le> wo_chan_max w" by auto
      note mods = InitModules_cases [OF this, of "wo_tables w db"]
      show ?thesis using mods reg main l Inr False
        by (cases "NewTopicRegistry (cf_Topics cfg)"; cases "configured_oee w cfg (wo_tables w db)")
          (auto simp: StartServers_cases not_le configured_oee_None dest: configured_oee_tick)
    qed
  qed (use l in \<open>simp add: broker_main_def\<close>)
qed (simp add: broker_main_def)

text \<open>C3. When the process comes up: exactly if the configuration loads, the directory, the connection and
  the migrations succeed, the buffer size is one that the runtime can allocate, there are at most five
  topics and, with OEE enabled, the tick interval is positive. Otherwise it exits with status 1 or, for the
  buffer size and the interval, which validation does not look at, it crashes.\<close>

theorem main_outcome:
  "case Load (wo_env w) of
     Inl err \<Rightarrow> broker_main w = Exited 1
   | Inr cfg \<Rightarrow>
       (case InitDatabase w (cf_DBPath cfg) of
          Inl err \<Rightarrow> broker_main w = Exited 1
        | Inr db \<Rightarrow>
            if cf_QueueBufferSize cfg < 0 \<or> wo_chan_max w < cf_QueueBufferSize cfg then broker_main w = Crashed ''makechan: size out of range''
            else if 5 < length (cf_Topics cfg) then broker_main w = Exited 1
            else if cf_OEEEnabled cfg \<and> cf_OEETickInterval cfg \<le> 0 then broker_main w = Crashed ''non-positive interval for NewTicker''
            else \<exists>s. broker_main w = Serving s)"
  by (rule main_serves)

lemma good_world_serves:
  "\<exists>s. broker_main good_world = Serving s \<and> sr_broker s = demo_broker [(0, [], Map.empty), (0, [], Map.empty)] \<and> sr_cfg s = demo_cfg \<and>
     sr_workers s = [LoggerWorker, state_worker (\<lambda>data. []) ''t'' (\<lambda>n. no_faults)]"
proof -
  obtain s where s: "broker_main good_world = Serving s"
    using main_serves [of good_world, unfolded good_world_fields good_world_starts(1,2) sum.case] good_world_starts by auto
  let ?ts = "\<lparr>tb_raw = [], tb_shifts = no_shifts, tb_intervals = []\<rparr>"
  have h: "held_workers good_world (read_config good_env) ?ts =
      [(LoggerWorker, (0, [], Map.empty)), (state_worker (\<lambda>data. []) ''t'' (\<lambda>n. no_faults), (0, [], Map.empty))]"
    by (simp add: held_workers_def good_world_starts(6,7))
  have reg: "NewTopicRegistry [''t''] = Inr \<lparr>reg_allowed = {''t''}, reg_owners = Map.empty\<rparr>"
    using demo_init by (auto simp: server_init_def demo_start_def NewServer_def)
  obtain m where m: "InitModules good_world (read_config good_env) ?ts = Returns (Inr m)" "StartServers m = Returns s"
    using s by (auto simp: broker_main_def good_world_starts(1,2) split: go_result.splits sum.splits)
  have "mo_FanOut m = NewFanOut 1 [(0, [], Map.empty), (0, [], Map.empty)] \<and> mo_Workers m = [LoggerWorker, state_worker (\<lambda>data. []) ''t'' (\<lambda>n. no_faults)] \<and>
      mo_Server m = demo_start \<and> mo_Pipeline m = NewPipeline [''t''] [] (make_chan 1) (make_chan 1) 1 \<and> mo_ServerCfg m = demo_cfg"
    using InitModules_cases [of "read_config good_env" good_world ?ts] m(1) reg
    by (auto simp: good_world_starts h demo_cfg_def demo_start_def)
  then show ?thesis using s StartServers_Returns [OF m(2)] by (simp add: demo_broker_def)
qed

text \<open>C18. From the environment to the running broker: if the process comes up, then in every state it
  reaches at most five clients are registered, only topics of \<open>BROKER_TOPICS\<close> are owned, and every message
  that is handed to the pipeline is on one of these topics, has the configured timezone and comes from
  a session that presented the configured username and password.\<close>

theorem configured_broker_is_safe:
  assumes "broker_main w = Serving s" "runs_to s b"
  shows "Count (sv_connMgr (bk_server b)) \<le> 5 \<and> dom (reg_owners (sv_topics (bk_server b))) \<subseteq> set (parseTopics (wo_env w ''BROKER_TOPICS'')) \<and>
    (\<forall>msg\<in>set (sv_log (bk_server b)). msg_Topic msg \<in> set (parseTopics (wo_env w ''BROKER_TOPICS'')) \<and>
       msg_Timezone msg = cf_Timezone (read_config (wo_env w)) \<and>
       (\<exists>i ss pkt. sv_sessions (bk_server b) i = Some ss \<and> ss_packet ss = Some pkt \<and> cp_ClientID pkt = msg_ClientID msg \<and>
          cp_Username pkt = TrimSpace (wo_env w ''BROKER_USERNAME'') \<and>
          string_of_bytes (cp_Password pkt) = TrimSpace (wo_env w ''BROKER_PASSWORD'')))"
proof -
  obtain cfg db where l: "Load (wo_env w) = Inr cfg"
    and reach: "broker_reach (sr_cfg s) (cf_Topics cfg) (cf_MaxClients cfg) (nat (cf_QueueBufferSize cfg)) (tb_raw (wo_tables w db))
       (map snd (held_workers w cfg (wo_tables w db))) (map fst (held_workers w cfg (wo_tables w db))) b"
    and c: "sr_cfg s = \<lparr>sc_auth = NewEnvAuthenticator (cf_Username cfg) (cf_Password cfg), sc_timezone = cf_Timezone cfg\<rparr>"
    using served_reach [OF assms] by blast
  have ok: "config_ok cfg" and cfg: "cfg = read_config (wo_env w)" using Load_ok [OF l] l by (simp_all add: Load_Inr)
  have max: "cf_MaxClients cfg \<le> 5" using ok by (simp add: config_ok_def)
  note server = broker_reach_parts(1) [OF reach]
  have topics: "TrimSpace ` set (cf_Topics cfg) = set (parseTopics (wo_env w ''BROKER_TOPICS''))"
    using TrimSpace_topics [OF ok] by (simp add: cfg read_config_def)
  have auth: "Authenticate (sc_auth (sr_cfg s)) u p \<Longrightarrow> u = TrimSpace (wo_env w ''BROKER_USERNAME'') \<and> p = TrimSpace (wo_env w ''BROKER_PASSWORD'')" for u p
    by (auto simp: c cfg read_config_def NewEnvAuthenticator_def Authenticate_def split: if_splits)
  have inv: "server_inv (sr_cfg s) (bk_server b)" "server_consts (cf_Topics cfg) (cf_MaxClients cfg) (nat (cf_QueueBufferSize cfg)) (bk_server b)"
    by (rule mqtt.reachable_inv [OF server], rule mqtt_consts.reachable_inv [OF server])
  have "msg_Topic msg \<in> TrimSpace ` set (cf_Topics cfg) \<and> msg_Timezone msg = cf_Timezone cfg \<and>
      (\<exists>i ss pkt. sv_sessions (bk_server b) i = Some ss \<and> ss_packet ss = Some pkt \<and> cp_ClientID pkt = msg_ClientID msg \<and>
        cp_Username pkt = TrimSpace (wo_env w ''BROKER_USERNAME'') \<and> string_of_bytes (cp_Password pkt) = TrimSpace (wo_env w ''BROKER_PASSWORD''))"
    if "msg \<in> set (sv_log (bk_server b))" for msg
  proof -
    have tz: "sc_timezone (sr_cfg s) = cf_Timezone cfg" by (simp add: c)
    show ?thesis using published_origin [OF server that] auth unfolding tz by blast
  qed
  moreover have "Count (sv_connMgr (bk_server b)) \<le> 5" "dom (reg_owners (sv_topics (bk_server b))) \<subseteq> TrimSpace ` set (cf_Topics cfg)"
    using inv max by (simp_all add: server_inv_def server_consts_def manager_inv_def registry_inv_def)
  ultimately show ?thesis unfolding topics [symmetric] cfg [symmetric] by simp
qed

theorem configured_broker_is_safe_witness:
  "\<exists>s. broker_main good_world = Serving s \<and> Count (sv_connMgr (bk_server (sr_broker s))) \<le> 5"
proof -
  obtain s where s: "broker_main good_world = Serving s" using good_world_serves by blast
  with configured_broker_is_safe [OF s rtranclp.rtrancl_refl] show ?thesis by blast
qed

text \<open>Validation lets values through that crash the broker: the environment of the example has
  buffer size -1, loads, and panics when the channels are made.\<close>

theorem accepted_config_panics:
  assumes "wo_env w = demo_env" "InitDatabase w (cf_DBPath (read_config demo_env)) = Inr db"
  shows "Load (wo_env w) = Inr (read_config demo_env) \<and> broker_main w = Crashed ''makechan: size out of range''"
proof -
  have l: "Load (wo_env w) = Inr (read_config demo_env)" and q: "cf_QueueBufferSize (read_config demo_env) = - 1"
    by (simp add: assms(1) Load_Inr, code_simp, code_simp)
  from main_serves [of w, unfolded l assms(2) sum.case q] l show ?thesis by simp
qed

text \<open>C17. From the file of shifts to the table: when the process comes up with OEE and the file holds the
  JSON document of some shifts, the table holds, whichever statements failed, what it held before with a
  prefix of these shifts put into it, each replacing the one with the same machine and name; and it
  holds all of them if no statement failed.\<close>

theorem shifts_file_is_stored:
  assumes "broker_main w = Serving s" "sr_OEE s = Some oee" "Load (wo_env w) = Inr cfg" "cf_OEEShiftsPath cfg \<noteq> []"
    "InitDatabase w (cf_DBPath cfg) = Inr db" "shift_db_ok (tb_shifts (wo_tables w db))"
    "wo_readFile w (cf_OEEShiftsPath cfg) = Inr (bytes_of_string (json_text (JArr (map shift_doc xs))))"
    "list_all shift_ok xs" "list_all (\<lambda>x. weekdays_ok (shift_of_json x)) xs"
  shows "\<exists>k\<le>length xs. shifts_in (oe_shifts oee) = fold put_shift (take k (map shift_of_json xs)) (shifts_in (tb_shifts (wo_tables w db))) \<and>
    shift_db_ok (oe_shifts oee) \<and> ((\<forall>n. wo_seedFaults w n = UpsertOk) \<longrightarrow> k = length xs)"
proof -
  let ?l = "map shift_of_json xs" and ?db = "tb_shifts (wo_tables w db)"
  have "configured_oee w cfg (wo_tables w db) = Some oee"
    using broker_main_Serving [OF assms(1)] assms(2,3,5) by (metis sum.inject(2))
  then have oee: "oe_shifts oee = snd (seedShifts w ?db (cf_OEEShiftsPath cfg))"
    using assms(4) by (auto simp: configured_oee_def buildOEEModules_def Let_def split: if_splits)
  have "LoadShiftsFromJSON (unmarshal_shifts (wo_jsonError w)) (bytes_of_string (json_text (JArr (map shift_doc xs)))) = Inr ?l"
    by (rule shifts_decode [OF assms(8)])
  then have store: "oe_shifts oee = snd (Seed Upsert (wo_seedFaults w) ?db ?l)"
    using oee assms(7) by (simp add: seedShifts_def split: prod.splits)
  have wd: "list_all weekdays_ok ?l" using assms(9) by (simp add: list_all_iff)
  obtain k where "k \<le> length ?l" "shifts_in (oe_shifts oee) = fold put_shift (take k ?l) (shifts_in ?db)" "shift_db_ok (oe_shifts oee)"
    "fst (Seed Upsert (wo_seedFaults w) ?db ?l) = None \<longleftrightarrow> k = length ?l"
    using shift_repo.seed_loop_prefix [OF assms(6) wd, of "wo_seedFaults w" 0] store by (auto simp: Seed_def)
  moreover have "fst (Seed Upsert (wo_seedFaults w) ?db ?l) = None" if "\<forall>n. wo_seedFaults w n = UpsertOk"
    using shift_repo.seed_all [OF assms(6) wd, of "wo_seedFaults w" 0] that by (auto simp: Seed_def upsert_ok_def)
  ultimately show ?thesis by auto
qed

definition shifts_world :: "unit world" where
  "shifts_world = good_world\<lparr>wo_env := (\<lambda>k. if k = ''BROKER_OEE_SHIFTS_PATH'' then ''shifts.json'' else good_env k),
     wo_readFile := (\<lambda>path. Inr (bytes_of_string (json_text (JArr (map shift_doc [demo_shiftJSON])))))\<rparr>"

theorem shifts_file_is_stored_witness:
  "\<exists>s oee. broker_main shifts_world = Serving s \<and> sr_OEE s = Some oee \<and>
     shifts_in (oe_shifts oee) = fold put_shift [shift_of_json demo_shiftJSON] []"
proof -
  let ?cfg = "read_config (wo_env shifts_world)"
  have "validate ?cfg = None" by code_simp
  then have l: "Load (wo_env shifts_world) = Inr ?cfg" by (simp add: Load_Inr)
  have c: "cf_QueueBufferSize ?cfg = 1" "length (cf_Topics ?cfg) = 1" "cf_OEEEnabled ?cfg" "0 < cf_OEETickInterval ?cfg" "cf_OEEShiftsPath ?cfg = ''shifts.json''"
    by code_simp+
  have d: "InitDatabase shifts_world path = Inr \<lparr>db_tracking = True, db_applied = [], db_schema = ()\<rparr>" for path
    by (simp add: InitDatabase_def NewSQLiteConnection_def shifts_world_def good_world_def Run_def ensureTrackingTable_def getApplied_def)
  have w: "wo_chan_max shifts_world = 100000" "wo_tables shifts_world db = \<lparr>tb_raw = [], tb_shifts = no_shifts, tb_intervals = []\<rparr>"
    "wo_seedFaults shifts_world = (\<lambda>n. UpsertOk)" "wo_readFile shifts_world path = Inr (bytes_of_string (json_text (JArr (map shift_doc [demo_shiftJSON]))))" for db path
    by (simp_all add: shifts_world_def good_world_def)
  obtain s where s: "broker_main shifts_world = Serving s"
    using main_serves [of shifts_world, unfolded l d sum.case w(1)] c by auto
  then obtain oee where oee: "sr_OEE s = Some oee" using broker_main_Serving [OF s] l c(3)
    by (metis configured_oee_None not_Some_eq sum.inject(2))
  have wd: "list_all (\<lambda>x. weekdays_ok (shift_of_json x)) [demo_shiftJSON]"
    by (simp add: weekdays_ok_def shift_of_json_def demo_shiftJSON_def fits64_def)
  show ?thesis
    using shifts_file_is_stored [OF s oee l _ d _ w(4) demo_shift_ok wd] s oee no_shifts_ok by (auto simp: c(5) w(2,3))
qed

end
