(* ===== verification/Go_HTTP.thy ===== *)
theory Go_HTTP
  imports Go_JSON_Decode Raw_Store
begin

section \<open>HTTP requests and responses (package net/http)\<close>

text \<open>
  What the program uses of \<open>net/http\<close>: patterns such as \<open>GET /audit/{topic...}\<close> registered on a
  \<open>ServeMux\<close>, which cleans the path of a request, looks for the pattern and binds the wildcards, and
  the responses that \<open>http.Error\<close> and \<open>json.Encoder\<close> write. The path of a request is taken as it is
  escaped in the URL.
\<close>

subsection \<open>Requests\<close>

record http_request =
  rq_Method :: string
  rq_EscapedPath :: string
  rq_Query :: "string \<Rightarrow> string"

definition GET :: "string \<Rightarrow> http_request" where
  "GET path = \<lparr>rq_Method = ''GET'', rq_EscapedPath = path, rq_Query = (\<lambda>name. [])\<rparr>"

text \<open>\<open>url.PathUnescape\<close>, and the text itself where an escape is malformed.\<close>

fun path_unescape :: "string \<Rightarrow> string option" where
  "path_unescape [] = Some []"
| "path_unescape (c # s) =
     (if c = CHR ''%'' then
        (case s of
           a # b # r \<Rightarrow> if is_hex a \<and> is_hex b then map_option ((#) (char_of (16 * hex_value a + hex_value b))) (path_unescape r) else None
         | _ \<Rightarrow> None)
      else map_option ((#) c) (path_unescape s))"

definition pathUnescape :: "string \<Rightarrow> string" where
  "pathUnescape s = (case path_unescape s of None \<Rightarrow> s | Some u \<Rightarrow> u)"

text \<open>A text with every byte escaped, which is one of the forms a client may write a path segment in.\<close>

definition percent :: "string \<Rightarrow> string" where
  "percent s = concat (map (\<lambda>c. [CHR ''%'', hex_digit (code c div 16), hex_digit (code c mod 16)]) s)"

lemma pathUnescape_percent [simp]: "pathUnescape (percent s) = s"
proof -
  have "code c < 256" for c :: char by simp
  then have "code c div 16 < 16" "code c mod 16 < 16" for c :: char by (simp_all add: div_less_iff_less_mult)
  note hex = hex_digit_facts [OF this(1)] hex_digit_facts [OF this(2)]
  have "path_unescape (percent s) = Some s"
    by (induction s) (use hex in \<open>simp_all add: percent_def\<close>)
  then show ?thesis by (simp add: pathUnescape_def)
qed

lemma hex_digit_not_slash: "n < 16 \<Longrightarrow> CHR ''/'' \<noteq> hex_digit n"
proof
  assume "n < 16" "CHR ''/'' = hex_digit n"
  then have "is_hex (CHR ''/'')" using hex_digit_facts [of n] by simp
  then show False by (simp add: is_hex_def is_digit_def)
qed

lemma percent_no_slash: "CHR ''/'' \<notin> set (percent s)"
proof -
  have "code c < 256" for c :: char by simp
  then have "code c div 16 < 16" "code c mod 16 < 16" for c :: char by (simp_all add: div_less_iff_less_mult)
  note slash = hex_digit_not_slash [OF this(1)] hex_digit_not_slash [OF this(2)]
  show ?thesis by (induction s) (use slash in \<open>simp_all add: percent_def\<close>)
qed

lemma percent_Nil [simp]: "percent s = [] \<longleftrightarrow> s = []"
  by (cases s) (simp_all add: percent_def)

lemma percent_not_dots: "s \<noteq> [] \<Longrightarrow> percent s \<noteq> ''.'' \<and> percent s \<noteq> ''..''"
  by (cases s) (simp_all add: percent_def)

subsection \<open>Paths\<close>

text \<open>\<open>path.Clean\<close> of a rooted path: empty and \<open>.\<close> elements vanish, \<open>..\<close> removes the element before it.\<close>

definition clean_element :: "string list \<Rightarrow> string \<Rightarrow> string list" where
  "clean_element done e = (if e = [] \<or> e = ''.'' then done else if e = ''..'' then butlast done else done @ [e])"

definition path_Clean :: "string \<Rightarrow> string" where
  "path_Clean p = CHR ''/'' # join_with (CHR ''/'') (foldl clean_element [] (split_on (CHR ''/'') p))"

definition cleanPath :: "string \<Rightarrow> string" where
  "cleanPath p =
     (let p = (if p = [] \<or> hd p \<noteq> CHR ''/'' then CHR ''/'' # p else p); np = path_Clean p
      in if last p = CHR ''/'' \<and> np \<noteq> ''/'' then np @ ''/'' else np)"

text \<open>\<open>firstSegment\<close>: the segment after the slash, and the path behind it; a final slash is a segment.\<close>

definition firstSegment :: "string \<Rightarrow> string \<times> string" where
  "firstSegment path =
     (if path = ''/'' then (''/'', []) else (pathUnescape (takeWhile (\<lambda>c. c \<noteq> CHR ''/'') (tl path)), dropWhile (\<lambda>c. c \<noteq> CHR ''/'') (tl path)))"

subsection \<open>Patterns\<close>

datatype segment = Lit string | Wild string | Multi string

definition parse_segment :: "string \<Rightarrow> segment" where
  "parse_segment s =
     (if s \<noteq> [] \<and> hd s = CHR ''{'' then
        let name = butlast (tl s)
        in if 3 \<le> length name \<and> drop (length name - 3) name = ''...'' then Multi (take (length name - 3) name) else Wild name
      else Lit s)"

text \<open>A pattern \<open>METHOD /segment/...\<close>.\<close>

definition parse_pattern :: "string \<Rightarrow> string \<times> segment list" where
  "parse_pattern pat = (takeWhile (\<lambda>c. c \<noteq> CHR '' '') pat, map parse_segment (tl (split_on (CHR ''/'') (tl (dropWhile (\<lambda>c. c \<noteq> CHR '' '') pat)))))"

fun match_path :: "segment list \<Rightarrow> string \<Rightarrow> (string \<times> string) list option" where
  "match_path [] path = (if path = [] then Some [] else None)"
| "match_path (Multi name # ss) path = (if path = [] then None else Some [(name, pathUnescape (tl path))])"
| "match_path (Lit l # ss) path =
     (if path = [] then None else case firstSegment path of (seg, rest) \<Rightarrow> if seg = l then match_path ss rest else None)"
| "match_path (Wild name # ss) path =
     (if path = [] then None
      else if path = ''/'' then None
      else case firstSegment path of (seg, rest) \<Rightarrow> map_option ((#) (name, seg)) (match_path ss rest))"

text \<open>A pattern for \<open>GET\<close> serves \<open>HEAD\<close> as well.\<close>

definition method_ok :: "string \<Rightarrow> string \<Rightarrow> bool" where
  "method_ok m rm \<longleftrightarrow> m = rm \<or> m = ''GET'' \<and> rm = ''HEAD''"

text \<open>
  The first registered pattern that matches. The patterns of the program never match the same path, so
  the precedence rules of the mux never decide.
\<close>

fun mux_match :: "string list \<Rightarrow> string option \<Rightarrow> string \<Rightarrow> (string \<times> (string \<times> string) list) option" where
  "mux_match [] m path = None"
| "mux_match (pat # pats) m path =
     (case parse_pattern pat of
        (pm, ss) \<Rightarrow>
          (case (if (case m of None \<Rightarrow> True | Some rm \<Rightarrow> method_ok pm rm) then match_path ss path else None) of
             Some binds \<Rightarrow> Some (pat, binds)
           | None \<Rightarrow> mux_match pats m path))"

definition exactMatch :: "(string \<times> (string \<times> string) list) option \<Rightarrow> string \<Rightarrow> bool" where
  "exactMatch n path =
     (case n of
        None \<Rightarrow> False
      | Some (pat, binds) \<Rightarrow>
          (path \<noteq> [] \<and> last path \<noteq> CHR ''/'') \<or> length (snd (parse_pattern pat)) = length (filter (\<lambda>c. c = CHR ''/'') path))"

datatype mux_result = Matched string "(string \<times> string) list" | MovedPermanently | MethodNotAllowed | NotFound

text \<open>\<open>ServeMux.findHandler\<close>. A path that is not clean, and one that only lacks its final slash, are redirected.\<close>

definition findHandler :: "string list \<Rightarrow> http_request \<Rightarrow> mux_result" where
  "findHandler pats r =
     (let path = (if rq_Method r = ''CONNECT'' then rq_EscapedPath r else cleanPath (rq_EscapedPath r));
          slashed = (path \<noteq> [] \<and> last path = CHR ''/'');
          n = mux_match pats (Some (rq_Method r)) path
      in if \<not> exactMatch n path \<and> \<not> slashed \<and> exactMatch (mux_match pats (Some (rq_Method r)) (path @ ''/'')) (path @ ''/'') then MovedPermanently
         else if path \<noteq> rq_EscapedPath r then MovedPermanently
         else case n of
           Some (pat, binds) \<Rightarrow> Matched pat binds
         | None \<Rightarrow>
             if mux_match pats None path \<noteq> None \<or> (\<not> slashed \<and> mux_match pats None (path @ ''/'') \<noteq> None) then MethodNotAllowed
             else NotFound)"

definition PathValue :: "(string \<times> string) list \<Rightarrow> string \<Rightarrow> string" where
  "PathValue binds name = (case map_of binds name of None \<Rightarrow> [] | Some v \<Rightarrow> v)"

subsection \<open>Responses\<close>

record http_reply =
  rp_Status :: int
  rp_ContentType :: string
  rp_Body :: string

definition newline :: string where "newline = [CHR 0x0A]"

text \<open>\<open>http.Error\<close> sets a content type for text and ends the body with a newline, as \<open>Encoder.Encode\<close> does.\<close>

definition http_Error :: "string \<Rightarrow> int \<Rightarrow> http_reply" where
  "http_Error error status = \<lparr>rp_Status = status, rp_ContentType = ''text/plain; charset=utf-8'', rp_Body = error @ newline\<rparr>"

definition Encode :: "json \<Rightarrow> http_reply" where
  "Encode j = \<lparr>rp_Status = 200, rp_ContentType = ''application/json'', rp_Body = json_text j @ newline\<rparr>"

text \<open>What a handler writes, given how its value is encoded. Where encoding fails, \<open>Encode\<close> has written
  nothing and the handlers ignore its error: the response is empty, with status 200.\<close>

definition write_response :: "('a \<Rightarrow> json option) \<Rightarrow> 'a http_response \<Rightarrow> http_reply" where
  "write_response enc resp =
     (case resp of
        HTTP_OK x \<Rightarrow>
          (case enc x of
             Some j \<Rightarrow> Encode j
           | None \<Rightarrow> \<lparr>rp_Status = 200, rp_ContentType = ''application/json'', rp_Body = []\<rparr>)
      | HTTP_BadRequest e \<Rightarrow> http_Error e 400
      | HTTP_InternalServerError e \<Rightarrow> http_Error e 500)"

text \<open>The body of a response to \<open>HEAD\<close> is not sent.\<close>

definition sent_reply :: "http_request \<Rightarrow> http_reply \<Rightarrow> http_reply" where
  "sent_reply r reply = (if rq_Method r = ''HEAD'' then reply\<lparr>rp_Body := []\<rparr> else reply)"

lemma newline_space [simp]: "list_all json_space newline"
  by (simp add: newline_def json_space_def)

end
