(* ===== verification/Audit_API.thy ===== *)
theory Audit_API
  imports Go_HTTP
begin

section \<open>The audit endpoints (modules/audit)\<close>

text \<open>
  The handlers of \<open>GET /audit/{topic...}\<close> and \<open>GET /audit-count/{topic...}\<close> with the documents they
  write: a record is an object with the members of the struct tags of \<open>domain.Record\<close>, and the list is
  an array, empty where there are no records. A client that reads the body with \<open>json.Unmarshal\<close> gets
  the records.
\<close>

subsection \<open>The documents (domain/record.go)\<close>

definition record_doc :: "audit_record \<Rightarrow> json" where
  "record_doc r =
     JObj [(''client_id'', JText (ar_ClientID r)), (''topic'', JText (ar_Topic r)), (''timezone'', JText (ar_Timezone r)),
           (''timestamp'', JText (ar_Timestamp r)), (''payload'', JText (ar_Payload r))]"

definition record_fields :: "audit_record field_table" where
  "record_fields =
     [(''client_id'', field ar_ClientID ar_ClientID_update dec_string),
      (''topic'', field ar_Topic ar_Topic_update dec_string),
      (''timezone'', field ar_Timezone ar_Timezone_update dec_string),
      (''timestamp'', field ar_Timestamp ar_Timestamp_update dec_string),
      (''payload'', field ar_Payload ar_Payload_update dec_string)]"

definition zero_record :: audit_record where
  "zero_record = \<lparr>ar_ClientID = [], ar_Topic = [], ar_Timezone = [], ar_Timestamp = [], ar_Payload = []\<rparr>"

definition count_doc :: "int \<Rightarrow> json" where
  "count_doc n = JObj [(''count'', JInt n)]"

definition getByTopic :: "query_fault \<Rightarrow> raw_table \<Rightarrow> string \<Rightarrow> http_reply" where
  "getByTopic fault db topic = write_response (\<lambda>records. Some (JArr (map record_doc records))) (getByTopic_handler fault db topic)"

definition countByTopic :: "query_fault \<Rightarrow> raw_table \<Rightarrow> string \<Rightarrow> http_reply" where
  "countByTopic fault db topic = write_response (\<lambda>n. Some (count_doc n)) (countByTopic_handler fault db topic)"

subsection \<open>What a client reads\<close>

definition record_utf8 :: "audit_record \<Rightarrow> bool" where
  "record_utf8 r \<longleftrightarrow> valid_utf8 (ar_ClientID r) \<and> valid_utf8 (ar_Topic r) \<and> valid_utf8 (ar_Timezone r) \<and>
     valid_utf8 (ar_Timestamp r) \<and> valid_utf8 (ar_Payload r)"

lemma audit_names [simp]:
  "raw_ok ''client_id''" "raw_ok ''topic''" "raw_ok ''timezone''" "raw_ok ''timestamp''" "raw_ok ''payload''" "raw_ok ''count''"
  by (simp_all add: raw_ok_plain quote_char_def backslash_def)

lemma unquote_audit_names [simp]:
  "unquote ''client_id'' = Some ''client_id''" "unquote ''topic'' = Some ''topic''" "unquote ''timezone'' = Some ''timezone''"
  "unquote ''timestamp'' = Some ''timestamp''" "unquote ''payload'' = Some ''payload''" "unquote ''count'' = Some ''count''"
  by (rule unquote_plain, simp add: quote_char_def backslash_def)+

interpretation rec: json_array record_utf8 record_doc "dec_struct record_fields" id 1 zero_record
proof
  fix r and old :: audit_record
  assume ok: "record_utf8 r"
  show "json_ok (record_doc r)" "depth (record_doc r) \<le> 1" by (simp_all add: record_doc_def)
  show "\<exists>c. dec_struct record_fields (record_doc r) old = Some c \<and> id c = r"
    using ok by (simp add: record_doc_def dec_struct_def record_fields_def find_field_def field_def record_utf8_def utf8_clean_valid)
qed

text \<open>The body that lists the rows of a topic is read back as their records.\<close>

lemma audit_body:
  assumes "topic \<noteq> []" "list_all record_utf8 (map audit_record_of (filter (\<lambda>r. rr_topic r = topic) db))"
  shows "\<exists>records. rp_Status (getByTopic QueryOk db topic) = 200 \<and>
    Unmarshal (dec_slice zero_record (dec_struct record_fields)) nil_slice (rp_Body (getByTopic QueryOk db topic)) = Some records \<and>
    elems records = map audit_record_of (filter (\<lambda>r. rr_topic r = topic) db)"
  using rec.array.Unmarshal_enc [OF assms(2) _ newline_space, of nil_slice] assms(1)
  by (auto simp: getByTopic_def write_response_def Encode_def audit_defs maxNestingDepth_def)

lemma count_body:
  assumes "topic \<noteq> []"
  shows "countByTopic QueryOk db topic = Encode (count_doc (int (length (filter (\<lambda>r. rr_topic r = topic) db))))"
  using assms by (simp add: countByTopic_def write_response_def audit_defs)

text \<open>
  The list does not tell payloads apart that are no text: every byte that is not valid UTF-8 is written
  as U+FFFD, so the responses for two different messages are the same.
\<close>

theorem audit_merges_payloads:
  assumes "topic \<noteq> []" "rr_topic row = topic"
  shows "getByTopic fault [row\<lparr>rr_payload := [CHR 0xFE]\<rparr>] topic = getByTopic fault [row\<lparr>rr_payload := [CHR 0xFF]\<rparr>] topic"
proof -
  have "JText [CHR 0xFE] = JText [CHR 0xFF]" by code_simp
  then show ?thesis using assms by (simp add: getByTopic_def audit_defs write_response_def record_doc_def audit_record_of_def)
qed

theorem audit_merges_payloads_witness:
  "getByTopic QueryOk [(raw_row_of (sample_message ''t'' 1))\<lparr>rr_payload := [CHR 0xFE]\<rparr>] ''t'' =
   getByTopic QueryOk [(raw_row_of (sample_message ''t'' 1))\<lparr>rr_payload := [CHR 0xFF]\<rparr>] ''t''"
  by (rule audit_merges_payloads) (simp_all add: raw_row_of_def sample_message_def)

end
