(* ===== verification/Go_Float_Text.thy ===== *)
theory Go_Float_Text
  imports Go_Float Go_JSON_Decode
begin

section \<open>Floats as text (strconv and encoding/json)\<close>

text \<open>
  How \<open>encoding/json\<close> writes a \<open>float64\<close>: the shortest decimal that is rounded to the same float, the
  closest one of these, without an exponent between \<open>1e-6\<close> and \<open>1e21\<close>. Seventeen digits are always
  enough. A text is read by rounding the decimal it stands for, so what is written is read back.
\<close>

subsection \<open>Decimals near a float\<close>

lemma ilog2_eqI: "2 powi k \<le> y \<Longrightarrow> y < 2 powi (k + 1) \<Longrightarrow> ilog2 y = k"
proof -
  assume y: "2 powi k \<le> y" "y < 2 powi (k + 1)"
  then have "0 < y" using powi_pos [of k] by linarith
  note b = ilog2_bounds [OF this]
  have "\<not> k + 1 \<le> ilog2 y" using powi_mono [of "k + 1" "ilog2 y"] b(1) y(2) by linarith
  moreover have "\<not> ilog2 y + 1 \<le> k" using powi_mono [of "ilog2 y + 1" k] b(2) y(1) by linarith
  ultimately show "ilog2 y = k" by linarith
qed

lemma round_even_eqI: "\<bar>x - of_int m\<bar> < 1 / 2 \<Longrightarrow> round_even x = m"
proof -
  assume "\<bar>x - of_int m\<bar> < 1 / 2"
  then have "\<bar>(of_int (round_even x - m) :: rat)\<bar> < 1" using round_even_err [of x] unfolding of_int_diff by linarith
  then show "round_even x = m" by linarith
qed

lemma round_pos_eqI:
  assumes "2 powi k \<le> y" "y < 2 powi (k + 1)" "\<bar>y * 2 powi (52 - k) - of_int m\<bar> < 1 / 2"
  shows "round_pos y = of_int m * 2 powi (k - 52)"
  using round_even_eqI [OF assms(3)] by (simp add: round_pos_def ilog2_eqI [OF assms(1,2)] Let_def)

text \<open>A float as an integer of 53 bits and an exponent.\<close>

lemma float_mantissa:
  assumes "0 < x" "float_round x = x"
  obtains m :: int and k where "x = of_int m * 2 powi (k - 52)" "2 ^ 52 \<le> m" "m < 2 ^ 53"
proof -
  let ?k = "ilog2 x" and ?m = "round_even (x * 2 powi (- (ilog2 x - 52)))"
  have x: "x = of_int ?m * 2 powi (?k - 52)"
    using assms by (simp add: float_round_pos round_pos_def Let_def)
  note b = ilog2_bounds [OF assms(1)]
  have pw: "(2 :: rat) powi ?k = 2 ^ 52 * 2 powi (?k - 52)" "(2 :: rat) powi (?k + 1) = 2 ^ 53 * 2 powi (?k - 52)"
    using power_int_add [of "2 :: rat" 52 "?k - 52"] power_int_add [of "2 :: rat" 53 "?k - 52"] by (simp_all add: add.commute)
  have "(2 ^ 52 :: rat) * 2 powi (?k - 52) \<le> of_int ?m * 2 powi (?k - 52)" using b(1) pw(1) x by simp
  then have lo: "(2 ^ 52 :: rat) \<le> of_int ?m" by (simp only: mult_le_cancel_right_pos [OF powi_pos])
  have "of_int ?m * 2 powi (?k - 52) < (2 ^ 53 :: rat) * 2 powi (?k - 52)" using b(2) pw(2) x by simp
  then have "of_int ?m < (2 ^ 53 :: rat)" by (simp only: mult_less_cancel_right_pos [OF powi_pos])
  then show thesis using that [OF x] lo by (simp add: of_int_le_iff flip: of_int_power)
qed

text \<open>A rounded number is a float.\<close>

lemma round_pos_idem:
  assumes "0 < x"
  shows "round_pos (round_pos x) = round_pos x"
proof -
  let ?k = "ilog2 x" and ?v = "round_pos x"
  obtain m :: int where v: "?v = of_int m * 2 powi (?k - 52)" by (metis round_pos_def)
  note b = round_pos_bounds [OF assms]
  show ?thesis
  proof (cases "?v < 2 powi (?k + 1)")
    case True
    have "?v * 2 powi (52 - ?k) = of_int m" by (simp add: v mult.assoc flip: power_int_add)
    then have "round_pos ?v = of_int m * 2 powi (?k - 52)" using b(1) True by (intro round_pos_eqI) simp_all
    with v show ?thesis by simp
  next
    case False
    then have v: "?v = 2 powi (?k + 1)" using b(2) by simp
    have "(2 :: rat) powi (?k + 1) < 2 powi (?k + 1 + 1)" using powi_Suc [of "?k + 1"] powi_pos [of "?k + 1"] by simp
    moreover have "(2 :: rat) powi (?k + 1) * 2 powi (52 - (?k + 1)) = of_int (2 ^ 52)" by (simp flip: power_int_add)
    ultimately have "round_pos ?v = of_int (2 ^ 52) * 2 powi (?k + 1 - 52)" unfolding v by (intro round_pos_eqI) simp_all
    also have "\<dots> = ?v" using power_int_add [of "2 :: rat" 52 "?k + 1 - 52"] by (simp add: v add.commute)
    finally show ?thesis .
  qed
qed

lemma float_round_idem [simp]: "float_round (float_round x) = float_round x"
  using round_pos_idem [of x] round_pos_idem [of "- x"] round_pos_pos [of x] round_pos_pos [of "- x"]
  by (auto simp: float_round_def)

text \<open>Seventeen digits are more than 53 bits: a number that close to a float is rounded to it.\<close>

lemma float_round_near:
  assumes "0 < x" "float_round x = x" "\<bar>y - x\<bar> * 20000000000000000 \<le> x"
  shows "float_round y = x"
proof -
  obtain m :: int and k where x: "x = of_int m * 2 powi (k - 52)" and m: "2 ^ 52 \<le> m" "m < 2 ^ 53"
    using float_mantissa [OF assms(1,2)] .
  define u :: rat where "u = 2 powi (k - 52)"
  define z where "z = y * 2 powi (52 - k)"
  have u: "0 < u" "u * 2 powi (52 - k) = 1" by (simp_all add: u_def flip: power_int_add)
  then have z: "y = z * u" by (simp add: z_def mult.assoc mult.commute)
  have zm: "\<bar>z - of_int m\<bar> * u = \<bar>y - x\<bar>" using u(1) by (simp add: z x flip: u_def left_diff_distrib abs_mult_pos)
  have "\<bar>z - of_int m\<bar> * 20000000000000000 * u = \<bar>z - of_int m\<bar> * u * 20000000000000000" by (simp only: ac_simps)
  also have "\<dots> = \<bar>y - x\<bar> * 20000000000000000" by (simp only: zm)
  also have "\<dots> \<le> of_int m * u" using assms(3) by (simp only: x u_def)
  finally have close: "\<bar>z - of_int m\<bar> * 20000000000000000 \<le> of_int m" by (simp only: mult_le_cancel_right_pos [OF u(1)])
  have mr: "(2 ^ 52 :: rat) \<le> of_int m" "of_int m \<le> (2 ^ 53 - 1 :: rat)"
    using m of_int_le_iff [of "2 ^ 52" m, where ?'a = rat] of_int_le_iff [of m "2 ^ 53 - 1", where ?'a = rat] by simp_all
  have pw: "(2 :: rat) powi k = 2 ^ 52 * u" "(2 :: rat) powi (k + 1) = 2 ^ 53 * u" "(2 :: rat) powi (k - 1) = 2 ^ 51 * u"
    using power_int_add [of "2 :: rat" 52 "k - 52"] power_int_add [of "2 :: rat" 53 "k - 52"] power_int_add [of "2 :: rat" 51 "k - 52"]
    by (simp_all add: u_def add.commute)
  have mn: "(4503599627370496 :: rat) \<le> of_int m" "of_int m \<le> (9007199254740991 :: rat)" using m by simp_all
  define d where "d = \<bar>z - of_int m\<bar>"
  have d: "d * 20000000000000000 \<le> of_int m" "z - of_int m \<le> d" "of_int m - z \<le> d"
    using close abs_ge_self [of "z - of_int m"] abs_ge_minus_self [of "z - of_int m"] unfolding d_def by simp_all
  have near: "z - of_int m \<le> of_int m / 20000000000000000" "of_int m - z \<le> of_int m / 20000000000000000"
    using d by linarith+
  have "0 < z" using near mn by linarith
  then have ypos: "0 < y" using u(1) unfolding z by (rule mult_pos_pos)
  show ?thesis
  proof (cases "2 ^ 52 \<le> z")
    case True
    have "z < 9007199254740992" "\<bar>z - of_int m\<bar> < 1 / 2" using near mn by linarith+
    then have "round_pos y = of_int m * 2 powi (k - 52)"
      using True u(1) by (intro round_pos_eqI) (simp_all only: pw z_def [symmetric], simp_all add: z)
    then show ?thesis using ypos by (simp add: float_round_pos x)
  next
    case False
    then have "z < 4503599627370496" by simp
    then have "of_int m < (4503599627370497 :: rat)" using near mn by linarith
    then have m52: "m = 4503599627370496" using m(1) by simp
    then have b: "2251799813685248 \<le> z" "z < 4503599627370496" "\<bar>2 * z - 9007199254740992\<bar> < 1 / 2"
      using near \<open>z < 4503599627370496\<close> by (simp_all add: m52)
    have "y * 2 powi (52 - (k - 1)) = 2 * z" using power_int_add [of "2 :: rat" 1 "52 - k"] by (simp add: z_def algebra_simps)
    then have "\<bar>y * 2 powi (52 - (k - 1)) - of_int (2 ^ 53)\<bar> < 1 / 2" using b(3) by simp
    moreover have "2 powi (k - 1) \<le> y" "y < 2 powi (k - 1 + 1)" using b(1,2) u(1) by (simp_all add: pw z)
    ultimately have "round_pos y = of_int (2 ^ 53) * 2 powi (k - 1 - 52)" by (intro round_pos_eqI)
    also have "\<dots> = x" using power_int_add [of "2 :: rat" 1 "k - 53"] by (simp add: x m52 algebra_simps)
    finally show ?thesis using ypos by (simp add: float_round_pos)
  qed
qed

subsection \<open>The shortest decimal\<close>

text \<open>The number of digits of a positive rational before its decimal point.\<close>

definition dec_exp :: "rat \<Rightarrow> int" where
  "dec_exp x = (case quotient_of x of (p, q) \<Rightarrow>
     let k = int (length (dec (nat p))) - int (length (dec (nat q))) in if x < 10 powi k then k else k + 1)"

text \<open>The decimals with \<open>n\<close> digits around \<open>x\<close>, as integers, the closer one first; and the one of them
  that is rounded to \<open>x\<close>.\<close>

definition around :: "rat \<Rightarrow> int list" where
  "around y = (let f = floor y; r = round_even y in [r, if r = f then f + 1 else f])"

definition near :: "rat \<Rightarrow> nat \<Rightarrow> int option" where
  "near x n = (let e = dec_exp x - int n in List.find (\<lambda>c. float_round (of_int c * 10 powi e) = x) (around (x * 10 powi (- e))))"

text \<open>The shortest decimal \<open>c * 10 powi e\<close> that is rounded to \<open>x\<close>.\<close>

definition shortest :: "rat \<Rightarrow> int \<times> int" where
  "shortest x =
     (case List.find (\<lambda>n. near x n \<noteq> None) [1..<17] of
        Some n \<Rightarrow> (the (near x n), dec_exp x - int n)
      | None \<Rightarrow> (hd (around (x * 10 powi (17 - dec_exp x))), dec_exp x - 17))"

lemma pow10_pos [simp]: "0 < (10 :: rat) powi e"
  by (rule zero_less_power_int) simp

lemma dec_bounds: "0 < n \<Longrightarrow> 10 ^ (length (dec n) - 1) \<le> n \<and> n < 10 ^ length (dec n)"
proof (induction n rule: dec.induct)
  case (1 n)
  show ?case
  proof (cases "n < 10")
    case False
    then have ih: "10 ^ (length (dec (n div 10)) - 1) \<le> n div 10" "n div 10 < 10 ^ length (dec (n div 10))" using 1 by auto
    have l: "length (dec n) = Suc (length (dec (n div 10)))" "0 < length (dec (n div 10))"
      using False dec_digits [of "n div 10"] by (simp_all add: dec.simps [of n])
    then have p: "(10 :: nat) ^ (length (dec n) - 1) = 10 * 10 ^ (length (dec (n div 10)) - 1)" by (simp flip: power_Suc)
    have "10 * 10 ^ (length (dec (n div 10)) - 1) \<le> n" using ih(1) by linarith
    moreover have "n < 10 * 10 ^ length (dec (n div 10))" using ih(2) by linarith
    ultimately show ?thesis unfolding p using l(1) by simp
  qed (use 1 in \<open>simp add: dec.simps [of n]\<close>)
qed

lemma dec_exp_bounds:
  assumes "0 < x"
  shows "10 powi (dec_exp x - 1) \<le> x" "x < 10 powi dec_exp x"
proof -
  obtain p q where pq: "quotient_of x = (p, q)" by (cases "quotient_of x")
  have q: "0 < q" using quotient_of_denom_pos [OF pq] .
  have x: "x = of_int p / of_int q" using quotient_of_div [OF pq] .
  have p: "0 < p" using assms q unfolding x by (simp add: zero_less_divide_iff)
  define a b where "a = length (dec (nat p))" and "b = length (dec (nat q))"
  have len: "0 < a" "0 < b" using dec_digits by (simp_all add: a_def b_def)
  have bounds: "10 powi (int (length (dec (nat n))) - 1) \<le> (of_int n :: rat) \<and> (of_int n :: rat) < 10 powi int (length (dec (nat n)))" if n: "0 < n" for n
  proof -
    have "0 < length (dec (nat n))" using dec_digits by simp
    then have e: "int (length (dec (nat n))) - 1 = int (length (dec (nat n)) - 1)" by (cases "length (dec (nat n))") simp_all
    have d: "10 ^ (length (dec (nat n)) - 1) \<le> nat n" "nat n < 10 ^ length (dec (nat n))" using dec_bounds [of "nat n"] n by simp_all
    have "(of_nat (nat n) :: rat) = of_int n" using n by simp
    then show ?thesis using of_nat_le_iff [of "10 ^ (length (dec (nat n)) - 1)" "nat n", where ?'a = rat] d(1)
        of_nat_less_iff [of "nat n" "10 ^ length (dec (nat n))", where ?'a = rat] d(2)
      unfolding e by simp
  qed
  let ?k = "int a - int b"
  have "x < 10 powi int a / 10 powi (int b - 1)"
    unfolding x using bounds [OF p] bounds [OF q] p by (intro frac_less) (simp_all add: a_def b_def)
  also have "\<dots> = 10 powi (int a - (int b - 1))" by (rule power_int_diff [symmetric]) simp
  finally have up: "x < 10 powi (?k + 1)" by (simp add: algebra_simps)
  have "10 powi (int a - 1) / 10 powi int b \<le> x"
    unfolding x using bounds [OF p] bounds [OF q] p q by (intro frac_le) (simp_all add: a_def b_def)
  moreover have "(10 :: rat) powi (int a - 1) / 10 powi int b = 10 powi (int a - 1 - int b)" by (rule power_int_diff [symmetric]) simp
  ultimately have lo: "10 powi (?k - 1) \<le> x" by (simp add: algebra_simps)
  show "10 powi (dec_exp x - 1) \<le> x" using lo by (simp add: dec_exp_def pq Let_def a_def b_def not_less)
  show "x < 10 powi dec_exp x" using up by (simp add: dec_exp_def pq Let_def a_def b_def)
qed

text \<open>The candidates are close and, for a number of at least 1, positive.\<close>

lemma around_near:
  assumes "c \<in> set (around y)"
  shows "1 \<le> y \<Longrightarrow> 0 < c"
proof -
  have "round_even y = floor y \<or> round_even y = floor y + 1" by (auto simp: round_even_def Let_def)
  then have "floor y \<le> c" using assms by (auto simp: around_def Let_def split: if_splits)
  moreover assume "1 \<le> y"
  then have "1 \<le> floor y" by (simp add: le_floor_iff)
  ultimately show "0 < c" by linarith
qed

lemma scaled_ge:
  assumes "0 < x"
  shows "10 powi (int n - 1) \<le> x * 10 powi (int n - dec_exp x)"
proof -
  have "(10 :: rat) powi (int n - 1) = 10 powi (dec_exp x - 1) * 10 powi (int n - dec_exp x)"
    by (simp flip: power_int_add)
  also have "\<dots> \<le> x * 10 powi (int n - dec_exp x)"
    using dec_exp_bounds(1) [OF assms] by (rule mult_right_mono) (simp add: less_imp_le)
  finally show ?thesis .
qed

text \<open>The shortest decimal is rounded to the float; seventeen digits always are.\<close>

lemma shortest_rounds:
  assumes "0 < x" "float_round x = x" "shortest x = (c, e)"
  shows "0 < c" "float_round (of_int c * 10 powi e) = x"
proof -
  have one: "1 \<le> x * 10 powi (int n - dec_exp x)" if "0 < n" for n
  proof -
    have "(1 :: rat) \<le> 10 powi (int n - 1)" using that by (simp add: one_le_power_int)
    then show ?thesis using scaled_ge [OF assms(1), of n] by (rule order_trans)
  qed
  have "0 < c \<and> float_round (of_int c * 10 powi e) = x"
  proof (cases "List.find (\<lambda>n. near x n \<noteq> None) [1..<17]")
    case (Some n)
    then have n: "0 < n" "near x n \<noteq> None" by (auto simp: find_Some_iff)
    then obtain c' where c': "near x n = Some c'" by blast
    have "c = c'" "e = dec_exp x - int n" using assms(3) Some c' by (simp_all add: shortest_def)
    moreover have "float_round (of_int c' * 10 powi (dec_exp x - int n)) = x" "c' \<in> set (around (x * 10 powi (int n - dec_exp x)))"
      using c' by (auto simp: near_def Let_def find_Some_iff)
    ultimately show ?thesis using around_near one [OF n(1)] by blast
  next
    case None
    let ?y = "x * 10 powi (17 - dec_exp x)"
    have ce: "c = round_even ?y" "e = dec_exp x - 17" using assms(3) None by (simp_all add: shortest_def around_def Let_def)
    have "c \<in> set (around ?y)" by (simp add: ce around_def Let_def)
    then have "0 < c" using around_near one [of 17] by simp
    moreover have "float_round (of_int c * 10 powi e) = x"
    proof (rule float_round_near [OF assms(1,2)])
      have x: "x = ?y * 10 powi e" by (simp add: ce(2) mult.assoc flip: power_int_add)
      have "\<bar>of_int c * 10 powi e - x\<bar> = \<bar>of_int c - ?y\<bar> * 10 powi e"
        using pow10_pos [of e] by (subst (1) x) (simp add: abs_mult_pos less_imp_le flip: left_diff_distrib)
      also have "\<dots> \<le> 1 / 2 * 10 powi e"
        using round_even_err [of ?y] by (intro mult_right_mono) (simp_all add: ce(1) less_imp_le)
      finally have "\<bar>of_int c * 10 powi e - x\<bar> * 20000000000000000 \<le> 10 powi 16 * 10 powi e" by simp
      also have "\<dots> \<le> ?y * 10 powi e"
        using scaled_ge [OF assms(1), of 17] by (intro mult_right_mono) (simp_all add: less_imp_le)
      also have "\<dots> = x" using x by simp
      finally show "\<bar>of_int c * 10 powi e - x\<bar> * 20000000000000000 \<le> x" .
    qed
    ultimately show ?thesis by simp
  qed
  then show "0 < c" "float_round (of_int c * 10 powi e) = x" by simp_all
qed

subsection \<open>Writing a float\<close>

definition zeros :: "int \<Rightarrow> string" where "zeros n = replicate (nat n) (CHR ''0'')"

text \<open>A number with the digits \<open>i\<close> before and \<open>f\<close> after its point, and an exponent.\<close>

definition exp_text :: "int option \<Rightarrow> string" where
  "exp_text e = (case e of None \<Rightarrow> [] | Some n \<Rightarrow> CHR ''e'' # (if n < 0 then CHR ''-'' else CHR ''+'') # dec (nat \<bar>n\<bar>))"

definition decimal_text :: "string \<Rightarrow> string \<Rightarrow> int option \<Rightarrow> string" where
  "decimal_text i f e = i @ (if f = [] then [] else CHR ''.'' # f) @ exp_text e"

text \<open>The formats \<open>f\<close> and \<open>e\<close> of the number \<open>0.ds * 10 powi dp\<close>; \<open>encoding/json\<close> removes the leading zero of an exponent.\<close>

definition fmt_f :: "string \<Rightarrow> int \<Rightarrow> string" where
  "fmt_f ds dp = decimal_text (if 0 < dp then take (nat dp) ds @ zeros (dp - int (length ds)) else ''0'') (zeros (- dp) @ drop (nat dp) ds) None"

definition fmt_e :: "string \<Rightarrow> int \<Rightarrow> string" where
  "fmt_e ds dp = decimal_text [hd ds] (tl ds) (Some (dp - 1))"

text \<open>\<open>floatEncoder\<close> of \<open>encoding/json\<close>.\<close>

definition FormatFloat :: "float64 \<Rightarrow> string" where
  "FormatFloat x =
     (if x = 0 then ''0''
      else case shortest \<bar>x\<bar> of (c, e) \<Rightarrow>
        let all = dec (nat c); ds = trim_zeros all; dp = int (length all) + e
        in (if x < 0 then ''-'' else []) @
           (if \<bar>x\<bar> < 1 / 1000000 \<or> 10 ^ 21 \<le> \<bar>x\<bar> then fmt_e ds dp else fmt_f ds dp))"

subsection \<open>Reading a float\<close>

definition signed_number :: "string \<Rightarrow> int" where
  "signed_number s =
     (if s \<noteq> [] \<and> hd s = CHR ''-'' then - number (tl s) else if s \<noteq> [] \<and> hd s = CHR ''+'' then number (tl s) else number s)"

text \<open>What the text of a JSON number stands for.\<close>

definition unsigned_decimal :: "string \<Rightarrow> rat" where
  "unsigned_decimal s =
     (let i = takeWhile is_digit s; r = dropWhile is_digit s;
          f = (if r \<noteq> [] \<and> hd r = CHR ''.'' then takeWhile is_digit (tl r) else []);
          r = (if r \<noteq> [] \<and> hd r = CHR ''.'' then dropWhile is_digit (tl r) else r);
          e = (if r \<noteq> [] then signed_number (tl r) else 0)
      in of_int (number (i @ f)) * 10 powi (e - int (length f)))"

definition decimal_value :: "string \<Rightarrow> rat" where
  "decimal_value s = (if s \<noteq> [] \<and> hd s = CHR ''-'' then - unsigned_decimal (tl s) else unsigned_decimal s)"

text \<open>\<open>strconv.ParseFloat\<close> of such a text, for numbers neither so large nor so small that the exponent of a float is exceeded.\<close>

definition ParseFloat :: "string \<Rightarrow> float64" where
  "ParseFloat raw = float_round (decimal_value raw)"

subsection \<open>The text of a number\<close>

definition digits :: "string \<Rightarrow> bool" where "digits s \<longleftrightarrow> list_all is_digit s"

lemma digits_simps [simp]: "digits []" "digits (c # s) \<longleftrightarrow> is_digit c \<and> digits s" "digits (s @ t) \<longleftrightarrow> digits s \<and> digits t"
  "digits (dec n)" "digits (zeros k)" "is_digit (CHR ''0'')"
  using dec_digits [of n] by (auto simp: digits_def zeros_def list_all_iff is_digit_def)

lemma digits_span:
  assumes "digits s" "r = [] \<or> \<not> is_digit (hd r)"
  shows "takeWhile is_digit (s @ r) = s" "dropWhile is_digit (s @ r) = r"
proof -
  have s: "\<forall>c\<in>set s. is_digit c" using assms(1) by (simp add: digits_def list_all_iff)
  have "takeWhile is_digit r = []" "dropWhile is_digit r = r" using assms(2) by (cases r; auto)+
  then show "takeWhile is_digit (s @ r) = s" "dropWhile is_digit (s @ r) = r" using s by (simp_all add: takeWhile_append2 dropWhile_append2)
qed

lemma lex_digits_append: "digits s \<Longrightarrow> s \<noteq> [] \<Longrightarrow> r = [] \<or> \<not> is_digit (hd r) \<Longrightarrow> lex_digits (s @ r) = Some (s, r)"
  by (simp add: lex_digits_def digits_span)

definition whole_ok :: "string \<Rightarrow> bool" where
  "whole_ok i \<longleftrightarrow> i = ''0'' \<or> i \<noteq> [] \<and> digits i \<and> hd i \<noteq> CHR ''0''"

lemma point_exp [simp]: "\<not> is_digit (CHR ''.'')" "\<not> is_digit (CHR ''e'')"
  by (simp_all add: is_digit_def)

lemma exp_text_head: "exp_text e = [] \<or> hd (exp_text e) = CHR ''e''"
  by (simp add: exp_text_def split: option.splits)

lemma lex_exp_text:
  assumes "closes r"
  shows "lex_exp (exp_text e @ r) = Some (exp_text e, r)"
proof -
  have r: "r = [] \<or> \<not> is_digit (hd r)" using assms by (auto simp: closes_def json_space_def is_digit_def)
  show ?thesis
  proof (cases e)
    case None
    then show ?thesis using assms by (cases r) (auto simp: exp_text_def lex_exp_def closes_def json_space_def)
  next
    case (Some n)
    then show ?thesis using lex_digits_append [of "dec (nat \<bar>n\<bar>)" r] r dec_digits [of "nat \<bar>n\<bar>"] by (simp add: exp_text_def lex_exp_def)
  qed
qed

lemma lex_decimal_text:
  assumes "whole_ok i" "digits f" "closes r"
  shows "lex_int (decimal_text i f e @ r) = Some (i, (if f = [] then [] else CHR ''.'' # f) @ exp_text e @ r)"
    "lex_frac ((if f = [] then [] else CHR ''.'' # f) @ exp_text e @ r) = Some (if f = [] then [] else CHR ''.'' # f, exp_text e @ r)"
proof -
  have r: "r = [] \<or> \<not> is_digit (hd r) \<and> hd r \<noteq> CHR ''.''" using assms(3) by (auto simp: closes_def json_space_def is_digit_def)
  have er: "exp_text e @ r = [] \<or> \<not> is_digit (hd (exp_text e @ r)) \<and> hd (exp_text e @ r) \<noteq> CHR ''.''"
    using r exp_text_head [of e] by (cases "exp_text e") auto
  let ?t = "(if f = [] then [] else CHR ''.'' # f) @ exp_text e @ r"
  have t: "?t = [] \<or> \<not> is_digit (hd ?t)" using er by auto
  show "lex_int (decimal_text i f e @ r) = Some (i, ?t)"
  proof (cases "i = ''0''")
    case False
    then obtain c u where i: "i = c # u" "is_digit c" "digits u" "c \<noteq> CHR ''0''" using assms(1) by (cases i) (auto simp: whole_ok_def)
    then show ?thesis using digits_span [OF i(3) t] by (simp add: decimal_text_def lex_int_def)
  qed (simp add: decimal_text_def lex_int_def)
  show "lex_frac ?t = Some (if f = [] then [] else CHR ''.'' # f, exp_text e @ r)"
    using er lex_digits_append [OF assms(2), of "exp_text e @ r"] by (cases "exp_text e @ r") (auto simp: lex_frac_def)
qed

lemma whole_ok_head: "whole_ok i \<Longrightarrow> i \<noteq> [] \<and> digits i"
  by (auto simp: whole_ok_def)

lemma lex_number_text:
  assumes "whole_ok i" "digits f" "closes r"
  shows "lex_number (decimal_text i f e @ r) = Some (decimal_text i f e, r)"
    "lex_number (CHR ''-'' # decimal_text i f e @ r) = Some (CHR ''-'' # decimal_text i f e, r)"
proof -
  have h: "decimal_text i f e \<noteq> []" "hd (decimal_text i f e @ r) \<noteq> CHR ''-''"
    using whole_ok_head [OF assms(1)] by (cases i; auto simp: decimal_text_def)+
  note lex = lex_decimal_text [OF assms, of e] lex_exp_text [OF assms(3), of e]
  show "lex_number (decimal_text i f e @ r) = Some (decimal_text i f e, r)"
    using h lex by (simp add: lex_number_def) (simp add: decimal_text_def)
  show "lex_number (CHR ''-'' # decimal_text i f e @ r) = Some (CHR ''-'' # decimal_text i f e, r)"
    using lex by (simp add: lex_number_def) (simp add: decimal_text_def)
qed

lemma unsigned_decimal_text:
  assumes "whole_ok i" "digits f"
  shows "unsigned_decimal (decimal_text i f e) = of_int (number (i @ f)) * 10 powi ((case e of None \<Rightarrow> 0 | Some n \<Rightarrow> n) - int (length f))"
proof -
  have n: "signed_number (s # dec k) = (if s = CHR ''-'' then - int k else if s = CHR ''+'' then int k else number (s # dec k))" for s k
    using dec_digits [of k] by (simp add: signed_number_def)
  have ex: "(if exp_text e \<noteq> [] then signed_number (tl (exp_text e)) else 0) = (case e of None \<Rightarrow> 0 | Some n \<Rightarrow> n)"
    by (cases e) (simp_all add: exp_text_def n)
  have i: "digits i" using whole_ok_head [OF assms(1)] by simp
  have eh: "exp_text e = [] \<or> \<not> is_digit (hd (exp_text e))" "exp_text e = [] \<or> hd (exp_text e) \<noteq> CHR ''.''"
    using exp_text_head [of e] by auto
  show ?thesis
  proof (cases "f = []")
    case True
    have "takeWhile is_digit (decimal_text i f e) = i" "dropWhile is_digit (decimal_text i f e) = exp_text e"
      using digits_span [OF i eh(1)] True by (simp_all only: decimal_text_def simp_thms if_True append_Nil)
    then show ?thesis using eh(2) True unfolding unsigned_decimal_def Let_def ex [symmetric] by auto
  next
    case False
    have "takeWhile is_digit (decimal_text i f e) = i" "dropWhile is_digit (decimal_text i f e) = CHR ''.'' # f @ exp_text e"
      using digits_span [OF i, of "CHR ''.'' # f @ exp_text e"] False by (simp_all add: decimal_text_def)
    then show ?thesis using digits_span [OF assms(2) eh(1)] unfolding unsigned_decimal_def Let_def ex [symmetric] by simp
  qed
qed

subsection \<open>What is written is read back\<close>

lemma number_append: "number (s @ t) = number s * 10 ^ length t + number t"
proof (induction t rule: rev_induct)
  case (snoc c t)
  have "number (s @ t @ [c]) = 10 * number (s @ t) + digit_value c" using number_snoc(1) [of "s @ t" c] by simp
  with snoc show ?case by (simp add: algebra_simps)
qed simp

lemma number_zeros [simp]: "number (zeros k) = 0" "length (zeros k) = nat k" "number ''0'' = 0" "number (CHR ''0'' # s) = number s"
proof -
  have z: "digit_value (CHR ''0'') = 0" by (simp add: digit_value_def)
  then show "number ''0'' = 0" "number (CHR ''0'' # s) = number s" by (simp_all add: number_def)
  have "number (replicate m (CHR ''0'')) = 0" for m by (induction m) (simp_all add: number_def z)
  then show "number (zeros k) = 0" by (simp add: zeros_def)
qed (simp add: zeros_def)

definition leading_ok :: "string \<Rightarrow> bool" where
  "leading_ok ds \<longleftrightarrow> ds \<noteq> [] \<and> digits ds \<and> hd ds \<noteq> CHR ''0''"

lemma powi_of_nat: "0 \<le> k \<Longrightarrow> (10 :: rat) ^ nat k = 10 powi k"
  by (simp add: power_int_def)

text \<open>Both formats are a number that JSON accepts, with the value \<open>0.ds * 10 powi dp\<close>.\<close>

lemma fmt_f_parts:
  assumes "leading_ok ds"
  shows "\<exists>i f. fmt_f ds dp = decimal_text i f None \<and> whole_ok i \<and> digits f \<and>
    of_int (number (i @ f)) * 10 powi (- int (length f)) = (of_int (number ds) * 10 powi (dp - int (length ds)) :: rat)"
proof -
  have d: "digits (take k ds)" "digits (drop k ds)" for k
    using assms by (auto simp: leading_ok_def digits_def list_all_iff dest: in_set_takeD in_set_dropD)
  show ?thesis
  proof (cases "0 < dp")
    case False
    then have "of_int (number (''0'' @ zeros (- dp) @ ds)) * 10 powi (- int (length (zeros (- dp) @ ds))) =
        (of_int (number ds) * 10 powi (dp - int (length ds)) :: rat)"
      by (simp add: number_append)
    moreover have "fmt_f ds dp = decimal_text ''0'' (zeros (- dp) @ ds) None" using False by (simp add: fmt_f_def)
    moreover have "digits (zeros (- dp) @ ds)" "whole_ok ''0''" using assms by (simp_all add: leading_ok_def whole_ok_def)
    ultimately show ?thesis by blast
  next
    case pos: True
    let ?i = "take (nat dp) ds @ zeros (dp - int (length ds))" and ?f = "drop (nat dp) ds"
    have "fmt_f ds dp = decimal_text ?i ?f None" using pos by (simp add: fmt_f_def zeros_def)
    moreover have "hd ?i = hd ds" "?i \<noteq> []" using assms pos by (cases ds; cases "nat dp"; simp add: leading_ok_def)+
    then have "whole_ok ?i" using assms d(1) by (simp add: whole_ok_def leading_ok_def)
    moreover have "of_int (number (?i @ ?f)) * 10 powi (- int (length ?f)) = (of_int (number ds) * 10 powi (dp - int (length ds)) :: rat)"
    proof (cases "int (length ds) \<le> dp")
      case True
      then have "take (nat dp) ds = ds" "?f = []" by simp_all
      then show ?thesis using True by (simp add: number_append powi_of_nat)
    next
      case False
      then have "zeros (dp - int (length ds)) = []" "int (length ?f) = int (length ds) - dp" using pos by (simp_all add: zeros_def of_nat_diff)
      then show ?thesis by simp
    qed
    ultimately show ?thesis using d by blast
  qed
qed

lemma fmt_e_parts:
  assumes "leading_ok ds"
  shows "fmt_e ds dp = decimal_text [hd ds] (tl ds) (Some (dp - 1)) \<and> whole_ok [hd ds] \<and> digits (tl ds) \<and>
    of_int (number ([hd ds] @ tl ds)) * 10 powi (dp - 1 - int (length (tl ds))) = (of_int (number ds) * 10 powi (dp - int (length ds)) :: rat)"
  using assms by (cases ds) (simp_all add: fmt_e_def whole_ok_def leading_ok_def algebra_simps)

lemma decimal_ok:
  assumes "whole_ok i" "digits f"
  shows "num_ok (decimal_text i f e)" "num_ok (CHR ''-'' # decimal_text i f e)"
    "decimal_value (decimal_text i f e) = unsigned_decimal (decimal_text i f e)"
    "decimal_value (CHR ''-'' # decimal_text i f e) = - unsigned_decimal (decimal_text i f e)"
proof -
  have h: "decimal_text i f e \<noteq> []" "is_digit (hd (decimal_text i f e))"
    using whole_ok_head [OF assms(1)] by (cases i; auto simp: decimal_text_def)+
  then have "hd (decimal_text i f e) \<noteq> CHR ''-''" by auto
  with h lex_number_text [OF assms]
  show "num_ok (decimal_text i f e)" "num_ok (CHR ''-'' # decimal_text i f e)"
    "decimal_value (decimal_text i f e) = unsigned_decimal (decimal_text i f e)"
    "decimal_value (CHR ''-'' # decimal_text i f e) = - unsigned_decimal (decimal_text i f e)"
    by (simp_all add: num_ok_def decimal_value_def)
qed

lemma trimmed_digits:
  assumes "0 < n"
  shows "leading_ok (trim_zeros (dec n))"
    "of_int (number (trim_zeros (dec n))) * 10 powi (int (length (dec n)) - int (length (trim_zeros (dec n)))) = (of_nat n :: rat)"
proof -
  let ?t = "trim_zeros (dec n)" and ?k = "length (dec n) - length (trim_zeros (dec n))"
  have p: "?t @ replicate ?k (CHR ''0'') = dec n" by (rule trim_zeros_pad) simp
  then have num: "number ?t * 10 ^ ?k = int n"
    using dec_digits [of n] number_append [of ?t "replicate ?k (CHR ''0'')"] number_zeros(1) [of "int ?k"] by (simp add: zeros_def)
  then have ne: "?t \<noteq> []" using assms by auto
  have "hd ?t = hd (dec n)" using p ne by (metis hd_append2)
  then show "leading_ok ?t" using ne dec_head [OF assms] dec_digits [of n] trim_zeros_digits [of "dec n"] by (simp add: leading_ok_def digits_def)
  have "length ?t \<le> length (dec n)" using arg_cong [OF p, of length] by simp
  then have "(10 :: rat) powi (int (length (dec n)) - int (length ?t)) = 10 ^ ?k" by (simp add: power_int_def nat_diff_distrib)
  then show "of_int (number ?t) * 10 powi (int (length (dec n)) - int (length ?t)) = (of_nat n :: rat)"
    using arg_cong [OF num, of "of_int :: int \<Rightarrow> rat"] by simp
qed

text \<open>A float is written as a JSON number from which the same float is read.\<close>

lemma FormatFloat_read:
  assumes "float_round x = x"
  shows "num_ok (FormatFloat x) \<and> ParseFloat (FormatFloat x) = x"
proof (cases "x = 0")
  case True
  have w: "whole_ok ''0''" "digits []" by (simp_all add: whole_ok_def)
  have t: "decimal_text ''0'' [] None = ''0''" by (simp add: decimal_text_def exp_text_def)
  show ?thesis using decimal_ok(1,3) [OF w, of None] unsigned_decimal_text [OF w, of None] True
    unfolding t by (simp add: FormatFloat_def ParseFloat_def)
next
  case False
  obtain c e where ce: "shortest \<bar>x\<bar> = (c, e)" by (cases "shortest \<bar>x\<bar>")
  have a: "0 < \<bar>x\<bar>" "float_round \<bar>x\<bar> = \<bar>x\<bar>" using assms False by (auto simp: float_round_def abs_if split: if_splits)
  note sh = shortest_rounds [OF a ce]
  let ?ds = "trim_zeros (dec (nat c))" and ?dp = "int (length (dec (nat c))) + e"
  have lead: "leading_ok ?ds" by (rule trimmed_digits) (use sh(1) in simp)
  have "of_int (number ?ds) * 10 powi (?dp - int (length ?ds)) =
      of_int (number ?ds) * 10 powi (int (length (dec (nat c))) - int (length ?ds)) * (10 :: rat) powi e"
    by (simp add: mult.assoc algebra_simps flip: power_int_add)
  also have "\<dots> = of_int c * 10 powi e" using trimmed_digits(2) [of "nat c"] sh(1) by simp
  finally have v: "of_int (number ?ds) * 10 powi (?dp - int (length ?ds)) = (of_int c * 10 powi e :: rat)" .
  let ?t = "if \<bar>x\<bar> < 1 / 1000000 \<or> 10 ^ 21 \<le> \<bar>x\<bar> then fmt_e ?ds ?dp else fmt_f ?ds ?dp"
  obtain i f eo where t: "?t = decimal_text i f eo" "whole_ok i" "digits f" and u: "unsigned_decimal (decimal_text i f eo) = of_int c * 10 powi e"
  proof (cases "\<bar>x\<bar> < 1 / 1000000 \<or> 10 ^ 21 \<le> \<bar>x\<bar>")
    case True
    with fmt_e_parts [OF lead, of ?dp] show thesis
      by (intro that [of "[hd ?ds]" "tl ?ds" "Some (?dp - 1)"]) (simp_all add: unsigned_decimal_text v)
  next
    case False
    with fmt_f_parts [OF lead, of ?dp] obtain i f where "?t = decimal_text i f None" "whole_ok i" "digits f"
      "of_int (number (i @ f)) * 10 powi (- int (length f)) = (of_int c * 10 powi e :: rat)"
      by (auto simp: v)
    then show thesis by (intro that [of i f None]) (simp_all add: unsigned_decimal_text)
  qed
  have "FormatFloat x = (if x < 0 then ''-'' else []) @ ?t" using False by (simp add: FormatFloat_def ce Let_def)
  then have fx: "FormatFloat x = (if x < 0 then ''-'' else []) @ decimal_text i f eo" by (simp only: t(1))
  have r: "float_round (- (of_int c * 10 powi e)) = - \<bar>x\<bar>" "float_round (of_int c * 10 powi e) = \<bar>x\<bar>"
    using sh(2) float_round_pos [of "of_int c * 10 powi e"] sh(1) by (simp_all add: float_round_def zero_less_mult_iff)
  show ?thesis using decimal_ok [OF t(2,3), of eo] r unfolding fx ParseFloat_def by (simp add: u)
qed

end
