(* ===== verification/Availability_API.thy ===== *)
theory Availability_API
  imports Go_HTTP Go_Float_Text Avail_Query Live_Sinks
begin

section \<open>Availability as JSON\<close>

text \<open>
  The documents that carry an availability: the response of the query endpoint
  (\<open>query/application/dto.go\<close>) and the snapshot that the websocket sink broadcasts
  (\<open>availability/domain/snapshot.go\<close>). \<open>Time.MarshalJSON\<close> fails for times that RFC 3339 cannot write;
  the availability is written as the shortest decimal that is read as the same float; flags that
  are false are omitted. What is written decodes to the value, bit by bit.
\<close>

subsection \<open>Booleans, floats and times\<close>

definition JFloat :: "float64 \<Rightarrow> json" where "JFloat x = JNum (FormatFloat x)"

definition MarshalTime :: "gotime \<Rightarrow> json option" where
  "MarshalTime t = (if four_digit_year t \<and> \<bar>tm_off t\<bar> div 3600 < 24 then Some (JTime t) else None)"

definition dec_bool :: "json \<Rightarrow> bool \<Rightarrow> bool option" where
  "dec_bool j old = (case j of JNull \<Rightarrow> Some old | JBool b \<Rightarrow> Some b | _ \<Rightarrow> None)"

definition dec_float :: "json \<Rightarrow> float64 \<Rightarrow> float64 option" where
  "dec_float j old = (case j of JNull \<Rightarrow> Some old | JNum raw \<Rightarrow> Some (ParseFloat raw) | _ \<Rightarrow> None)"

lemma JFloat_facts [simp]: "float_round x = x \<Longrightarrow> json_ok (JFloat x)" "depth (JFloat x) = 0" "float_round x = x \<Longrightarrow> dec_float (JFloat x) old = Some x"
  using FormatFloat_read [of x] by (simp_all add: JFloat_def dec_float_def)

lemma dec_bool_JBool [simp]: "dec_bool (JBool b) old = Some b"
  by (simp add: dec_bool_def)

lemma MarshalTime_Some: "\<bar>tm_off t\<bar> < 86400 \<Longrightarrow> four_digit_year t \<Longrightarrow> MarshalTime t = Some (JTime t)"
  by (simp add: MarshalTime_def div_less_iff_less_mult)

lemma MarshalTime_None: "\<not> \<bar>tm_off t\<bar> < 86400 \<Longrightarrow> MarshalTime t = None"
  using zdiv_mono1 [of 86400 "\<bar>tm_off t\<bar>" 3600] by (auto simp: MarshalTime_def)

text \<open>A member of an object with the option \<open>omitempty\<close>.\<close>

definition omitempty :: "string \<Rightarrow> bool \<Rightarrow> (string \<times> json) list" where
  "omitempty name b = (if b then [(name, JBool b)] else [])"

subsection \<open>The response of the query (dto.go)\<close>

definition flags_doc :: "OutputFlags \<Rightarrow> json" where
  "flags_doc f =
     JObj (omitempty ''shift_config_missing'' (fl_ShiftConfigMissing f) @ omitempty ''open_interval_clipped'' (fl_OpenIntervalClipped f) @
       omitempty ''no_data'' (fl_NoData f))"

definition output_doc :: "Output \<Rightarrow> json option" where
  "output_doc out =
     do { from \<leftarrow> MarshalTime (ou_WindowFrom out); to \<leftarrow> MarshalTime (ou_WindowTo out);
          Some (JObj [(''machine_id'', JText (ou_MachineID out)), (''window_from'', from), (''window_to'', to),
            (''availability'', JFloat (ou_Availability out)), (''planned_time_ns'', JInt (ou_PlannedTime out)), (''run_time_ns'', JInt (ou_RunTime out)),
            (''planned_downtime_ns'', JInt (ou_PlannedDowntime out)), (''unplanned_downtime_ns'', JInt (ou_UnplannedDowntime out)),
            (''interval_count'', JInt (ou_IntervalCount out)), (''has_data'', JBool (ou_HasData out)), (''flags'', flags_doc (ou_Flags out))]) }"

definition flags_fields :: "OutputFlags field_table" where
  "flags_fields =
     [(''shift_config_missing'', field fl_ShiftConfigMissing fl_ShiftConfigMissing_update dec_bool),
      (''open_interval_clipped'', field fl_OpenIntervalClipped fl_OpenIntervalClipped_update dec_bool),
      (''no_data'', field fl_NoData fl_NoData_update dec_bool)]"

definition output_fields :: "Output field_table" where
  "output_fields =
     [(''machine_id'', field ou_MachineID ou_MachineID_update dec_string),
      (''window_from'', field ou_WindowFrom ou_WindowFrom_update dec_time),
      (''window_to'', field ou_WindowTo ou_WindowTo_update dec_time),
      (''availability'', field ou_Availability ou_Availability_update dec_float),
      (''planned_time_ns'', field ou_PlannedTime ou_PlannedTime_update dec_int),
      (''run_time_ns'', field ou_RunTime ou_RunTime_update dec_int),
      (''planned_downtime_ns'', field ou_PlannedDowntime ou_PlannedDowntime_update dec_int),
      (''unplanned_downtime_ns'', field ou_UnplannedDowntime ou_UnplannedDowntime_update dec_int),
      (''interval_count'', field ou_IntervalCount ou_IntervalCount_update dec_int),
      (''has_data'', field ou_HasData ou_HasData_update dec_bool),
      (''flags'', field ou_Flags ou_Flags_update (dec_struct flags_fields))]"

definition zero_output :: Output where
  "zero_output = \<lparr>ou_MachineID = [], ou_WindowFrom = \<lparr>tm_ns = 0, tm_off = 0\<rparr>, ou_WindowTo = \<lparr>tm_ns = 0, tm_off = 0\<rparr>, ou_Availability = 0,
     ou_PlannedTime = 0, ou_RunTime = 0, ou_PlannedDowntime = 0, ou_UnplannedDowntime = 0, ou_IntervalCount = 0, ou_HasData = False,
     ou_Flags = \<lparr>fl_ShiftConfigMissing = False, fl_OpenIntervalClipped = False, fl_NoData = False\<rparr>\<rparr>"

subsection \<open>The snapshot (snapshot.go)\<close>

definition snapshot_flags_doc :: "SnapshotFlags \<Rightarrow> json" where
  "snapshot_flags_doc f =
     JObj (omitempty ''shift_config_missing'' (sf_ShiftConfigMissing f) @ omitempty ''open_interval_clipped'' (sf_OpenIntervalClipped f) @
       omitempty ''no_data'' (sf_NoData f))"

definition snapshot_doc :: "AvailabilitySnapshot \<Rightarrow> json option" where
  "snapshot_doc s =
     do { from \<leftarrow> MarshalTime (sn_WindowFrom s); to \<leftarrow> MarshalTime (sn_WindowTo s); computed \<leftarrow> MarshalTime (sn_ComputedAt s);
          Some (JObj [(''machine_id'', JText (sn_MachineID s)), (''window_from'', from), (''window_to'', to),
            (''availability'', JFloat (sn_Availability s)), (''planned_time_ns'', JInt (sn_PlannedTime s)), (''run_time_ns'', JInt (sn_RunTime s)),
            (''planned_downtime_ns'', JInt (sn_PlannedDowntime s)), (''unplanned_downtime_ns'', JInt (sn_UnplannedDowntime s)),
            (''interval_count'', JInt (sn_IntervalCount s)), (''has_data'', JBool (sn_HasData s)), (''computed_at'', computed),
            (''flags'', snapshot_flags_doc (sn_Flags s))]) }"

definition snapshot_flags_fields :: "SnapshotFlags field_table" where
  "snapshot_flags_fields =
     [(''shift_config_missing'', field sf_ShiftConfigMissing sf_ShiftConfigMissing_update dec_bool),
      (''open_interval_clipped'', field sf_OpenIntervalClipped sf_OpenIntervalClipped_update dec_bool),
      (''no_data'', field sf_NoData sf_NoData_update dec_bool)]"

definition snapshot_fields :: "AvailabilitySnapshot field_table" where
  "snapshot_fields =
     [(''machine_id'', field sn_MachineID sn_MachineID_update dec_string),
      (''window_from'', field sn_WindowFrom sn_WindowFrom_update dec_time),
      (''window_to'', field sn_WindowTo sn_WindowTo_update dec_time),
      (''availability'', field sn_Availability sn_Availability_update dec_float),
      (''planned_time_ns'', field sn_PlannedTime sn_PlannedTime_update dec_int),
      (''run_time_ns'', field sn_RunTime sn_RunTime_update dec_int),
      (''planned_downtime_ns'', field sn_PlannedDowntime sn_PlannedDowntime_update dec_int),
      (''unplanned_downtime_ns'', field sn_UnplannedDowntime sn_UnplannedDowntime_update dec_int),
      (''interval_count'', field sn_IntervalCount sn_IntervalCount_update dec_int),
      (''has_data'', field sn_HasData sn_HasData_update dec_bool),
      (''computed_at'', field sn_ComputedAt sn_ComputedAt_update dec_time),
      (''flags'', field sn_Flags sn_Flags_update (dec_struct snapshot_flags_fields))]"

definition zero_snapshot :: AvailabilitySnapshot where
  "zero_snapshot = \<lparr>sn_MachineID = [], sn_WindowFrom = \<lparr>tm_ns = 0, tm_off = 0\<rparr>, sn_WindowTo = \<lparr>tm_ns = 0, tm_off = 0\<rparr>, sn_Availability = 0,
     sn_PlannedTime = 0, sn_RunTime = 0, sn_PlannedDowntime = 0, sn_UnplannedDowntime = 0, sn_IntervalCount = 0, sn_HasData = False,
     sn_ComputedAt = \<lparr>tm_ns = 0, tm_off = 0\<rparr>, sn_Flags = \<lparr>sf_ShiftConfigMissing = False, sf_OpenIntervalClipped = False, sf_NoData = False\<rparr>\<rparr>"

text \<open>What the websocket sink marshals; \<open>errtext\<close> is the text of the error.\<close>

definition marshal_snapshot :: "(AvailabilitySnapshot \<Rightarrow> string) \<Rightarrow> AvailabilitySnapshot \<Rightarrow> string + bytes" where
  "marshal_snapshot errtext s =
     (case snapshot_doc s of None \<Rightarrow> Inl (errtext s) | Some j \<Rightarrow> Inr (bytes_of_string (json_text j)))"

subsection \<open>They are decoded to what they say\<close>

lemma availability_names [simp]:
  "raw_ok ''machine_id''" "raw_ok ''window_from''" "raw_ok ''window_to''" "raw_ok ''availability''" "raw_ok ''planned_time_ns''"
  "raw_ok ''run_time_ns''" "raw_ok ''planned_downtime_ns''" "raw_ok ''unplanned_downtime_ns''" "raw_ok ''interval_count''"
  "raw_ok ''has_data''" "raw_ok ''computed_at''" "raw_ok ''flags''" "raw_ok ''shift_config_missing''" "raw_ok ''open_interval_clipped''" "raw_ok ''no_data''"
  by (simp_all add: raw_ok_plain quote_char_def backslash_def)

lemma unquote_availability_names [simp]:
  "unquote ''machine_id'' = Some ''machine_id''" "unquote ''window_from'' = Some ''window_from''" "unquote ''window_to'' = Some ''window_to''"
  "unquote ''availability'' = Some ''availability''" "unquote ''planned_time_ns'' = Some ''planned_time_ns''" "unquote ''run_time_ns'' = Some ''run_time_ns''"
  "unquote ''planned_downtime_ns'' = Some ''planned_downtime_ns''" "unquote ''unplanned_downtime_ns'' = Some ''unplanned_downtime_ns''"
  "unquote ''interval_count'' = Some ''interval_count''" "unquote ''has_data'' = Some ''has_data''" "unquote ''computed_at'' = Some ''computed_at''"
  "unquote ''flags'' = Some ''flags''" "unquote ''shift_config_missing'' = Some ''shift_config_missing''"
  "unquote ''open_interval_clipped'' = Some ''open_interval_clipped''" "unquote ''no_data'' = Some ''no_data''"
  by (rule unquote_plain, simp add: quote_char_def backslash_def)+

definition clock_ok :: "gotime \<Rightarrow> bool" where
  "clock_ok t \<longleftrightarrow> four_digit_year t \<and> tm_off t mod 60 = 0 \<and> \<bar>tm_off t\<bar> < 86400"

lemma clock_ok_facts: "clock_ok t \<Longrightarrow> MarshalTime t = Some (JTime t) \<and> formattable t"
  by (auto simp: clock_ok_def formattable_def intro: MarshalTime_Some)

definition output_ok :: "Output \<Rightarrow> bool" where
  "output_ok out \<longleftrightarrow> valid_utf8 (ou_MachineID out) \<and> float_round (ou_Availability out) = ou_Availability out \<and>
     list_all fits64 [ou_PlannedTime out, ou_RunTime out, ou_PlannedDowntime out, ou_UnplannedDowntime out, ou_IntervalCount out]"

definition snapshot_ok :: "AvailabilitySnapshot \<Rightarrow> bool" where
  "snapshot_ok s \<longleftrightarrow> valid_utf8 (sn_MachineID s) \<and> float_round (sn_Availability s) = sn_Availability s \<and>
     list_all fits64 [sn_PlannedTime s, sn_RunTime s, sn_PlannedDowntime s, sn_UnplannedDowntime s, sn_IntervalCount s]"

lemma flags_read: "dec_struct flags_fields (flags_doc f) (ou_Flags zero_output) = Some f" "json_ok (flags_doc f)" "depth (flags_doc f) \<le> 1"
  by (cases f; simp add: dec_struct_def flags_fields_def flags_doc_def omitempty_def find_field_def field_def zero_output_def)+

lemma snapshot_flags_read: "dec_struct snapshot_flags_fields (snapshot_flags_doc f) (sn_Flags zero_snapshot) = Some f"
  "json_ok (snapshot_flags_doc f)" "depth (snapshot_flags_doc f) \<le> 1"
  by (cases f; simp add: dec_struct_def snapshot_flags_fields_def snapshot_flags_doc_def omitempty_def find_field_def field_def zero_snapshot_def)+

lemma dec_struct_JObj: "dec_struct fs (JObj ms) old = dec_members fs ms old"
  by (simp add: dec_struct_def)

lemma output_read:
  assumes "output_ok out" "clock_ok (ou_WindowFrom out)" "clock_ok (ou_WindowTo out)"
  shows "\<exists>j. output_doc out = Some j \<and> json_ok j \<and> depth j \<le> 2 \<and> dec_struct output_fields j zero_output = Some out"
proof -
  note times = clock_ok_facts [OF assms(2)] clock_ok_facts [OF assms(3)]
  have f: "dec_struct flags_fields (flags_doc (ou_Flags out)) \<lparr>fl_ShiftConfigMissing = False, fl_OpenIntervalClipped = False, fl_NoData = False\<rparr> = Some (ou_Flags out)"
    using flags_read(1) [of "ou_Flags out"] by (simp add: zero_output_def)
  obtain j where j: "output_doc out = Some j" by (simp add: output_doc_def times)
  then have "json_ok j" "depth j \<le> 2"
    using assms(1) flags_read(2,3) [of "ou_Flags out"] by (auto simp: output_doc_def times output_ok_def)
  moreover have "dec_struct output_fields j zero_output = Some out"
    using j assms(1) times f
    by (cases out) (auto simp: output_doc_def dec_struct_JObj output_fields_def find_field_def field_def zero_output_def output_ok_def utf8_clean_valid)
  ultimately show ?thesis using j by blast
qed

lemma snapshot_read:
  assumes "snapshot_ok s" "clock_ok (sn_WindowFrom s)" "clock_ok (sn_WindowTo s)" "clock_ok (sn_ComputedAt s)"
  shows "\<exists>j. snapshot_doc s = Some j \<and> json_ok j \<and> depth j \<le> 2 \<and> dec_struct snapshot_fields j zero_snapshot = Some s"
proof -
  note times = clock_ok_facts [OF assms(2)] clock_ok_facts [OF assms(3)] clock_ok_facts [OF assms(4)]
  have f: "dec_struct snapshot_flags_fields (snapshot_flags_doc (sn_Flags s)) \<lparr>sf_ShiftConfigMissing = False, sf_OpenIntervalClipped = False, sf_NoData = False\<rparr> =
      Some (sn_Flags s)"
    using snapshot_flags_read(1) [of "sn_Flags s"] by (simp add: zero_snapshot_def)
  obtain j where j: "snapshot_doc s = Some j" by (simp add: snapshot_doc_def times)
  then have "json_ok j" "depth j \<le> 2"
    using assms(1) snapshot_flags_read(2,3) [of "sn_Flags s"] by (auto simp: snapshot_doc_def times snapshot_ok_def)
  moreover have "dec_struct snapshot_fields j zero_snapshot = Some s"
    using j assms(1) times f
    by (cases s) (auto simp: snapshot_doc_def dec_struct_JObj snapshot_fields_def find_field_def field_def zero_snapshot_def snapshot_ok_def utf8_clean_valid)
  ultimately show ?thesis using j by blast
qed

subsection \<open>Claims\<close>

lemma Availability_float: "float_round (rs_Availability (Availability i)) = rs_Availability (Availability i)"
  by (simp add: Availability_def Let_def float64_div_def)

lemma Execute_output:
  assumes "Execute byMachineRange shifts machine w = Some (Inr out)"
  shows "ou_MachineID out = machine \<and> ou_WindowFrom out = w_From w \<and> ou_WindowTo out = w_To w \<and>
    float_round (ou_Availability out) = ou_Availability out"
  using assms by (auto simp: Execute_def Let_def Availability_float split: sum.splits option.splits)

lemma getAvailability_OK:
  assumes "getAvailability (Execute byMachineRange shifts) machine fromStr toStr = Some (HTTP_OK out)"
  shows "ParseRFC3339 fromStr = Some (ou_WindowFrom out)" "ParseRFC3339 toStr = Some (ou_WindowTo out)"
    "ou_MachineID out = machine" "float_round (ou_Availability out) = ou_Availability out"
  using assms by (auto simp: getAvailability_def split: if_splits option.splits sum.splits dest!: Execute_output)

definition availability_reply :: "Output http_response \<Rightarrow> http_reply" where
  "availability_reply resp = write_response output_doc resp"

text \<open>
  C15. The response of the availability endpoint, with status 200, decodes to what the use case computed,
  the float of the availability bit by bit, when both times of the request have a zone below 24 hours.
  Otherwise, although the request was accepted, the response has status 200 and is empty.
\<close>

theorem availability_response:
  assumes "getAvailability (Execute byMachineRange shifts) machine fromStr toStr = Some (HTTP_OK out)" "valid_utf8 machine"
    "list_all fits64 [ou_PlannedTime out, ou_RunTime out, ou_PlannedDowntime out, ou_UnplannedDowntime out, ou_IntervalCount out]"
  shows "rp_Status (availability_reply (HTTP_OK out)) = 200 \<and>
    (if \<bar>tm_off (ou_WindowFrom out)\<bar> < 86400 \<and> \<bar>tm_off (ou_WindowTo out)\<bar> < 86400
     then Unmarshal (dec_struct output_fields) zero_output (rp_Body (availability_reply (HTTP_OK out))) = Some out
     else rp_Body (availability_reply (HTTP_OK out)) = [])"
proof -
  note g = getAvailability_OK [OF assms(1)]
  have ok: "output_ok out" using g assms(2,3) by (simp add: output_ok_def)
  note y = ParseRFC3339_year [OF g(1)] ParseRFC3339_year [OF g(2)]
  show ?thesis
  proof (cases "\<bar>tm_off (ou_WindowFrom out)\<bar> < 86400 \<and> \<bar>tm_off (ou_WindowTo out)\<bar> < 86400")
    case True
    then have "clock_ok (ou_WindowFrom out)" "clock_ok (ou_WindowTo out)" using y by (simp_all add: clock_ok_def)
    then obtain j where j: "output_doc out = Some j" "json_ok j" "depth j \<le> 2" "dec_struct output_fields j zero_output = Some out"
      using output_read [OF ok] by blast
    then have "json_parse (json_text j @ newline) = Some j" by (intro json_parse_text_space) (simp_all add: maxNestingDepth_def)
    then have "Unmarshal (dec_struct output_fields) zero_output (rp_Body (Encode j)) = Some out" using j(4) by (simp add: Unmarshal_def Encode_def)
    moreover have "availability_reply (HTTP_OK out) = Encode j" "rp_Status (Encode j) = 200"
      by (simp_all add: availability_reply_def write_response_def j(1) Encode_def)
    ultimately show ?thesis by (simp only: True simp_thms if_True)
  next
    case False
    then have "MarshalTime (ou_WindowFrom out) = None \<or> MarshalTime (ou_WindowTo out) = None"
      using MarshalTime_None [of "ou_WindowFrom out"] MarshalTime_None [of "ou_WindowTo out"] by metis
    then have "output_doc out = None" by (cases "MarshalTime (ou_WindowFrom out)") (auto simp: output_doc_def)
    then show ?thesis by (simp only: False if_False availability_reply_def write_response_def http_response.case option.case) simp
  qed
qed

definition full_day :: "string \<Rightarrow> gotime \<Rightarrow> gotime \<Rightarrow> range_error + StateInterval list" where
  "full_day m from until = Inr [\<lparr>iv_MachineID = m, iv_State = Running, iv_StartedAt = from, iv_EndedAt = None, iv_Reason = []\<rparr>]"

definition full_shift :: "unit shift_reader" where
  "full_shift m w = Some (Inr (time_sub (w_To w) (w_From w), True))"

definition demo_output :: "gotime \<Rightarrow> gotime \<Rightarrow> Output" where
  "demo_output from until =
     \<lparr>ou_MachineID = ''m1'', ou_WindowFrom = from, ou_WindowTo = until, ou_Availability = 1, ou_PlannedTime = 480 * minute,
      ou_RunTime = 480 * minute, ou_PlannedDowntime = 0, ou_UnplannedDowntime = 0, ou_IntervalCount = 1, ou_HasData = True,
      ou_Flags = \<lparr>fl_ShiftConfigMissing = False, fl_OpenIntervalClipped = True, fl_NoData = False\<rparr>\<rparr>"

theorem availability_response_witness:
  "Unmarshal (dec_struct output_fields) zero_output
     (rp_Body (availability_reply (HTTP_OK (demo_output (utc_day 2026 6 1) (time_add (utc_day 2026 6 1) (480 * minute)))))) =
     Some (demo_output (utc_day 2026 6 1) (time_add (utc_day 2026 6 1) (480 * minute))) \<and>
   (\<exists>out. getAvailability (Execute full_day full_shift) ''m1'' ''2026-06-01T00:00:00+24:00'' ''2026-06-01T08:00:00+24:00'' = Some (HTTP_OK out) \<and>
      rp_Status (availability_reply (HTTP_OK out)) = 200 \<and> rp_Body (availability_reply (HTTP_OK out)) = [])"
proof -
  let ?t = "time_add (utc_day 2026 6 1) (480 * minute)" and ?z = "\<lambda>t. \<lparr>tm_ns = tm_ns t - 86400 * second, tm_off = 86400\<rparr>"
  have p: "ParseRFC3339 ''2026-06-01T00:00:00Z'' = Some (utc_day 2026 6 1)" "ParseRFC3339 ''2026-06-01T08:00:00Z'' = Some ?t"
    "ParseRFC3339 ''2026-06-01T00:00:00+24:00'' = Some (?z (utc_day 2026 6 1))" "ParseRFC3339 ''2026-06-01T08:00:00+24:00'' = Some (?z ?t)"
    by code_simp+
  have b: "Before (utc_day 2026 6 1) ?t" "Before (?z (utc_day 2026 6 1)) (?z ?t)"
    "Execute full_day full_shift ''m1'' \<lparr>w_From = utc_day 2026 6 1, w_To = ?t\<rparr> = Some (Inr (demo_output (utc_day 2026 6 1) ?t))"
    "Execute full_day full_shift ''m1'' \<lparr>w_From = ?z (utc_day 2026 6 1), w_To = ?z ?t\<rparr> = Some (Inr (demo_output (?z (utc_day 2026 6 1)) (?z ?t)))"
    by code_simp+
  have g: "getAvailability (Execute full_day full_shift) ''m1'' ''2026-06-01T00:00:00Z'' ''2026-06-01T08:00:00Z'' = Some (HTTP_OK (demo_output (utc_day 2026 6 1) ?t))"
    "getAvailability (Execute full_day full_shift) ''m1'' ''2026-06-01T00:00:00+24:00'' ''2026-06-01T08:00:00+24:00'' =
      Some (HTTP_OK (demo_output (?z (utc_day 2026 6 1)) (?z ?t)))"
    by (simp_all only: getAvailability_def p b option.case sum.case list.distinct simp_thms if_True if_False not_True_eq_False)
  have o: "valid_utf8 ''m1''" "tm_off (utc_day 2026 6 1) = 0" "tm_off ?t = 0" "fits64 (480 * minute)" "fits64 0" "fits64 1"
    by (simp_all add: valid_utf8_ascii ascii_def utc_day_def time_add_def minute_def second_def fits64_def)
  show ?thesis
    using availability_response [OF g(1) o(1)] availability_response [OF g(2) o(1)] g(2) o(2-) by (simp add: demo_output_def)
qed

text \<open>
  Whatever connections come and go, a snapshot of the live engine is sent to every connection of its
  machine as a text that decodes to the snapshot, the float of the availability bit by bit.
\<close>

theorem snapshots_reach_sockets:
  assumes "snap = snapshot_of machine now data planned" "valid_utf8 machine" "clock_ok now" "clock_ok (md_windowStart data)"
    "list_all fits64 [sn_PlannedTime snap, sn_RunTime snap, sn_PlannedDowntime snap, sn_UnplannedDowntime snap, sn_IntervalCount snap]"
  shows "\<exists>h' payload. WebsocketSink_Update (marshal_snapshot errtext) write_fails others h snap = (None, h', map (\<lambda>c. (c, payload)) (hb_conns h machine)) \<and>
    Unmarshal (dec_struct snapshot_fields) zero_snapshot (string_of_bytes payload) = Some snap"
proof -
  have f: "sn_MachineID snap = machine" "sn_WindowFrom snap = md_windowStart data" "sn_WindowTo snap = now" "sn_ComputedAt snap = now"
    "float_round (sn_Availability snap) = sn_Availability snap"
    by (simp_all add: assms(1) snapshot_of_def Let_def Availability_float)
  then have "snapshot_ok snap" using assms(2,5) by (simp add: snapshot_ok_def)
  then obtain j where j: "snapshot_doc snap = Some j" "json_ok j" "depth j \<le> 2" "dec_struct snapshot_fields j zero_snapshot = Some snap"
    using snapshot_read [of snap] f assms(3,4) by auto
  then have "json_parse (json_text j) = Some j" by (intro json_parse_text) (simp_all add: maxNestingDepth_def)
  then have "Unmarshal (dec_struct snapshot_fields) zero_snapshot (string_of_bytes (bytes_of_string (json_text j))) = Some snap"
    using j(4) by (simp add: Unmarshal_def)
  moreover have "WebsocketSink_Update (marshal_snapshot errtext) write_fails others h snap =
      (None, fst (Broadcast write_fails others h machine (bytes_of_string (json_text j))), map (\<lambda>c. (c, bytes_of_string (json_text j))) (hb_conns h machine))"
    using j(1) f(1) by (simp add: WebsocketSink_Update_def marshal_snapshot_def Broadcast_def Let_def)
  ultimately show ?thesis by blast
qed

theorem snapshots_reach_sockets_witness:
  "\<exists>h' payload. WebsocketSink_Update (marshal_snapshot (\<lambda>s. [])) (\<lambda>c. c = 1) id (Register NewHub ''m1'' 1)
      (snapshot_of ''m1'' (utc_day 2026 6 5) demo_data (1440 * minute)) = (None, h', [(1, payload)]) \<and>
    Unmarshal (dec_struct snapshot_fields) zero_snapshot (string_of_bytes payload) = Some (snapshot_of ''m1'' (utc_day 2026 6 5) demo_data (1440 * minute))"
proof -
  let ?s = "snapshot_of ''m1'' (utc_day 2026 6 5) demo_data (1440 * minute)"
  have u: "valid_utf8 ''m1''" by (simp add: valid_utf8_ascii ascii_def)
  have c: "clock_ok (utc_day 2026 6 5)" "clock_ok (md_windowStart demo_data)" by code_simp+
  have f: "list_all fits64 [sn_PlannedTime ?s, sn_RunTime ?s, sn_PlannedDowntime ?s, sn_UnplannedDowntime ?s, sn_IntervalCount ?s]" by code_simp
  have "hb_conns (Register NewHub ''m1'' 1) ''m1'' = [1]" by (simp add: Register_def NewHub_def)
  then show ?thesis using snapshots_reach_sockets [OF refl u c f, of "\<lambda>s. []" "\<lambda>c. c = 1" id "Register NewHub ''m1'' 1"] by simp
qed

end
