(* ===== verification/Live_System.thy ===== *)
theory Live_System
  imports Availability_API
begin

section \<open>The live engine with its sinks (oee/availability/features/live)\<close>

text \<open>
  The goroutines of the live feature on their shared state: transitions that the state worker applies,
  the ticker loop of \<open>Engine.Start\<close>, the two drain goroutines of the composite sink with the log sink and
  the websocket sink, and the websocket endpoint with its read loops. A tick computes from a copy of
  the machines and never blocks, so it is one step. During a broadcast the read loops of other
  connections may unregister theirs (\<open>gone\<close>); a registration during a broadcast has the same effect as
  one after it. \<open>lv_accepted\<close> and \<open>lv_sent\<close> are ghosts: the upgraded connections with their machine, and
  what was written to connections.
\<close>

record live =
  lv_machines :: machines
  lv_ticking :: bool
  lv_sink :: CompositeSink
  lv_latest :: LogSink
  lv_hub :: Hub
  lv_accepted :: "(string \<times> ws_conn) list"
  lv_sent :: "(ws_conn \<times> bytes) list"

definition live_init :: "machines \<Rightarrow> live \<Rightarrow> bool" where
  "live_init machines v \<longleftrightarrow>
     v = \<lparr>lv_machines = machines, lv_ticking = True, lv_sink = NewCompositeSink 2, lv_latest = Map.empty, lv_hub = NewHub,
          lv_accepted = [], lv_sent = []\<rparr>"

definition composite_update :: "CompositeSink \<Rightarrow> AvailabilitySnapshot \<Rightarrow> unit option \<times> CompositeSink" where
  "composite_update c s = (None, Composite_Update c s)"

definition drain_one :: "nat \<Rightarrow> AvailabilitySnapshot \<Rightarrow> AvailabilitySnapshot chan \<Rightarrow> CompositeSink \<Rightarrow> CompositeSink" where
  "drain_one i s ch c = c\<lparr>cs_chans := (cs_chans c)[i := ch], cs_delivered := (cs_delivered c)(i := cs_delivered c i @ [s])\<rparr>"

inductive live_step :: "(AvailabilitySnapshot \<Rightarrow> string) \<Rightarrow> 'e shift_reader \<Rightarrow> live \<Rightarrow> live \<Rightarrow> bool" for errtext shifts where
  lv_apply: "live_step errtext shifts v (v\<lparr>lv_machines := Engine_Apply (lv_machines v) t\<rparr>)"
| lv_tick: "lv_ticking v \<Longrightarrow> set order = dom (lv_machines v) \<Longrightarrow> distinct order \<Longrightarrow>
    tick shifts composite_update (lv_machines v) now order (lv_sink v) = Some sink \<Longrightarrow> live_step errtext shifts v (v\<lparr>lv_sink := sink\<rparr>)"
| lv_done: "live_step errtext shifts v (v\<lparr>lv_ticking := False\<rparr>)"
| lv_log: "0 \<in> cs_running (lv_sink v) \<Longrightarrow> chan_recv (cs_chans (lv_sink v) ! 0) = Some (s, ch) \<Longrightarrow> LogSink_Update (lv_latest v) s = (err, latest) \<Longrightarrow>
    live_step errtext shifts v (v\<lparr>lv_sink := drain_one 0 s ch (lv_sink v), lv_latest := latest\<rparr>)"
| lv_socket: "1 \<in> cs_running (lv_sink v) \<Longrightarrow> chan_recv (cs_chans (lv_sink v) ! 1) = Some (s, ch) \<Longrightarrow>
    WebsocketSink_Update (marshal_snapshot errtext) write_fails (\<lambda>h. foldl (\<lambda>h (m, c). Unregister h m c) h gone) (lv_hub v) s = (err, hub, sent) \<Longrightarrow>
    live_step errtext shifts v (v\<lparr>lv_sink := drain_one 1 s ch (lv_sink v), lv_hub := hub, lv_sent := lv_sent v @ sent\<rparr>)"
| lv_upgrade: "live_step errtext shifts v (v\<lparr>lv_hub := serveWS (Inr c) (lv_hub v) machineID, lv_accepted := lv_accepted v @ [(machineID, c)]\<rparr>)"
| lv_left: "readLoop (reads :: (string + bytes) list) (lv_hub v) machineID c = Some hub \<Longrightarrow> live_step errtext shifts v (v\<lparr>lv_hub := hub\<rparr>)"
| lv_close: "live_step errtext shifts v (v\<lparr>lv_sink := (lv_sink v)\<lparr>cs_cancelled := True\<rparr>\<rparr>)"
| lv_stop: "i \<in> cs_running (lv_sink v) \<Longrightarrow> cs_cancelled (lv_sink v) \<Longrightarrow>
    live_step errtext shifts v (v\<lparr>lv_sink := (lv_sink v)\<lparr>cs_running := cs_running (lv_sink v) - {i}\<rparr>\<rparr>)"

subsection \<open>Ticks\<close>

definition computed :: "AvailabilitySnapshot \<Rightarrow> bool" where
  "computed s \<longleftrightarrow> (\<exists>now data planned. s = snapshot_of (sn_MachineID s) now data planned)"

lemma computed_snapshot_of [simp]: "computed (snapshot_of mid now data planned)"
proof -
  have "sn_MachineID (snapshot_of mid now data planned) = mid" by (simp add: snapshot_of_def Let_def)
  then show ?thesis unfolding computed_def by metis
qed

text \<open>A tick hands computed snapshots to the sink, and does nothing else to it.\<close>

lemma tick_updates:
  "tick shifts composite_update machines now order c = Some c' \<Longrightarrow>
   \<exists>ss. list_all computed ss \<and> c' = foldl Composite_Update c ss"
proof (induction shifts "composite_update" machines now order c rule: tick.induct)
  case (2 shifts machines now mid order c)
  show ?case
  proof (cases "machines mid")
    case (Some data)
    show ?thesis
    proof (cases "shifts mid \<lparr>w_From = md_windowStart data, w_To = now\<rparr>")
      case r: (Some r)
      show ?thesis
      proof (cases r)
        case (Inr p)
        obtain planned found where p: "p = (planned, found)" by (cases p)
        have "tick shifts composite_update machines now order (Composite_Update c (snapshot_of mid now data planned)) = Some c'"
          using "2.prems" Some r Inr p by (simp add: composite_update_def)
        then obtain ss where "list_all computed ss" "c' = foldl Composite_Update (Composite_Update c (snapshot_of mid now data planned)) ss"
          using "2.hyps"(3) [OF Some r Inr p [symmetric]] by (auto simp: composite_update_def)
        then show ?thesis by (intro exI [of _ "snapshot_of mid now data planned # ss"]) simp
      qed (use 2 Some r in auto)
    qed (use 2 Some in auto)
  qed (use 2 in auto)
qed (auto intro: exI [of _ "[]"])

lemma updates_sel: "cs_updates (foldl Composite_Update c ss) = cs_updates c @ ss" "cs_delivered (foldl Composite_Update c ss) = cs_delivered c"
  "cs_running (foldl Composite_Update c ss) = cs_running c" "length (cs_chans (foldl Composite_Update c ss)) = length (cs_chans c)"
  by (induction ss arbitrary: c) (simp_all add: Composite_Update_def)

lemma updates_inv: "composite_inv n c \<Longrightarrow> composite_inv n (foldl Composite_Update c ss)"
  by (induction ss arbitrary: c) (auto intro: composite_inv_step cs_update)

subsection \<open>The invariant\<close>

definition live_inv :: "(AvailabilitySnapshot \<Rightarrow> string) \<Rightarrow> live \<Rightarrow> bool" where
  "live_inv errtext v \<longleftrightarrow>
     composite_inv 2 (lv_sink v) \<and> list_all computed (cs_updates (lv_sink v)) \<and>
     lv_latest v = foldl (\<lambda>s snap. snd (LogSink_Update s snap)) Map.empty (cs_delivered (lv_sink v) 0) \<and>
     (\<forall>m. set (hb_conns (lv_hub v) m) \<subseteq> {c. (m, c) \<in> set (lv_accepted v)}) \<and>
     (\<forall>(c, p)\<in>set (lv_sent v). \<exists>s\<in>set (cs_delivered (lv_sink v) 1). (sn_MachineID s, c) \<in> set (lv_accepted v) \<and> marshal_snapshot errtext s = Inr p)"

lemma drain_one_step:
  assumes "composite_inv 2 c" "i \<in> cs_running c" "i < 2" "chan_recv (cs_chans c ! i) = Some (s, ch)"
  shows "composite_inv 2 (drain_one i s ch c)"
proof -
  have "i < length (cs_chans c)" using assms(1,3) by (simp add: composite_inv_def)
  then have "composite_step c (drain_one i s ch c)" unfolding drain_one_def using assms(2,4) by (intro cs_drain)
  with assms(1) show ?thesis by (rule composite_inv_step)
qed

lemma drain_one_sel: "cs_updates (drain_one i s ch c) = cs_updates c" "cs_delivered (drain_one i s ch c) = (cs_delivered c)(i := cs_delivered c i @ [s])"
  by (simp_all add: drain_one_def)

text \<open>Unregistering only removes connections.\<close>

lemma Unregister_conns: "set (hb_conns (Unregister h m c) m') \<subseteq> set (hb_conns h m')"
  by (auto simp: hb_conns_Unregister dest: notin_set_remove1 set_remove1_subset [THEN subsetD])

lemma gone_conns: "set (hb_conns (foldl (\<lambda>h (m, c). Unregister h m c) h gone) m') \<subseteq> set (hb_conns h m')"
proof (induction gone arbitrary: h)
  case (Cons g gone)
  obtain m c where "g = (m, c)" by (cases g)
  with Cons [of "Unregister h m c"] Unregister_conns [of h m c m'] show ?case by auto
qed simp

lemma Broadcast_conns:
  assumes "Broadcast write_fails (\<lambda>h. foldl (\<lambda>h (m, c). Unregister h m c) h gone) h m payload = (h', sent)"
  shows "set (hb_conns h' m') \<subseteq> set (hb_conns h m')" "sent = map (\<lambda>c. (c, payload)) (hb_conns h m)"
proof -
  let ?dead = "map (\<lambda>c. (m, c)) (filter write_fails (hb_conns h m))"
  have fold: "foldl (\<lambda>h (m, c). Unregister h m c) g (map (\<lambda>c. (m, c)) cs) = foldl (\<lambda>h c. Unregister h m c) g cs" for g cs
    by (induction cs arbitrary: g) simp_all
  have "h' = foldl (\<lambda>h (m, c). Unregister h m c) (foldl (\<lambda>h (m, c). Unregister h m c) h gone) ?dead"
    using assms by (simp add: Broadcast_def Let_def fold)
  then show "set (hb_conns h' m') \<subseteq> set (hb_conns h m')" using gone_conns by (metis subset_trans)
  show "sent = map (\<lambda>c. (c, payload)) (hb_conns h m)" using assms by (simp add: Broadcast_def Let_def)
qed

lemma readLoop_Some: "readLoop reads h m c = Some h' \<Longrightarrow> h' = Unregister h m c"
  by (induction reads h m c rule: readLoop.induct) auto

lemma live_inv_step:
  assumes "live_inv errtext v" "live_step errtext shifts v v'"
  shows "live_inv errtext v'"
  using assms(2)
proof cases
  case (lv_tick order now sink)
  then obtain ss where ss: "list_all computed ss" "sink = foldl Composite_Update (lv_sink v) ss" using tick_updates by blast
  then show ?thesis using assms(1) unfolding lv_tick(1) by (simp add: live_inv_def updates_sel updates_inv)
next
  case (lv_log s ch err latest)
  then have "latest = snd (LogSink_Update (lv_latest v) s)" by simp
  then show ?thesis using assms(1) drain_one_step [OF _ lv_log(2) _ lv_log(3)] unfolding lv_log(1)
    by (auto simp: live_inv_def drain_one_sel)
next
  case (lv_socket s ch write_fails gone err hub sent)
  have inv: "composite_inv 2 (drain_one 1 s ch (lv_sink v))"
    using assms(1) drain_one_step [OF _ lv_socket(2) _ lv_socket(3)] by (simp add: live_inv_def)
  have "(\<forall>m. set (hb_conns hub m) \<subseteq> set (hb_conns (lv_hub v) m)) \<and>
      (\<forall>(c, p)\<in>set sent. c \<in> set (hb_conns (lv_hub v) (sn_MachineID s)) \<and> marshal_snapshot errtext s = Inr p)"
  proof (cases "marshal_snapshot errtext s")
    case (Inr payload)
    then have "Broadcast write_fails (\<lambda>h. foldl (\<lambda>h (m, c). Unregister h m c) h gone) (lv_hub v) (sn_MachineID s) payload = (hub, sent)"
      using lv_socket(4) by (simp add: WebsocketSink_Update_def)
    from Broadcast_conns [OF this] Inr show ?thesis by auto
  qed (use lv_socket(4) in \<open>simp add: WebsocketSink_Update_def\<close>)
  then show ?thesis using assms(1) inv unfolding lv_socket(1) by (fastforce simp: live_inv_def drain_one_sel)
next
  case (lv_upgrade c machineID)
  then show ?thesis using assms(1) by (fastforce simp: live_inv_def serveWS_def Register_def)
next
  case (lv_left reads machineID c hub)
  then show ?thesis using assms(1) Unregister_conns readLoop_Some [OF lv_left(2)] by (fastforce simp: live_inv_def)
next
  case lv_close
  then show ?thesis using assms(1) composite_inv_step [OF _ cs_close] by (simp add: live_inv_def)
next
  case (lv_stop i)
  then show ?thesis using assms(1) composite_inv_step [OF _ cs_stop [OF lv_stop(2,3)]] by (simp add: live_inv_def)
qed (use assms(1) in \<open>simp_all add: live_inv_def\<close>)

interpretation live: invariant_system "live_init machines" "live_step errtext shifts" "live_inv errtext" for machines errtext shifts
proof unfold_locales
  show "live_inv errtext v" if "live_init machines v" for v
    using that composite.inv_init [of "NewCompositeSink 2" 2] by (simp add: live_init_def live_inv_def NewCompositeSink_def NewHub_def)
qed (rule live_inv_step)

subsection \<open>Claims\<close>

definition decodes_to :: "bytes \<Rightarrow> AvailabilitySnapshot \<Rightarrow> bool" where
  "decodes_to p s \<longleftrightarrow> Unmarshal (dec_struct snapshot_fields) zero_snapshot (string_of_bytes p) = Some s"

definition minute_zones :: "AvailabilitySnapshot \<Rightarrow> bool" where
  "minute_zones s \<longleftrightarrow> tm_off (sn_WindowFrom s) mod 60 = 0 \<and> tm_off (sn_WindowTo s) mod 60 = 0"

lemma marshalled_decodes:
  assumes "computed s" "marshal_snapshot errtext s = Inr p" "snapshot_ok s" "minute_zones s"
  shows "decodes_to p s"
proof -
  obtain j where j: "snapshot_doc s = Some j" "p = bytes_of_string (json_text j)"
    using assms(2) by (auto simp: marshal_snapshot_def split: option.splits)
  obtain now data planned where c: "s = snapshot_of (sn_MachineID s) now data planned" using assms(1) unfolding computed_def by blast
  have at: "sn_ComputedAt s = sn_WindowTo s" by (subst (1 2) c) (simp add: snapshot_of_def Let_def)
  have "MarshalTime (sn_WindowFrom s) \<noteq> None" "MarshalTime (sn_WindowTo s) \<noteq> None" using j(1) by (auto simp: snapshot_doc_def bind_eq_Some_conv)
  then have "clock_ok (sn_WindowFrom s)" "clock_ok (sn_WindowTo s)"
    using MarshalTime_None [of "sn_WindowFrom s"] MarshalTime_None [of "sn_WindowTo s"] assms(4)
    by (auto simp: clock_ok_def minute_zones_def MarshalTime_def split: if_splits)
  then have r: "json_ok j" "depth j \<le> 2" "dec_struct snapshot_fields j zero_snapshot = Some s"
    using snapshot_read [OF assms(3)] at j(1) by auto
  then have "json_parse (json_text j) = Some j" by (intro json_parse_text) (simp_all add: maxNestingDepth_def)
  then show ?thesis using r(3) by (simp add: decodes_to_def j(2) Unmarshal_def)
qed


abbreviation one_day :: "unit shift_reader" where
  "one_day m w \<equiv> Some (Inr (1440 * minute, True))"

definition shown :: AvailabilitySnapshot where
  "shown = snapshot_of ''m1'' (utc_day 2026 6 5) demo_data (1440 * minute)"

lemma shown_facts: "snapshot_ok shown" "clock_ok (sn_WindowFrom shown)" "clock_ok (sn_WindowTo shown)" "clock_ok (sn_ComputedAt shown)" "minute_zones shown"
  "sn_MachineID shown = ''m1''"
proof -
  have u: "valid_utf8 ''m1''" by (simp add: valid_utf8_ascii ascii_def)
  show m: "sn_MachineID shown = ''m1''" by (simp add: shown_def snapshot_of_def Let_def)
  have "float_round (sn_Availability shown) = sn_Availability shown" by (simp add: shown_def snapshot_of_def Let_def Availability_float)
  moreover have "list_all fits64 [sn_PlannedTime shown, sn_RunTime shown, sn_PlannedDowntime shown, sn_UnplannedDowntime shown, sn_IntervalCount shown]"
    unfolding shown_def by code_simp
  ultimately show "snapshot_ok shown" using u by (simp add: snapshot_ok_def m)
  show "clock_ok (sn_WindowFrom shown)" "clock_ok (sn_WindowTo shown)" "clock_ok (sn_ComputedAt shown)" "minute_zones shown"
    unfolding shown_def by code_simp+
qed

text \<open>A connection is accepted, a tick computes a snapshot, and the websocket sink sends it.\<close>

lemma demo_live_run:
  "\<exists>v p. reachable (live_init [''m1'' \<mapsto> demo_data]) (live_step errtext one_day) v \<and> lv_sent v = [(1, p)] \<and> cs_updates (lv_sink v) = [shown]"
proof -
  let ?c = "Composite_Update (NewCompositeSink 2) shown" and ?h = "Register NewHub ''m1'' 1" and ?r = "reachable (live_init [''m1'' \<mapsto> demo_data]) (live_step errtext one_day)"
  let ?at = "\<lambda>c h sent. \<lparr>lv_machines = [''m1'' \<mapsto> demo_data], lv_ticking = True, lv_sink = c, lv_latest = Map.empty, lv_hub = h,
      lv_accepted = [(''m1'', 1)], lv_sent = sent\<rparr>"
  obtain p where p: "marshal_snapshot errtext shown = Inr p"
    using snapshot_read [OF shown_facts(1-4)] by (auto simp: marshal_snapshot_def)
  let ?start = "\<lparr>lv_machines = [''m1'' \<mapsto> demo_data], lv_ticking = True, lv_sink = NewCompositeSink 2, lv_latest = Map.empty, lv_hub = NewHub,
      lv_accepted = [], lv_sent = []\<rparr>"
  have "?r ?start" by (rule reachable_init) (simp add: live_init_def)
  moreover have "live_step errtext one_day ?start (?at (NewCompositeSink 2) ?h [])"
    using lv_upgrade [where v = ?start and c = 1 and machineID = "''m1''" and errtext = errtext and shifts = one_day] by (simp add: serveWS_def)
  ultimately have "?r (?at (NewCompositeSink 2) ?h [])" by (rule reachable_step)
  moreover have "tick one_day composite_update [''m1'' \<mapsto> demo_data] (utc_day 2026 6 5) [''m1''] (NewCompositeSink 2) = Some ?c"
    by (simp add: composite_update_def shown_def)
  then have "live_step errtext one_day (?at (NewCompositeSink 2) ?h []) (?at ?c ?h [])"
    using lv_tick [of "?at (NewCompositeSink 2) ?h []" "[''m1'']" one_day "utc_day 2026 6 5" ?c errtext] by simp
  ultimately have r: "?r (?at ?c ?h [])" by (rule reachable_step)
  let ?ch = "make_chan 1 :: AvailabilitySnapshot chan"
  have "1 \<in> cs_running ?c" "chan_recv (cs_chans ?c ! 1) = Some (shown, ?ch)"
    by (simp_all add: Composite_Update_def NewCompositeSink_def try_send_def chan_send_def chan_recv_def make_chan_def)
  moreover have "WebsocketSink_Update (marshal_snapshot errtext) (\<lambda>c. False) (\<lambda>h. foldl (\<lambda>h (m, c). Unregister h m c) h []) ?h shown = (None, ?h, [(1, p)])"
    using p by (simp add: WebsocketSink_Update_def Broadcast_def shown_facts(6) Register_def NewHub_def)
  ultimately have "live_step errtext one_day (?at ?c ?h []) (?at (drain_one 1 shown ?ch ?c) ?h [(1, p)])"
    using lv_socket [of "?at ?c ?h []" shown ?ch errtext "\<lambda>c. False" "[]" None ?h "[(1, p)]" one_day] by simp
  with r have "?r (?at (drain_one 1 shown ?ch ?c) ?h [(1, p)])" by (rule reachable_step)
  moreover have "cs_updates (drain_one 1 shown ?ch ?c) = [shown]" by (simp add: drain_one_def Composite_Update_def NewCompositeSink_def)
  ultimately show ?thesis by (intro exI [of _ "?at (drain_one 1 shown ?ch ?c) ?h [(1, p)]"] exI [of _ p]) simp
qed


lemma full_stays:
  "length (cs_chans c) = n \<Longrightarrow> \<forall>i<n. ch_buf (cs_chans c ! i) = [s] \<and> ch_cap (cs_chans c ! i) = 1 \<Longrightarrow>
   \<forall>i<n. ch_buf (cs_chans (foldl Composite_Update c ss) ! i) = [s]"
  by (induction ss arbitrary: c) (simp_all add: Composite_Update_def try_send_def chan_send_def)

text \<open>
  C37. The sinks have one place for all machines: in a tick that no drain interrupts only the snapshot of the
  first machine goes out, those of all others are dropped.
\<close>

theorem tick_drops_other_machines:
  assumes "composite_inv n c" "\<forall>i<n. ch_buf (cs_chans c ! i) = []" "machines m = Some data"
    "shifts m \<lparr>w_From = md_windowStart data, w_To = now\<rparr> = Some (Inr (planned, found))"
    "tick shifts composite_update machines now (m # rest) c = Some c'"
  shows "\<forall>i<n. ch_buf (cs_chans c' ! i) = [snapshot_of m now data planned]"
proof -
  let ?s = "snapshot_of m now data planned" and ?c = "Composite_Update c (snapshot_of m now data planned)"
  have "tick shifts composite_update machines now rest ?c = Some c'" using assms(3-5) by (simp add: composite_update_def)
  then obtain ss where ss: "c' = foldl Composite_Update ?c ss" using tick_updates by blast
  have full: "\<forall>i<n. ch_buf (cs_chans ?c ! i) = [?s] \<and> ch_cap (cs_chans ?c ! i) = 1"
    using assms(1,2) by (auto simp: composite_inv_def Composite_Update_def try_send_def chan_send_def)
  have "length (cs_chans ?c) = n" using assms(1) by (simp add: composite_inv_def Composite_Update_def)
  from full_stays [OF this full] show ?thesis by (simp add: ss)
qed


theorem tick_drops_other_machines_witness:
  "\<exists>c. tick one_day composite_update [''m1'' \<mapsto> demo_data, ''m2'' \<mapsto> demo_data] (utc_day 2026 6 5) [''m1'', ''m2''] (NewCompositeSink 2) = Some c \<and>
     length (cs_updates c) = 2 \<and> (\<forall>i<2. ch_buf (cs_chans c ! i) = [shown])"
proof -
  let ?ms = "[''m1'' \<mapsto> demo_data, ''m2'' \<mapsto> demo_data]"
  obtain c where c: "tick one_day composite_update ?ms (utc_day 2026 6 5) [''m1'', ''m2''] (NewCompositeSink 2) = Some c" "length (cs_updates c) = 2"
    by (simp add: composite_update_def Composite_Update_def NewCompositeSink_def)
  have "composite_inv 2 (NewCompositeSink 2)" by (rule composite.inv_init) simp
  moreover have "\<forall>i<2. ch_buf (cs_chans (NewCompositeSink 2) ! i) = []" by (simp add: NewCompositeSink_def)
  ultimately have "\<forall>i<2. ch_buf (cs_chans c ! i) = [shown]"
    unfolding shown_def using c(1) by (intro tick_drops_other_machines [where machines = ?ms and shifts = one_day and rest = "[''m2'']" and found = True]) simp_all
  with c show ?thesis by blast
qed

end
