(* ===== verification/HTTP_API.thy ===== *)
theory HTTP_API
  imports Bootstrap Audit_API Live_System
begin

section \<open>The HTTP API of the running broker (cmd/broker/bootstrap/server.go)\<close>

text \<open>
  \<open>StartServers\<close> registers the handlers of the audit features and, with OEE, those of the availability
  features on one \<open>ServeMux\<close>. A request is served from the tables of the running broker: the messages
  that the pipeline stored, the intervals of the state worker, the shifts. What a query of the
  database meets and the time-zone database are in the record \<open>http_world\<close>.
\<close>

record http_world =
  hw_tzdata :: "string \<Rightarrow> location option"
  hw_auditFault :: query_fault
  hw_rangeFault :: query_fault
  hw_shiftFaults :: "query_fault \<times> query_fault \<times> (int \<Rightarrow> query_fault)"

text \<open>A response, a redirection, a connection upgraded to a websocket of a machine, or a handler that never
  returns because the planned time does not.\<close>

datatype served = Responds http_reply | Redirects | Upgrades string | Hangs

definition stored_intervals :: "ingest_state broker \<Rightarrow> interval_table" where
  "stored_intervals b = fst (snd (fo_states (bk_fanout b) ! 1))"

definition availability_handler :: "http_world \<Rightarrow> oee_modules \<Rightarrow> ingest_state broker \<Rightarrow> string \<Rightarrow> http_request \<Rightarrow> served" where
  "availability_handler hw oee b machineID r =
     (case getAvailability (Execute (ByMachineRange (hw_rangeFault hw) (stored_intervals b)) (ForMachineWindow (hw_tzdata hw) (hw_shiftFaults hw) (oe_shifts oee)))
         machineID (rq_Query r ''from'') (rq_Query r ''to'') of
        None \<Rightarrow> Hangs
      | Some resp \<Rightarrow> Responds (sent_reply r (availability_reply resp)))"

definition serve_pattern :: "http_world \<Rightarrow> Servers \<Rightarrow> ingest_state broker \<Rightarrow> http_request \<Rightarrow> string \<Rightarrow> (string \<times> string) list \<Rightarrow> served" where
  "serve_pattern hw s b r pat binds =
     (if pat = ''GET /audit/{topic...}''
      then Responds (sent_reply r (getByTopic (hw_auditFault hw) (pl_db (bk_pipeline b)) (PathValue binds ''topic'')))
      else if pat = ''GET /audit-count/{topic...}''
      then Responds (sent_reply r (countByTopic (hw_auditFault hw) (pl_db (bk_pipeline b)) (PathValue binds ''topic'')))
      else case sr_OEE s of
        None \<Rightarrow> Responds (sent_reply r (http_Error ''404 page not found'' 404))
      | Some oee \<Rightarrow>
          if pat = ''GET /availability/{machine}'' then availability_handler hw oee b (PathValue binds ''machine'') r
          else Upgrades (PathValue binds ''machine''))"

definition ServeHTTP :: "http_world \<Rightarrow> Servers \<Rightarrow> ingest_state broker \<Rightarrow> http_request \<Rightarrow> served" where
  "ServeHTTP hw s b r =
     (case findHandler (sr_routes s) r of
        Matched pat binds \<Rightarrow> serve_pattern hw s b r pat binds
      | MovedPermanently \<Rightarrow> Redirects
      | MethodNotAllowed \<Rightarrow> Responds (sent_reply r (http_Error ''Method Not Allowed'' 405))
      | NotFound \<Rightarrow> Responds (sent_reply r (http_Error ''404 page not found'' 404)))"

text \<open>The live feature of a process that has come up starts as \<open>Live_System\<close> says.\<close>

lemma served_live:
  assumes "broker_main w = Serving s" "sr_OEE s = Some oee"
  shows "live_init Map.empty \<lparr>lv_machines = Map.empty, lv_ticking = True, lv_sink = oe_sink oee, lv_latest = oe_latest oee, lv_hub = oe_hub oee,
    lv_accepted = [], lv_sent = []\<rparr>"
proof -
  obtain cfg db where "configured_oee w cfg (wo_tables w db) = Some oee" using broker_main_Serving [OF assms(1)] assms(2) by metis
  then show ?thesis by (auto simp: configured_oee_def buildOEEModules_def live_init_def Let_def split: if_splits)
qed

subsection \<open>Routing\<close>

lemma patterns:
  "parse_pattern ''GET /audit/{topic...}'' = (''GET'', [Lit ''audit'', Multi ''topic''])"
  "parse_pattern ''GET /audit-count/{topic...}'' = (''GET'', [Lit ''audit-count'', Multi ''topic''])"
  "parse_pattern ''GET /availability/{machine}'' = (''GET'', [Lit ''availability'', Wild ''machine''])"
  "parse_pattern ''GET /availability/{machine}/ws'' = (''GET'', [Lit ''availability'', Wild ''machine'', Lit ''ws''])"
  by code_simp+

text \<open>No two patterns of the program match the same path.\<close>

definition path_matches :: "segment list \<Rightarrow> string \<Rightarrow> bool" where
  "path_matches ss path \<longleftrightarrow> match_path ss path \<noteq> None"

lemma match_Lit: "path_matches (Lit l # ss) path \<longleftrightarrow> path \<noteq> [] \<and> fst (firstSegment path) = l \<and> path_matches ss (snd (firstSegment path))"
  by (cases "firstSegment path") (simp add: path_matches_def)

lemma match_Wild:
  "path_matches (Wild name # ss) path \<longleftrightarrow> path \<noteq> [] \<and> path \<noteq> ''/'' \<and> path_matches ss (snd (firstSegment path))"
  by (cases "firstSegment path") (simp add: path_matches_def)

lemma match_end: "path_matches [] path \<longleftrightarrow> path = []"
  by (simp add: path_matches_def)

lemma routes_disjoint:
  assumes "pat \<in> set (audit_routes @ oee_routes)" "pat' \<in> set (audit_routes @ oee_routes)"
    "path_matches (snd (parse_pattern pat)) path" "path_matches (snd (parse_pattern pat')) path"
  shows "pat = pat'"
proof -
  let ?h = "\<lambda>p. (case parse_pattern p of (m, Lit l # ss) \<Rightarrow> l | _ \<Rightarrow> [])"
  have h: "fst (firstSegment path) = ?h p" if "p \<in> set (audit_routes @ oee_routes)" "path_matches (snd (parse_pattern p)) path" for p
    using that by (auto simp: audit_routes_def oee_routes_def patterns match_Lit)
  have e: "snd (firstSegment (snd (firstSegment path))) = [] \<longleftrightarrow> p = ''GET /availability/{machine}''"
    if "p \<in> set oee_routes" "path_matches (snd (parse_pattern p)) path" for p
    using that by (auto simp: oee_routes_def patterns match_Lit match_Wild match_end)
  have "?h pat = ?h pat'" using h [OF assms(1,3)] h [OF assms(2,4)] by simp
  then consider "pat = pat'" | "pat \<in> set oee_routes" "pat' \<in> set oee_routes"
    using assms(1,2) by (auto simp: audit_routes_def oee_routes_def patterns)
  then show ?thesis
  proof cases
    case 2
    then show ?thesis using e [OF 2(1) assms(3)] e [OF 2(2) assms(4)] by (auto simp: oee_routes_def)
  qed
qed

lemma served_routes:
  assumes "broker_main w = Serving s"
  shows "sr_routes s = (if sr_OEE s = None then audit_routes else audit_routes @ oee_routes)"
proof -
  obtain modules where "StartServers modules = Returns s"
    using assms by (auto simp: broker_main_def split: sum.splits go_result.splits)
  then show ?thesis by (auto simp: StartServers_def Let_def split: option.splits prod.splits go_result.splits)
qed

text \<open>A path of a literal and one escaped segment is clean.\<close>

lemma cleanPath_segment:
  assumes "CHR ''/'' \<notin> set lit" "lit \<noteq> []" "lit \<noteq> ''.''" "lit \<noteq> ''..''" "t \<noteq> []"
  shows "cleanPath (CHR ''/'' # lit @ CHR ''/'' # percent t) = CHR ''/'' # lit @ CHR ''/'' # percent t"
proof -
  have p: "percent t \<noteq> []" "percent t \<noteq> ''.''" "percent t \<noteq> ''..''" using assms(5) percent_not_dots by simp_all
  have s: "split_on (CHR ''/'') (lit @ CHR ''/'' # percent t) = [lit, percent t]"
    using split_on_append [OF assms(1), of "percent t"] split_on_no_sep [OF percent_no_slash] by simp
  have "last (percent t) \<noteq> CHR ''/''" using percent_no_slash [of t] last_in_set [OF p(1)] by metis
  then show ?thesis using assms p by (simp add: cleanPath_def path_Clean_def s clean_element_def)
qed

lemma mux_audit:
  assumes "case m of None \<Rightarrow> True | Some rm \<Rightarrow> method_ok ''GET'' rm"
  shows "mux_match (audit_routes @ rest) m (''/audit/'' @ percent t) = Some (''GET /audit/{topic...}'', [(''topic'', t)])"
    "mux_match (audit_routes @ rest) m (''/audit-count/'' @ percent t) = Some (''GET /audit-count/{topic...}'', [(''topic'', t)])"
proof -
  have u: "pathUnescape ''audit'' = ''audit''" "pathUnescape ''audit-count'' = ''audit-count''" by code_simp+
  have "firstSegment (''/audit/'' @ percent t) = (''audit'', CHR ''/'' # percent t)"
    "firstSegment (''/audit-count/'' @ percent t) = (''audit-count'', CHR ''/'' # percent t)"
    by (simp_all add: firstSegment_def u)
  then show "mux_match (audit_routes @ rest) m (''/audit/'' @ percent t) = Some (''GET /audit/{topic...}'', [(''topic'', t)])"
    "mux_match (audit_routes @ rest) m (''/audit-count/'' @ percent t) = Some (''GET /audit-count/{topic...}'', [(''topic'', t)])"
    using assms by (simp_all add: audit_routes_def patterns)
qed

lemma audit_path:
  assumes "t \<noteq> []" "rest = [] \<or> rest = oee_routes"
  shows "findHandler (audit_routes @ rest) (GET (''/audit/'' @ percent t)) = Matched ''GET /audit/{topic...}'' [(''topic'', t)]"
    "findHandler (audit_routes @ rest) (GET (''/audit-count/'' @ percent t)) = Matched ''GET /audit-count/{topic...}'' [(''topic'', t)]"
proof -
  have p: "percent t \<noteq> []" "last (percent t) \<noteq> CHR ''/''"
    using assms(1) percent_no_slash [of t] last_in_set [of "percent t"] by (simp, metis percent_Nil)
  have c: "cleanPath (''/audit/'' @ percent t) = ''/audit/'' @ percent t" "cleanPath (''/audit-count/'' @ percent t) = ''/audit-count/'' @ percent t"
    using cleanPath_segment [of "''audit''" t] cleanPath_segment [of "''audit-count''" t] assms(1) by simp_all
  have "case Some ''GET'' of None \<Rightarrow> True | Some rm \<Rightarrow> method_ok ''GET'' rm" by (simp add: method_ok_def)
  note m = mux_audit [OF this, of rest t]
  show "findHandler (audit_routes @ rest) (GET (''/audit/'' @ percent t)) = Matched ''GET /audit/{topic...}'' [(''topic'', t)]"
    "findHandler (audit_routes @ rest) (GET (''/audit-count/'' @ percent t)) = Matched ''GET /audit-count/{topic...}'' [(''topic'', t)]"
    using p c m by (simp_all add: findHandler_def GET_def exactMatch_def Let_def)
qed

text \<open>A request for a path that no pattern matches gets 404, one with another method 405, whatever the state.\<close>

lemma wrong_method:
  assumes "t \<noteq> []" "broker_main w = Serving s"
  shows "ServeHTTP hw s b (GET (''/audit/'' @ percent t)\<lparr>rq_Method := ''POST''\<rparr>) = Responds (http_Error ''Method Not Allowed'' 405)"
proof -
  have c: "cleanPath (''/audit/'' @ percent t) = ''/audit/'' @ percent t" using cleanPath_segment [of "''audit''" t] assms(1) by simp
  have "mux_match (audit_routes @ []) None (''/audit/'' @ percent t) \<noteq> None" "mux_match (audit_routes @ oee_routes) None (''/audit/'' @ percent t) \<noteq> None"
    using mux_audit(1) [of None "[]" t] mux_audit(1) [of None oee_routes t] by simp_all
  then have any: "mux_match (sr_routes s) None (''/audit/'' @ percent t) \<noteq> None" using served_routes [OF assms(2)] by simp
  have none: "mux_match (sr_routes s) (Some ''POST'') path = None" for path
    using served_routes [OF assms(2)] by (simp add: audit_routes_def oee_routes_def patterns method_ok_def)
  have "findHandler (sr_routes s) (GET (''/audit/'' @ percent t)\<lparr>rq_Method := ''POST''\<rparr>) = MethodNotAllowed"
    using c any by (simp add: findHandler_def GET_def exactMatch_def Let_def none)
  then show ?thesis by (simp add: ServeHTTP_def sent_reply_def)
qed

subsection \<open>What the audit endpoints show\<close>

definition message_utf8 :: "message \<Rightarrow> bool" where
  "message_utf8 m \<longleftrightarrow> valid_utf8 (msg_ClientID m) \<and> valid_utf8 (msg_Topic m) \<and> valid_utf8 (msg_Timezone m) \<and> valid_utf8 (string_of_bytes (msg_Payload m))"

definition audit_entry :: "message \<Rightarrow> audit_record" where
  "audit_entry m = audit_record_of (raw_row_of m)"

lemma audit_entry_utf8: "message_utf8 m \<Longrightarrow> record_utf8 (audit_entry m)"
proof -
  have "ascii (FormatRFC3339Nano t)" for t
    using FormatRFC3339Nano_chars by (fastforce simp: ascii_def list_all_iff is_digit_def)
  then show "message_utf8 m \<Longrightarrow> record_utf8 (audit_entry m)"
    by (simp add: message_utf8_def audit_entry_def record_utf8_def audit_record_of_def raw_row_of_def valid_utf8_ascii)
qed

text \<open>The rows of a topic in an idle broker.\<close>

lemma idle_rows:
  assumes "broker_main w = Serving s" "runs_to s b" "Load (wo_env w) = Inr cfg" "InitDatabase w (cf_DBPath cfg) = Inr db"
    "t \<in> set (cf_Topics cfg)" "idle b" "list_all (\<lambda>(fault, m). fault = NoFault) (pl_saves (bk_pipeline b))"
  shows "filter (\<lambda>r. rr_topic r = t) (pl_db (bk_pipeline b)) =
    filter (\<lambda>r. rr_topic r = t) (tb_raw (wo_tables w db)) @ map raw_row_of (of_topic t (sv_log (bk_server b)))"
proof -
  have reach: "broker_reach (sr_cfg s) (cf_Topics cfg) (cf_MaxClients cfg) (nat (cf_QueueBufferSize cfg)) (tb_raw (wo_tables w db))
      (map snd (held_workers w cfg (wo_tables w db))) (map fst (held_workers w cfg (wo_tables w db))) b"
    using served_reach [OF assms(1,2)] assms(3,4) by (metis sum.inject(2))
  have all: "saved (pl_saves (bk_pipeline b)) = map snd (pl_saves (bk_pipeline b))"
    using assms(7) by (auto simp: saved_def list_all_iff intro!: arg_cong [of _ _ "map snd"] filter_True)
  have "of_topic t (sv_log (bk_server b)) = of_topic t (map snd (pl_saves (bk_pipeline b)))"
    by (rule conveyed [OF reach assms(5)]) (use assms(6) in \<open>simp add: idle_def\<close>)
  moreover have "pl_db (bk_pipeline b) = tb_raw (wo_tables w db) @ map raw_row_of (saved (pl_saves (bk_pipeline b)))"
    using ingestion.reachable_inv [OF broker_reach_parts(2) [OF reach]] by (simp add: pipeline_inv_def)
  ultimately show ?thesis by (simp only: all filter_append filter_rows)
qed


definition quiet_http :: http_world where
  "quiet_http = \<lparr>hw_tzdata = (\<lambda>name. None), hw_auditFault = QueryOk, hw_rangeFault = QueryOk, hw_shiftFaults = (QueryOk, QueryOk, \<lambda>n. QueryOk)\<rparr>"


end
