(* ===== verification/Shutdown.thy ===== *)
theory Shutdown
  imports Bootstrap
begin

section \<open>Stopping the broker (cmd/broker/bootstrap/shutdown.go)\<close>

text \<open>
  What \<open>GracefulShutdown\<close> does in any state of the running broker, after which \<open>main\<close> returns and the
  process ends: it closes the listener and the registered clients, and neither waits for the pipeline
  nor stores anything. What is on its way at that moment is lost, acknowledged or not.
\<close>

definition stopped :: "Servers \<Rightarrow> ingest_state broker \<Rightarrow> ingest_state broker" where
  "stopped s b = sr_broker (GracefulShutdown (s\<lparr>sr_broker := b\<rparr>))"

lemma stopped_parts [simp]: "bk_pipeline (stopped s b) = bk_pipeline b" "bk_fanout (stopped s b) = bk_fanout b"
  "sv_log (bk_server (stopped s b)) = sv_log (bk_server b)" "sv_listening (bk_server (stopped s b)) = False"
  "sv_msgChan (bk_server (stopped s b)) = sv_msgChan (bk_server b)"
  by (simp_all add: stopped_def GracefulShutdown_def do_close_all_def CloseAll_def)

lemma stopped_clients:
  "Count (sv_connMgr (bk_server (stopped s b))) = 0"
  "Get (sv_connMgr (bk_server b)) cid = Some cl \<Longrightarrow> sv_sessions (bk_server b) (cl_Conn cl) = Some ss \<Longrightarrow>
   \<exists>ss'. sv_sessions (bk_server (stopped s b)) (cl_Conn cl) = Some ss' \<and> cn_closed (ss_conn ss')"
  by (auto simp: stopped_def GracefulShutdown_def do_close_all_def CloseAll_def Count_def Get_def conn_close_def fcard_fempty
      intro: fmran'I)

text \<open>The buffers of a broker that serves have a size.\<close>

lemma serving_buffer:
  assumes "broker_main w = Serving s" "Load (wo_env w) = Inr cfg"
  shows "0 \<le> cf_QueueBufferSize cfg"
  using main_serves [of w] assms by (auto split: sum.splits if_splits)



subsection \<open>An acknowledged message can be lost\<close>

lemma demo_publish_only:
  "\<exists>b ss. bexec demo_cfg workers (demo_broker sts) [BServe (LAccept 0) (demo_packet ''A'' 60 @ BuildPublishPacket ''t'' [42] 1 7), BServe (LConnect 0) [],
       BServe (LRead 0) [], BPublish 0] = Some b \<and> sv_log (bk_server b) = [demo_message] \<and> pl_db (bk_pipeline b) = [] \<and>
     sv_sessions (bk_server b) 0 = Some ss \<and> cn_output (ss_conn ss) = EncodeConnack False ConnAccepted @ EncodePuback 7"
  by (simp add: demo_broker_def NewPipeline_def NewFanOut_def server_internal_def demo_exec_simps
      do_read_demo_publish demo_message_payload chan_send_def after_send_def enter_loop_def ResetDeadline_def conn_write_def live_demo)

text \<open>
  C36. A message that the broker has acknowledged at QoS 1 can be lost: PUBACK is written when the message
  is on the channel, before it is stored, and the shutdown does not wait for the pipeline. Here a client
  has published a message and got its PUBACK, the broker is shut down, and the table is empty.
\<close>

theorem acknowledged_message_lost:
  "\<exists>s b ss. broker_main good_world = Serving s \<and> runs_to s b \<and> sv_log (bk_server b) = [demo_message] \<and>
     sv_sessions (bk_server b) 0 = Some ss \<and> cn_output (ss_conn ss) = EncodeConnack False ConnAccepted @ EncodePuback 7 \<and>
     pl_db (bk_pipeline (stopped s b)) = []"
proof -
  let ?w = "state_worker (\<lambda>data. []) ''t'' (\<lambda>n. no_faults)"
  let ?sts = "[(0, [], Map.empty), (0, [], Map.empty)] :: ingest_state list"
  obtain s where s: "broker_main good_world = Serving s" "sr_broker s = demo_broker ?sts" "sr_cfg s = demo_cfg" "sr_workers s = [LoggerWorker, ?w]"
    using good_world_serves by blast
  obtain b ss where b: "bexec demo_cfg [LoggerWorker, ?w] (demo_broker ?sts) [BServe (LAccept 0) (demo_packet ''A'' 60 @ BuildPublishPacket ''t'' [42] 1 7),
      BServe (LConnect 0) [], BServe (LRead 0) [], BPublish 0] = Some b" "sv_log (bk_server b) = [demo_message]" "pl_db (bk_pipeline b) = []"
    "sv_sessions (bk_server b) 0 = Some ss" "cn_output (ss_conn ss) = EncodeConnack False ConnAccepted @ EncodePuback 7"
    using demo_publish_only [of "[LoggerWorker, ?w]" ?sts] by blast
  have "runs_to s b" using bexec_runs [OF b(1)] s by simp
  then show ?thesis using s(1) b by (intro exI [of _ s] exI [of _ b] exI [of _ ss]) simp
qed

end
