(* ===== verification/Observability.thy ===== *)
theory Observability
  imports Live_Sinks
begin

section \<open>Logging (common/observability/logger.go)\<close>

text \<open>
  The two implementations of the interface \<open>Logger\<close>: one hands every call to a \<open>slog\<close> logger, which
  drops what is below its level and otherwise appends a record, the other discards everything. The
  components log through this interface and never read anything back, so their models leave the calls
  out; the log sink, whose purpose is to log, is given here with its call.
\<close>

datatype log_level = LevelDebug | LevelInfo | LevelWarn | LevelError

fun level_number :: "log_level \<Rightarrow> int" where
  "level_number LevelDebug = - 4" | "level_number LevelInfo = 0" | "level_number LevelWarn = 4" | "level_number LevelError = 8"

record 'a log_record =
  lr_Level :: log_level
  lr_Message :: string
  lr_Args :: "'a list"

record 'a slog_Logger =
  sl_minLevel :: int
  sl_output :: "'a log_record list"

text \<open>\<open>slog.Default\<close> writes records from the level of \<open>Info\<close> on.\<close>

definition slog_Default :: "'a slog_Logger" where
  "slog_Default = \<lparr>sl_minLevel = 0, sl_output = []\<rparr>"

definition slog_log :: "log_level \<Rightarrow> string \<Rightarrow> 'a list \<Rightarrow> 'a slog_Logger \<Rightarrow> 'a slog_Logger" where
  "slog_log lvl msg args l =
     (if sl_minLevel l \<le> level_number lvl
      then l\<lparr>sl_output := sl_output l @ [\<lparr>lr_Level = lvl, lr_Message = msg, lr_Args = args\<rparr>]\<rparr> else l)"

datatype 'a Logger = SlogLogger "'a slog_Logger" | NopLogger

definition NewSlogLogger :: "'a slog_Logger option \<Rightarrow> 'a Logger" where
  "NewSlogLogger l = SlogLogger (case l of None \<Rightarrow> slog_Default | Some l \<Rightarrow> l)"

definition NewNopLogger :: "'a Logger" where
  "NewNopLogger = NopLogger"

fun log_Debug :: "'a Logger \<Rightarrow> string \<Rightarrow> 'a list \<Rightarrow> 'a Logger" where
  "log_Debug (SlogLogger l) msg args = SlogLogger (slog_log LevelDebug msg args l)"
| "log_Debug NopLogger msg args = NopLogger"

fun log_Info :: "'a Logger \<Rightarrow> string \<Rightarrow> 'a list \<Rightarrow> 'a Logger" where
  "log_Info (SlogLogger l) msg args = SlogLogger (slog_log LevelInfo msg args l)"
| "log_Info NopLogger msg args = NopLogger"

fun log_Warn :: "'a Logger \<Rightarrow> string \<Rightarrow> 'a list \<Rightarrow> 'a Logger" where
  "log_Warn (SlogLogger l) msg args = SlogLogger (slog_log LevelWarn msg args l)"
| "log_Warn NopLogger msg args = NopLogger"

fun log_Error :: "'a Logger \<Rightarrow> string \<Rightarrow> 'a list \<Rightarrow> 'a Logger" where
  "log_Error (SlogLogger l) msg args = SlogLogger (slog_log LevelError msg args l)"
| "log_Error NopLogger msg args = NopLogger"

text \<open>The contract of the interface: a call adds at most its own record, at the end.\<close>

locale log_interface =
  fixes written :: "'l \<Rightarrow> 'r list" and call :: "'c \<Rightarrow> 'l \<Rightarrow> 'l" and made :: "'c \<Rightarrow> 'r"
  assumes call_output: "written (call c l) = written l \<or> written (call c l) = written l @ [made c]"
begin

lemma calls_output: "\<exists>cs'. subseq cs' cs \<and> written (fold call cs l) = written l @ map made cs'"
proof (induction cs arbitrary: l)
  case (Cons c cs)
  obtain cs' where cs': "subseq cs' cs" "written (fold call cs (call c l)) = written (call c l) @ map made cs'" using Cons by blast
  show ?case
  proof (cases "written (call c l) = written l")
    case True
    with cs' show ?thesis by (intro exI [of _ cs']) (simp add: list_emb_Cons)
  next
    case False
    with call_output [of c l] cs' show ?thesis by (intro exI [of _ "c # cs'"]) simp
  qed
qed simp

end

fun logged :: "'a Logger \<Rightarrow> 'a log_record list" where
  "logged (SlogLogger l) = sl_output l" | "logged NopLogger = []"

fun log_call :: "log_level \<times> string \<times> 'a list \<Rightarrow> 'a Logger \<Rightarrow> 'a Logger" where
  "log_call (LevelDebug, msg, args) l = log_Debug l msg args" | "log_call (LevelInfo, msg, args) l = log_Info l msg args"
| "log_call (LevelWarn, msg, args) l = log_Warn l msg args" | "log_call (LevelError, msg, args) l = log_Error l msg args"

interpretation loggers: log_interface logged log_call "\<lambda>(lvl, msg, args). \<lparr>lr_Level = lvl, lr_Message = msg, lr_Args = args\<rparr>"
proof
  fix c :: "log_level \<times> string \<times> 'a list" and l :: "'a Logger"
  show "logged (log_call c l) = logged l \<or>
      logged (log_call c l) = logged l @ [case c of (lvl, msg, args) \<Rightarrow> \<lparr>lr_Level = lvl, lr_Message = msg, lr_Args = args\<rparr>]"
    by (cases "(c, l)" rule: log_call.cases; cases l) (auto simp: slog_log_def)
qed

text \<open>What is logged is a subsequence of the calls, in order; with the default logger every call but \<open>Debug\<close>.\<close>

lemma logged_calls:
  "\<exists>cs'. subseq cs' cs \<and> logged (fold log_call cs l) = logged l @ map (\<lambda>(lvl, msg, args). \<lparr>lr_Level = lvl, lr_Message = msg, lr_Args = args\<rparr>) cs'"
  by (rule loggers.calls_output)

subsection \<open>The log sink with its logger (logsink/sink.go)\<close>

datatype log_arg = ArgKey string | ArgText string | ArgFloat float64 | ArgBool bool | ArgTime gotime

record log_sink =
  ls_logger :: "log_arg Logger"
  ls_latest :: LogSink

definition NewLogSink :: "log_arg Logger \<Rightarrow> log_sink" where
  "NewLogSink logger = \<lparr>ls_logger = logger, ls_latest = Map.empty\<rparr>"

definition LogSink_log_Update :: "log_sink \<Rightarrow> AvailabilitySnapshot \<Rightarrow> unit option \<times> log_sink" where
  "LogSink_log_Update s snap =
     (case LogSink_Update (ls_latest s) snap of
        (err, latest) \<Rightarrow>
          (err, \<lparr>ls_logger = log_Debug (ls_logger s) ''availability snapshot''
                   [ArgKey ''machine_id'', ArgText (sn_MachineID snap), ArgKey ''availability'', ArgFloat (sn_Availability snap),
                    ArgKey ''has_data'', ArgBool (sn_HasData snap), ArgKey ''computed_at'', ArgTime (sn_ComputedAt snap)],
                 ls_latest = latest\<rparr>))"

text \<open>With the logger of \<open>main\<close> snapshots leave no trace in the log.\<close>

lemma default_logger_silent:
  "logged (ls_logger (foldl (\<lambda>s snap. snd (LogSink_log_Update s snap)) (NewLogSink (NewSlogLogger None)) snaps)) = []"
proof -
  have "ls_logger (foldl (\<lambda>s snap. snd (LogSink_log_Update s snap)) (NewLogSink (NewSlogLogger None)) snaps) = SlogLogger slog_Default"
    by (induction snaps rule: rev_induct)
      (simp_all add: NewLogSink_def NewSlogLogger_def LogSink_log_Update_def LogSink_Update_def slog_log_def slog_Default_def)
  then show ?thesis by (simp add: slog_Default_def)
qed

end
