(* ===== verification/Broker_Properties.thy ===== *)
theory Broker_Properties
  imports Packet_Builder Topic_Registry Client_Manager
begin

section \<open>Properties of the protocol, the topic registry and the client manager\<close>

text \<open>
  The statements about single components of the broker: what the wire format accepts and gives
  back, who may publish on a topic, how many clients there can be.
\<close>

unbundle bit_operations_syntax

subsection \<open>The wire format\<close>

text \<open>
  The remaining length decodes back: for every length an MQTT packet can have, what
  \<open>EncodeRemainingLength\<close> writes \<open>DecodeRemainingLength\<close> reads, leaving the rest of the stream.
\<close>

theorem remaining_length_round_trip:
  "0 \<le> n \<Longrightarrow> n < 268435456 \<Longrightarrow> DecodeRemainingLength (EncodeRemainingLength n @ rest) = Inr (n, rest)"
  by (rule remaining_length.dec_enc) simp

theorem remaining_length_round_trip_witness:
  "DecodeRemainingLength (EncodeRemainingLength 321 @ [7]) = Inr (321, [7])"
  using remaining_length_round_trip [of 321 "[7]"] by simp

text \<open>
  What the decoder of the remaining length accepts: at most three bytes with the continuation
  bit and one without, the low seven bits counting in base 128. It fails with the malformed-length
  error exactly when the first four bytes all have the continuation bit and a fifth follows, and
  with the end of the stream when the bytes run out before.
\<close>

theorem remaining_length_exact:
  "(DecodeRemainingLength s = Inr (n, rest) \<longleftrightarrow>
      (\<exists>p b. s = p @ b # rest \<and> rl_shape 0 p b \<and> n = rl_value (p @ [b]))) \<and>
   (DecodeRemainingLength s = Inl e \<longleftrightarrow>
      (if 4 < length s \<and> (\<forall>x\<in>set (take 4 s). x AND 0x80 \<noteq> 0) then e = ErrMalformedRemainingLength
       else e = ReadError EOF \<and> length s \<le> 4 \<and> (\<forall>x\<in>set s. x AND 0x80 \<noteq> 0)))"
  using decode_rl_loop_Inr_iff [of 0 0 s n rest] decode_rl_loop_Inl_iff [of 0 0 s e]
  by (simp add: DecodeRemainingLength_def)

theorem remaining_length_exact_witness:
  "DecodeRemainingLength [0xC1, 0x02, 7] = Inr (rl_value [0xC1, 0x02], [7]) \<and>
   DecodeRemainingLength [0x80, 0x80, 0x80, 0x80, 0x01] = Inl ErrMalformedRemainingLength"
proof
  have "\<exists>p b. [0xC1, 0x02, 7] = p @ b # [7] \<and> rl_shape 0 p b \<and> rl_value [0xC1, 0x02] = rl_value (p @ [b])"
    by (rule exI [of _ "[0xC1]"], rule exI [of _ "0x02"]) simp
  then show "DecodeRemainingLength [0xC1, 0x02, 7] = Inr (rl_value [0xC1, 0x02], [7])"
    using remaining_length_exact [of "[0xC1, 0x02, 7]" "rl_value [0xC1, 0x02]" "[7]"] by blast
  show "DecodeRemainingLength [0x80, 0x80, 0x80, 0x80, 0x01] = Inl ErrMalformedRemainingLength"
    using remaining_length_exact [of "[0x80, 0x80, 0x80, 0x80, 0x01]"] by simp
qed

text \<open>
  C32. The CONNECT decoder accepts exactly the written form of a well-formed packet, possibly
  followed by further bytes, which it ignores: protocol name MQTT, level 4, the reserved flag 0,
  and the optional fields its flags announce. So no two packets share a form, and nothing else is
  taken for a CONNECT packet.
\<close>

theorem connect_decoder_exact:
  "DecodeConnect data = Inr p \<longleftrightarrow> connect_ok p \<and> (\<exists>rest. data = connect_body p @ rest)"
  by (rule DecodeConnect_iff)

text \<open>
  C33. The PUBLISH and SUBSCRIBE decoders accept exactly the written form of a well-formed packet,
  with nothing after it: a topic that is not empty, a QoS of at most 2, a packet ID if and only if
  the QoS is positive, and for SUBSCRIBE at least one filter.
\<close>

theorem publish_subscribe_decoders_exact:
  "(DecodePublish header data = Inr p \<longleftrightarrow> publish_ok p \<and> publish_flags p (fh_Flags header) \<and> data = publish_body p) \<and>
   (DecodeSubscribe data = Inr q \<longleftrightarrow> subscribe_ok q \<and> data = subscribe_body q)"
  using DecodePublish_iff DecodeSubscribe_iff by blast

text \<open>
  A CONNECT packet that a client builds is read back by the broker, whatever follows it in
  the stream: the frame reader takes exactly the packet, and the decoder finds the client ID, the
  user name, the password and the keep-alive that were put in.
\<close>

theorem connect_wire_round_trip:
  assumes "length clientID < 65536" "length username < 65536" "length password < 65536"
  shows "\<exists>header data pkt. ReadPacket (BuildConnectPacket clientID username password keepAlive @ rest) = Inr (header, data, rest) \<and>
    fh_PacketType header = CONNECT \<and> DecodeConnect data = Inr pkt \<and> cp_ClientID pkt = clientID \<and>
    HasUsername pkt \<and> cp_Username pkt = username \<and> HasPassword pkt \<and>
    string_of_bytes (cp_Password pkt) = password \<and> cp_KeepAlive pkt = keepAlive \<and> IsCleanSession pkt"
proof -
  have "HasUsername (built_connect clientID username password keepAlive)"
    "HasPassword (built_connect clientID username password keepAlive)"
    "IsCleanSession (built_connect clientID username password keepAlive)"
    by (simp_all add: built_connect_def connect_flags IsCleanSession_def)
  with connect_read_back [OF assms, of keepAlive rest] show ?thesis by (auto simp: built_connect_def)
qed

theorem connect_wire_round_trip_witness:
  "\<exists>header data pkt. ReadPacket (BuildConnectPacket ''A'' ''u'' ''p'' 60 @ [0xC0, 0x00]) = Inr (header, data, [0xC0, 0x00]) \<and>
     DecodeConnect data = Inr pkt \<and> cp_ClientID pkt = ''A'' \<and> cp_KeepAlive pkt = 60"
  using connect_wire_round_trip [of "''A''" "''u''" "''p''" 60 "[0xC0, 0x00]"] by auto

text \<open>
  C34. The frame reader makes progress and stays in bounds: a packet it returns is shorter than
  256 MiB, has exactly the length its header announces, is not of a reserved type, and took at
  least two bytes off the stream, so a loop over a finite stream ends.
\<close>

theorem frame_reader_bounds:
  assumes "ReadPacket s = Inr (header, data, rest)"
  shows "fh_PacketType header \<noteq> Reserved1 \<and> fh_PacketType header \<noteq> Reserved15 \<and>
    int (length data) = fh_RemainingLength header \<and> fh_RemainingLength header < 268435456 \<and>
    (\<exists>p. s = p @ rest \<and> 2 \<le> length p)"
  using ReadPacketD [OF assms] .

theorem frame_reader_bounds_witness:
  "\<exists>header data. ReadPacket (frame 0xC0 [] @ [0xE0, 0x00]) = Inr (header, data, [0xE0, 0x00]) \<and>
     int (length data) = fh_RemainingLength header"
proof -
  have "frame_ok 0xC0 []" by (simp add: frame_ok_def packet_type_of_def packet_types_def)
  then have r: "ReadPacket (frame 0xC0 [] @ [0xE0, 0x00]) = Inr (frame_header 0xC0 [], [], [0xE0, 0x00])"
    by (rule ReadPacket_frame)
  from frame_reader_bounds [OF r] r show ?thesis by blast
qed

text \<open>
  A string of 65536 bytes or more does not fit its length prefix: the prefix wraps around,
  the reader gets the first \<open>length s mod 65536\<close> bytes and takes the rest for what follows.
\<close>

theorem long_string_wraps:
  "ReadUTF8String (WriteUTF8String s @ rest) =
     Inr (take (length s mod 65536) s, bytes_of_string (drop (length s mod 65536) s) @ rest)"
  by (rule ReadUTF8String_write_any)

subsection \<open>Topic ownership\<close>

text \<open>
  A topic has one publisher at a time: once a client's claim is granted, every other client's
  claim of the topic is refused, whatever claims and releases happen in between, until the owner
  itself releases.
\<close>

theorem topic_ownership_exclusive:
  assumes "Claim r topic c = (None, r')" and "OpRelease c \<notin> set ops" and "d \<noteq> c"
  shows "\<exists>e. fst (Claim (registry_run r' ops) topic d) = Some e \<and> reg_owners (registry_run r' ops) topic = Some c"
proof -
  have g: "fst (Claim r topic c) = None" "snd (Claim r topic c) = r'" using assms(1) by simp_all
  have "reg_owners r' topic = Some c" using Claim_granted_allowed [OF assms(1)] by simp
  then have "reg_owners (registry_run r' ops) topic = Some c"
    unfolding registry_run_def by (rule topics.owner_stable [OF _ assms(2)])
  with topics.claim_excluded [OF g(1) assms(2,3)] show ?thesis by (auto simp: g registry_run_def)
qed

theorem topic_ownership_exclusive_witness:
  "\<exists>e. fst (Claim (registry_run \<lparr>reg_allowed = {''t''}, reg_owners = [''t'' \<mapsto> ''A'']\<rparr>
     [OpRelease ''B'', OpClaim ''t'' ''B'']) ''t'' ''B'') = Some e"
proof -
  have "Claim \<lparr>reg_allowed = {''t''}, reg_owners = Map.empty\<rparr> ''t'' ''A'' =
      (None, \<lparr>reg_allowed = {''t''}, reg_owners = [''t'' \<mapsto> ''A'']\<rparr>)" by (simp add: Claim_def)
  from topic_ownership_exclusive [OF this, of "[OpRelease ''B'', OpClaim ''t'' ''B'']" "''B''"] show ?thesis by auto
qed

lemma registry_run_inv: "registry_inv r \<Longrightarrow> registry_inv (registry_run r ops)"
  unfolding registry_run_def
  by (induction "Claim :: TopicRegistry \<Rightarrow> _" "Release :: TopicRegistry \<Rightarrow> _" r ops rule: ownership_run.induct)
    (auto intro: inv_intros)

text \<open>
  The registry is well formed from start to end: it is created exactly for one to five topics
  none of which is blank, trimmed of white space, and every sequence of claims and releases keeps
  the allowed set as it is and the owned topics within it.
\<close>

theorem registry_well_formed:
  "((\<exists>r. NewTopicRegistry topics = Inr r) \<longleftrightarrow>
     1 \<le> length topics \<and> length topics \<le> 5 \<and> (\<forall>t\<in>set topics. TrimSpace t \<noteq> [])) \<and>
   (\<forall>r. NewTopicRegistry topics = Inr r \<longrightarrow>
     IsAllowed (registry_run r ops) t = (t \<in> TrimSpace ` set topics) \<and>
     dom (reg_owners (registry_run r ops)) \<subseteq> TrimSpace ` set topics \<and> card (TrimSpace ` set topics) \<le> 5)"
proof (intro conjI allI impI)
  show "(\<exists>r. NewTopicRegistry topics = Inr r) \<longleftrightarrow>
     1 \<le> length topics \<and> length topics \<le> 5 \<and> (\<forall>t\<in>set topics. TrimSpace t \<noteq> [])"
    by (simp add: NewTopicRegistry_iff)
  fix r
  assume new: "NewTopicRegistry topics = Inr r"
  have inv: "registry_inv (registry_run r ops)" by (rule registry_run_inv [OF NewTopicRegistry_inv [OF new]])
  have "IsAllowed (registry_run r ops) = IsAllowed r"
    unfolding registry_run_def by (rule topics.allowed_run)
  then have al: "reg_allowed (registry_run r ops) = TrimSpace ` set topics"
    using new by (auto simp: fun_eq_iff IsAllowed_def NewTopicRegistry_iff)
  show "IsAllowed (registry_run r ops) t = (t \<in> TrimSpace ` set topics)" by (simp add: IsAllowed_def al)
  show "dom (reg_owners (registry_run r ops)) \<subseteq> TrimSpace ` set topics" "card (TrimSpace ` set topics) \<le> 5"
    using inv by (simp_all add: registry_inv_def al)
qed

theorem registry_well_formed_witness:
  "\<exists>r. NewTopicRegistry ['' t ''] = Inr r \<and> IsAllowed (registry_run r [OpClaim ''t'' ''A'', OpRelease ''A'']) ''t''"
proof -
  have t: "TrimSpace '' t '' = ''t''" by code_simp
  then obtain r where "NewTopicRegistry ['' t ''] = Inr r"
    using registry_well_formed [of "['' t '']" "[]" "[]"] by auto
  with registry_well_formed [of "['' t '']" "[OpClaim ''t'' ''A'', OpRelease ''A'']" "''t''"] t show ?thesis by auto
qed

subsection \<open>The client manager\<close>

definition manager_run :: "ClientManager \<Rightarrow> client directory_op list \<Rightarrow> ClientManager" where
  "manager_run = directory_run Add Remove"

text \<open>
  The limit on clients holds after every sequence of \<open>Add\<close> and \<open>Remove\<close> calls; and a client
  that was added can be found under its ID until that ID is removed or added again.
\<close>

theorem manager_bounded_and_keeps:
  assumes "0 \<le> maxClients" and "Add (manager_run (NewClientManager maxClients) before) c = (Inr closed, m)"
    and "OpRemove (cl_ID c) \<notin> set after" and "\<forall>d. OpAdd d \<in> set after \<longrightarrow> cl_ID d \<noteq> cl_ID c"
  shows "Count (manager_run m after) \<le> maxClients \<and> Get (manager_run m after) (cl_ID c) = Some c"
proof -
  let ?m0 = "manager_run (NewClientManager maxClients) before"
  have lim0: "cm_maxClients ?m0 = maxClients \<and> Count ?m0 \<le> maxClients"
  proof -
    have run_limit: "cm_maxClients (directory_run Add Remove m' ops) = cm_maxClients m'" for m' ops
      by (induction Add Remove m' ops rule: directory_run.induct) simp_all
    show ?thesis
      using run_limit [of "NewClientManager maxClients" before] clients.run_bounded [of "NewClientManager maxClients" before] assms(1)
      unfolding manager_run_def by (simp add: NewClientManager_def Count_def fcard_fempty)
  qed
  have "m = snd (Add ?m0 c)" using assms(2) by simp
  then have "cm_maxClients m = maxClients" "Count m \<le> maxClients"
    using lim0 clients.ins_bounded [of ?m0 c] by simp_all
  then have "Count (manager_run m after) \<le> maxClients"
    using clients.run_bounded [of m after] unfolding manager_run_def by simp
  moreover have "Get m (cl_ID c) = Some c" using Get_Add [OF assms(2)] by simp
  then have "Get (manager_run m after) (cl_ID c) = Some c"
    unfolding manager_run_def by (rule clients.run_keeps [OF _ assms(3,4)])
  ultimately show ?thesis by simp
qed

theorem manager_bounded_and_keeps_witness:
  "\<exists>c m. Add (NewClientManager 1) c = (Inr [], m) \<and> Count (manager_run m [OpRemove ''B'']) \<le> 1 \<and>
     Get (manager_run m [OpRemove ''B'']) ''A'' = Some c"
proof -
  let ?c = "NewClient \<lparr>tm_ns = 0, tm_off = 0\<rparr> ''A'' 0 60"
  let ?m = "(NewClientManager 1)\<lparr>cm_clients := fmupd ''A'' ?c fmempty\<rparr>"
  have add: "Add (NewClientManager 1) ?c = (Inr [], ?m)"
    by (simp add: Add_def NewClientManager_def NewClient_def Count_def fcard_fempty)
  then have "Add (manager_run (NewClientManager 1) []) ?c = (Inr [], ?m)" by (simp add: manager_run_def)
  from manager_bounded_and_keeps [OF _ this, of "[OpRemove ''B'']"] add show ?thesis
    by (auto simp: NewClient_def)
qed

end
