(* ===== verification/Spec2Isabelle.thy ===== *)
theory Spec2Isabelle
  imports HTTP_API Shutdown Observability Broker_Properties
begin

text \<open>
  This development verifies a small MQTT broker for the factory floor: it accepts a few authenticated
  clients, takes their messages on configured topics, stores them, and derives from the messages of
  one topic how available each machine was.

  \<^bold>\<open>The program and its parts.\<close> \<open>cmd/broker\<close> reads the configuration from the environment, migrates the
  database and wires the modules. The server (\<open>internal/modules/broker/connection\<close>) runs a goroutine
  per TCP connection: CONNECT, authentication, registration with the client manager, then a loop over
  packets; a PUBLISH claims its topic in the topic registry and puts a message on a channel. The
  pipeline (\<open>broker/ingestion\<close>) routes messages to one queue per topic; a consumer per queue saves a
  message (\<open>internal/platform/database/ingestion\<close>) and forwards it to the processing channel. The
  fan-out (\<open>internal/modules/processing\<close>) gives each forwarded message to every worker. The
  state-change worker (\<open>internal/modules/oee/availability/features/ingest-state\<close>) turns messages into
  intervals of machine states, stores them and tells the live engine (\<open>features/live\<close>), which pushes a
  snapshot of every machine to its sinks at every tick. Availability over any window is computed from
  the stored intervals (\<open>features/query\<close>) and the shifts (\<open>oee/config\<close>, \<open>oee/domain\<close>). The audit endpoints
  (\<open>internal/modules/audit\<close>) read the stored messages back. They and the availability endpoint answer over
  HTTP with JSON documents; snapshots go to websockets.

  \<^bold>\<open>Theories and sources.\<close> Definitions have the names of the code; a suffix or prefix is added where
  one name has several meanings (\<open>get_Execute\<close>, \<open>Engine_Apply\<close>).
  \<^item> \<open>Prelude\<close>: bytes, strings, byte streams, the decoder interfaces, reachability and the locale
    \<open>invariant_system\<close> of step relations with an invariant.
  \<^item> \<open>Go_Strings\<close>, \<open>Go_Strconv\<close>, \<open>Go_Duration\<close>, \<open>Go_Float\<close>, \<open>Go_Time\<close>, \<open>Go_Calendar\<close>, \<open>Go_Zone\<close>: what the code
    uses of Go's \<open>strings\<close>, \<open>strconv\<close>, \<open>float64\<close> and \<open>time\<close>, with durations and counters at 64 bits, formatting
    and parsing of RFC 3339 times, and time zones as lists of transitions. \<open>Text_Order\<close> shows when formatted
    times are ordered like the times and what a parsed time looks like.
  \<^item> \<open>Go_JSON\<close>, \<open>Go_JSON_Text\<close>, \<open>Go_JSON_Decode\<close>: \<open>encoding/json\<close>, from the tokens of a text to the variables
    that \<open>json.Unmarshal\<close> stores into, with UTF-8, escapes, folded member names and reused slice cells.
    \<open>Go_Float_Text\<close>: floats as the shortest decimal text, and their parsing. \<open>Payloads\<close>: the two documents the
    program decodes, state changes and shifts.
  \<^item> \<open>Go_HTTP\<close>: what the code uses of \<open>net/http\<close>, the patterns and path cleaning of \<open>ServeMux\<close>, \<open>http.Error\<close> and
    the writing of JSON responses. \<open>Audit_API\<close>, \<open>Availability_API\<close>: the documents that the program writes.
  \<^item> \<open>Message\<close>, \<open>Protocol\<close>, \<open>Packet_Codec\<close>, \<open>Packet_Builder\<close>, \<open>Auth\<close>, \<open>Topic_Registry\<close>, \<open>Client_Manager\<close>:
    \<open>common/message\<close>, \<open>broker/protocol\<close>, \<open>common/testutil\<close>, \<open>auth\<close>, \<open>broker/topic\<close>, \<open>broker/connection/client\<close> and
    \<open>client_manager\<close>; their statements are in \<open>Broker_Properties\<close>.
  \<^item> \<open>Server\<close>, \<open>Server_Steps\<close>, \<open>Server_Properties\<close>: \<open>broker/connection/server\<close>. The handlers are functions; the
    goroutines of all connections, the accept loop, timers and cancellation are the relation
    \<open>server_step\<close>.
  \<^item> \<open>Raw_Store\<close>, \<open>Pipeline\<close>: the message table with the audit queries, and the pipeline as the relation
    \<open>pipeline_step\<close>.
  \<^item> \<open>Fanout\<close>: \<open>processing/fanout\<close> and the logger worker, as the relation \<open>fanout_step\<close>.
  \<^item> \<open>Broker_System\<close>: the server, the pipeline and the fan-out on their shared channels, the relation
    \<open>broker_step\<close>. \<open>State_Worker\<close>: the state-change worker as a worker of that system.
  \<^item> \<open>OEE_Domain\<close>, \<open>OEE_Planned\<close>, \<open>Availability_Calc\<close>: \<open>oee/domain\<close> and \<open>oee/availability/domain\<close>.
  \<^item> \<open>Interval_Store\<close>, \<open>Ingest_State\<close>, \<open>Live_Engine\<close>, \<open>Live_Sinks\<close>, \<open>Avail_Query\<close>: the features of
    \<open>oee/availability\<close>. \<open>Shift_Store\<close>: \<open>oee/config\<close>.
    \<open>Live_System\<close>: the ticker loop, the sinks, the websocket endpoint and its read loops as the relation \<open>live_step\<close>.
  \<^item> \<open>Broker_Config\<close>, \<open>Migrator\<close>, \<open>Bootstrap\<close>: \<open>cmd/broker/config\<close>, \<open>platform/database\<close> and \<open>cmd/broker\<close> with its
    \<open>main\<close>, from the environment to the running broker. \<open>HTTP_API\<close>: the HTTP server of the running broker.
    \<open>Shutdown\<close>: \<open>GracefulShutdown\<close> in any state. \<open>Observability\<close>: the loggers.

  \<^bold>\<open>Interfaces.\<close> The contracts between components are locales, interpreted on the model's own
  definitions: \<open>fifo_buffer\<close> by the channels, the decoder locales by the packet formats,
  \<open>invariant_system\<close> by the server, the pipeline, the fan-out, the whole broker, the composite sink and the live feature,
  \<open>json_codec\<close> (what is written is decoded, whatever the variable held) and its extension to arrays by
  strings, numbers, times, breaks, shifts and audit records, \<open>log_interface\<close> by the loggers, \<open>interval_store\<close> (what the ingesting use case relies on) by
  the repository of intervals, \<open>shift_store\<close> by the repository of shifts.

  \<^bold>\<open>What is shown.\<close>
  \<^item> The wire: decoders accept exactly the written form of well-formed packets and the lengths stay in
    bounds (\<open>Broker_Properties\<close>).
  \<^item> The server, under every interleaving: limits on clients and the channel, exclusive ownership of
    topics, authenticated origin of every message, delivery of a PUBLISH with its acknowledgement; and
    that a takeover of a client ID breaks the bookkeeping (\<open>Server_Properties\<close>). \<open>Bootstrap\<close> carries this to
    the environment variables, and says when the process comes up, exits or crashes.
  \<^item> The pipeline loses, duplicates and reorders nothing, persists before it forwards, and drains
    (\<open>Pipeline\<close>); the fan-out gives every message to every worker, once and in order (\<open>Fanout\<close>); joined,
    they convey every message from its PUBLISH to the table and the workers (\<open>Broker_System\<close>).
  \<^item> Documents are decoded to what they say, whatever text their strings hold; a zone offset of 25 hours
    is accepted and blocks its machine (\<open>Payloads\<close>).
  \<^item> Planned time is the number of nanoseconds in the shift and in no break, where the zone has a
    fixed offset; the loop over days returns for zones whose offsets lie within a day of each other,
    and runs for ever over a calendar day that the zone skipped (\<open>OEE_Planned\<close>).
  \<^item> The table of intervals refines an abstract timeline, whatever fails it stays well kept, and the
    live engine mirrors it (\<open>Ingest_State\<close>, \<open>Live_Engine\<close>); downtime counts every nanosecond once and the ratio
    is accurate (\<open>Availability_Calc\<close>); the endpoint and the live engine agree (\<open>Avail_Query\<close>).
  \<^item> Shifts survive their tables and seeding stops cleanly (\<open>Shift_Store\<close>), migrations are atomic and
    idempotent (\<open>Migrator\<close>), a loaded configuration is sound (\<open>Broker_Config\<close>), the file of shifts reaches the
    table (\<open>Bootstrap\<close>).
  \<^item> What clients published is what the audit endpoints show, over HTTP and as JSON (\<open>HTTP_API\<close>); a float is
    written as a text from which the same float is read (\<open>Go_Float_Text\<close>), so the availability that a client
    decodes is the computed one, from the query endpoint (\<open>Availability_API\<close>) and from a websocket under every
    interleaving (\<open>Live_System\<close>), where a tick over several machines drops all but the first.
  \<^item> A shutdown loses a bounded number of messages, acknowledged ones among them (\<open>Shutdown\<close>).
  \<^item> Below, all of it is put together, from the environment to the timelines of the machines.

  \<^bold>\<open>Parameters.\<close> What is outside the repository is an argument of the definitions that use it: the
  time-zone database (\<open>tzdata\<close>), the effect of an SQL statement in a migration (\<open>exec\<close>), opening and pinging the
  SQLite file, websocket connections, the texts of JSON errors (\<open>errtext\<close>), the largest channel the runtime
  allocates (\<open>chan_max\<close>); \<open>Bootstrap\<close> collects them in the record \<open>world\<close>. SQLite is
  modelled by the tables that the statements of the code read and write; the failure of a statement
  or a commit is an argument, so theorems hold for every pattern of failures unless they say
  otherwise.

  \<^bold>\<open>Loops.\<close> No definition has fuel. Loops over data are structural recursions or have a termination
  proof; the loop over days is a \<^theory_text>\<open>partial_function\<close> in which not returning is \<open>None\<close>, and returning is
  proved; loops of goroutines are step relations, and progress is proved on these.

  \<^bold>\<open>Not modelled.\<close> The transport under HTTP and websockets (parsing of requests, sending of headers, the
  target of a redirection, the upgrade), the calls of the logger inside the components, the delivery of signals in
  \<open>main.go\<close>, and the constructors that only store their arguments.
\<close>

section \<open>From the environment to the timeline of a machine\<close>

text \<open>
  C1. The whole program. Let the process come up with OEE enabled and keep running, while no statement
  of the database fails and no device reports the zone offset of 25 hours that cannot be read back. In
  every state between two messages of the fan-out: what clients published on the state topic is, in
  the order of publication, what has reached the state worker followed by what is on its way, and
  nothing is on its way when the broker is idle. For every machine the table holds exactly the
  timeline of the state changes that the JSON payloads of the arrived messages decode to, consecutive
  intervals in that order after those of earlier runs, and the live engine of a broker that started on an
  empty table holds the same intervals.
\<close>

theorem published_states_become_timelines:
  assumes "broker_main w = Serving s" "runs_to s b" "Load (wo_env w) = Inr cfg" "cf_OEEEnabled cfg"
    "InitDatabase w (cf_DBPath cfg) = Inr db" "iv = tb_intervals (wo_tables w db)" "well_kept iv"
    "wo_stateFaults w = (\<lambda>n. no_faults)" "list_all (\<lambda>(fault, m). fault = NoFault) (pl_saves (bk_pipeline b))"
    "fo_phase (bk_fanout b) = Selecting" "snd (fo_states (bk_fanout b) ! 1) = (intervals, machines)"
    "list_all (ordinary (wo_jsonError w)) (of_topic (cf_OEEStateTopic cfg) (sv_log (bk_server b)))"
  shows "\<exists>arrived moving. of_topic (cf_OEEStateTopic cfg) (sv_log (bk_server b)) = arrived @ moving \<and> (idle b \<longrightarrow> moving = []) \<and>
    history intervals m = fold advance (filter (\<lambda>t. tr_MachineID t = m) (decoded (wo_jsonError w) arrived)) (history iv m) \<and>
    (iv = [] \<longrightarrow> engine_intervals machines m = history intervals m)"
proof -
  have "broker_reach (sr_cfg s) (cf_Topics cfg) (cf_MaxClients cfg) (nat (cf_QueueBufferSize cfg)) (tb_raw (wo_tables w db))
      (map snd (held_workers w cfg (wo_tables w db))) (map fst (held_workers w cfg (wo_tables w db))) b"
    using served_reach [OF assms(1,2)] assms(3,5) by (metis sum.inject(2))
  then have reach: "broker_reach (sr_cfg s) (cf_Topics cfg) (cf_MaxClients cfg) (nat (cf_QueueBufferSize cfg)) (tb_raw (wo_tables w db))
      [(0, [], Map.empty), (0, iv, Map.empty)] [LoggerWorker, state_worker (wo_jsonError w) (cf_OEEStateTopic cfg) (\<lambda>n. no_faults)] b"
    by (simp add: held_workers_def assms(4,6,8))
  have "cf_OEEStateTopic cfg \<in> set (cf_Topics cfg)" using Load_ok [OF assms(3)] assms(4) by (simp add: config_ok_def)
  from timelines [OF reach this assms(7,10,12,9,11)] show ?thesis .
qed

theorem published_states_become_timelines_witness:
  "\<exists>s b. broker_main good_world = Serving s \<and> runs_to s b \<and> sv_log (bk_server b) \<noteq> [] \<and>
     history (fst (snd (fo_states (bk_fanout b) ! 1))) ''m1'' = [open_at ''m1'' Stopped (utc_day 2026 6 1)]"
proof -
  let ?w = "state_worker (\<lambda>data. []) ''t'' (\<lambda>n. no_faults)"
  let ?sts = "[(0, [], Map.empty), (0, [], Map.empty)] :: ingest_state list"
  let ?msg = "demo_message\<lparr>msg_Payload := state_payload\<rparr>"
  obtain s where s: "broker_main good_world = Serving s" "sr_broker s = demo_broker ?sts" "sr_cfg s = demo_cfg" "sr_workers s = [LoggerWorker, ?w]"
    using good_world_serves by blast
  obtain b where b: "bexec demo_cfg [LoggerWorker, ?w] (demo_broker ?sts) (demo_labels state_payload) = Some b" "sv_log (bk_server b) = [?msg]" "idle b"
    "pl_saves (bk_pipeline b) = [(NoFault, ?msg)]" "fo_phase (bk_fanout b) = Selecting"
    using demo_broker_run [OF state_payload_facts(1) refl, of LoggerWorker ?w "(0, [], Map.empty)" "(0, [], Map.empty)"] by blast
  have r: "runs_to s b" using bexec_runs [OF b(1)] s by simp
  have t: "of_topic ''t'' [?msg] = [?msg]" "decoded (\<lambda>data. []) [?msg] = [demo_transition]" "ordinary (\<lambda>data. []) ?msg"
    using state_payload_facts(2) by (simp_all add: of_topic_def decoded_def ordinary_def demo_message_def demo_transition_def utc_day_def)
  have l: "Load (wo_env good_world) = Inr (read_config good_env)" by (simp add: good_world_starts)
  let ?db = "\<lparr>db_tracking = True, db_applied = [], db_schema = ()\<rparr>" and ?f = "fo_states (bk_fanout b) ! 1"
  have pre: "[] = tb_intervals (wo_tables good_world ?db)" "list_all (\<lambda>(fault, m). fault = NoFault) (pl_saves (bk_pipeline b))"
    "list_all (ordinary (wo_jsonError good_world)) (of_topic (cf_OEEStateTopic (read_config good_env)) (sv_log (bk_server b)))"
    using t by (simp_all add: b(2,4) good_world_starts(7))
  have "\<exists>arrived moving. of_topic (cf_OEEStateTopic (read_config good_env)) (sv_log (bk_server b)) = arrived @ moving \<and> (idle b \<longrightarrow> moving = []) \<and>
    history (fst (snd ?f)) ''m1'' = fold advance (filter (\<lambda>t. tr_MachineID t = ''m1'') (decoded (wo_jsonError good_world) arrived)) (history [] ''m1'') \<and>
    ([] = ([] :: interval_table) \<longrightarrow> engine_intervals (snd (snd ?f)) ''m1'' = history (fst (snd ?f)) ''m1'')"
    by (rule published_states_become_timelines [OF s(1) r l good_world_starts(6) good_world_starts(2) pre(1) well_kept_Nil good_world_fields(3) pre(2) b(5)
      prod.collapse [symmetric] pre(3)])
  then obtain arrived moving where a: "of_topic (cf_OEEStateTopic (read_config good_env)) (sv_log (bk_server b)) = arrived @ moving" "idle b \<longrightarrow> moving = []"
    "history (fst (snd ?f)) ''m1'' = fold advance (filter (\<lambda>t. tr_MachineID t = ''m1'') (decoded (wo_jsonError good_world) arrived)) (history [] ''m1'')"
    by (elim exE conjE) (rule that)
  have "arrived = [?msg]" using a(1,2) b(3) t(1) by (simp add: b(2) good_world_starts(7))
  then have "history (fst (snd ?f)) ''m1'' = fold advance (filter (\<lambda>t. tr_MachineID t = ''m1'') (decoded (\<lambda>data. []) [?msg])) (history [] ''m1'')"
    using a(3) by simp
  also have "\<dots> = fold advance (filter (\<lambda>t. tr_MachineID t = ''m1'') [demo_transition]) (history [] ''m1'')" by (simp only: t)
  also have "\<dots> = [open_at ''m1'' Stopped (utc_day 2026 6 1)]" by code_simp
  finally have "history (fst (snd ?f)) ''m1'' = [open_at ''m1'' Stopped (utc_day 2026 6 1)]" .
  moreover have "sv_log (bk_server b) \<noteq> []" by (simp add: b(2))
  ultimately show ?thesis using s(1) r by (intro exI [of _ s] exI [of _ b] conjI)
qed

end
